(* ===== verification/Prelude.thy ===== *)
theory Prelude
  imports Main "HOL-Library.Word" "HOL-Library.Monad_Syntax"
begin

text \<open>
  Shared vocabulary of the development: the machine types of the Go source, checked slice
  access, the big-endian accessors of \<^verbatim>\<open>encoding/binary\<close>, error values, and the generic
  lemmas on lists, options and words that the component theories use.

  A Go function that may hit a run-time panic is a function into \<open>'a option\<close>, and
  \<open>None\<close> is the panic; a Go result pair \<^verbatim>\<open>(T, error)\<close> is a sum \<open>go_error + 'a\<close>.
  Indexing and slicing are the checked operations \<open>idx\<close> and \<open>slice\<close>, so that every bounds
  check of the Go run time is a branch of the model.
  Go checks the upper bound of a slice expression against the capacity, \<open>slice\<close> checks it
  against the length: the model panics at least as often as the code.
  Go \<^verbatim>\<open>int\<close> is taken to be 64 bits wide; byte positions are \<open>nat\<close> (no position of
  the source exceeds a slice length by more than 2 to the 33), and \<open>int\<close> where the source
  uses the value \<open>-1\<close>.
\<close>

unbundle bit_operations_syntax

section \<open>Types\<close>

type_synonym byte = "8 word"
type_synonym uint16 = "16 word"
type_synonym uint32 = "32 word"
type_synonym bytes = "byte list"

text \<open>A Go string is an immutable sequence of bytes.\<close>

type_synonym gostring = "byte list"

definition str :: "string \<Rightarrow> gostring" where
  "str s = map of_char s"

text \<open>
  The error values of the source: its package-level sentinels, \<^verbatim>\<open>net.ErrClosed\<close>, the
  errors built by \<^verbatim>\<open>fmt.Errorf\<close> (format string and numeric arguments), and an error that
  code outside the repository returns (a socket, a callback), kept opaque.
\<close>

datatype go_error =
    ErrInvalidVIN
  | ErrKeyTooShort
  | ErrDecrypt
  | ErrClosed
  | Errorf string "nat list"
  | ExternalError nat

text \<open>
  Collections: \<open>wire\<close> holds the equations that evaluate checked access on data built by
  \<open>@\<close> and \<open>#\<close>, \<open>total\<close> the facts that a checked access under its guard succeeds.
\<close>

named_theorems wire
named_theorems total

section \<open>Checked access to byte slices\<close>

definition idx :: "'a list \<Rightarrow> nat \<Rightarrow> 'a option" where
  "idx xs i = (if i < length xs then Some (xs ! i) else None)"

definition slice :: "'a list \<Rightarrow> nat \<Rightarrow> nat \<Rightarrow> 'a list option" where
  "slice xs i j = (if i \<le> j \<and> j \<le> length xs then Some (take (j - i) (drop i xs)) else None)"

lemma idx_Some [total]: "i < length xs \<Longrightarrow> idx xs i = Some (xs ! i)"
  by (simp add: idx_def)

lemma idx_eq_None_iff: "idx xs i = None \<longleftrightarrow> length xs \<le> i"
  by (auto simp: idx_def)

lemma slice_Some [total]:
  "i \<le> j \<Longrightarrow> j \<le> length xs \<Longrightarrow> slice xs i j = Some (take (j - i) (drop i xs))"
  by (simp add: slice_def)

lemma slice_eq_Some_iff:
  "slice xs i j = Some ys \<longleftrightarrow> i \<le> j \<and> j \<le> length xs \<and> ys = take (j - i) (drop i xs)"
  by (auto simp: slice_def)

lemma length_slice: "slice xs i j = Some ys \<Longrightarrow> length ys = j - i"
  by (auto simp: slice_eq_Some_iff)

lemma idx_Cons_0 [wire]: "idx (x # xs) 0 = Some x"
  by (simp add: idx_def)

lemma idx_Cons_Suc [wire]: "idx (x # xs) (Suc i) = idx xs i"
  by (simp add: idx_def)

lemma idx_Cons_numeral [wire]: "idx (x # xs) (numeral k) = idx xs (pred_numeral k)"
  by (simp add: idx_def numeral_eq_Suc)

lemma idx_Cons_1 [wire]: "idx (x # xs) 1 = idx xs 0"
  by (simp add: idx_def)

lemma idx_append: "idx (xs @ ys) i = (if i < length xs then Some (xs ! i) else idx ys (i - length xs))"
  by (auto simp: idx_def nth_append)

lemma idx_append_right [wire]: "length xs \<le> i \<Longrightarrow> idx (xs @ ys) i = idx ys (i - length xs)"
  by (simp add: idx_append)

lemma idx_append_add [simp]: "idx (xs @ ys) (length xs + i) = idx ys i"
  by (simp add: idx_append)

lemma idx_append_length [simp]: "idx (xs @ ys) (length xs) = idx ys 0"
  by (simp add: idx_append)

lemma slice_append_mid:
  "length xs = i \<Longrightarrow> i + length ys = j \<Longrightarrow> slice (xs @ ys @ zs) i j = Some ys"
  by (auto simp: slice_def)

lemma slice_append_mid_last:
  "length xs = i \<Longrightarrow> i + length ys = j \<Longrightarrow> slice (xs @ ys) i j = Some ys"
  by (auto simp: slice_def)

lemma slice_prefix: "length xs = j \<Longrightarrow> slice (xs @ zs) 0 j = Some xs"
  by (auto simp: slice_def)

lemma slice_all: "length xs = j \<Longrightarrow> slice xs 0 j = Some xs"
  by (auto simp: slice_def)

text \<open>Reading relative to a position is reading the suffix that starts there.\<close>

lemma idx_drop: "i \<le> length xs \<Longrightarrow> idx (drop i xs) k = idx xs (i + k)"
  by (auto simp: idx_def)

lemma slice_drop: "i \<le> length xs \<Longrightarrow> slice (drop i xs) a b = slice xs (i + a) (i + b)"
  by (auto simp: slice_def add.commute)

section \<open>Big-endian integers\<close>

text \<open>\<^verbatim>\<open>binary.BigEndian.Uint16\<close> and \<^verbatim>\<open>Uint32\<close> read the first two (four) bytes of a slice.\<close>

definition Uint16 :: "bytes \<Rightarrow> uint16 option" where
  "Uint16 b = do {
     b1 \<leftarrow> idx b 1;
     b0 \<leftarrow> idx b 0;
     Some (ucast b1 OR push_bit 8 (ucast b0))
   }"

definition Uint32 :: "bytes \<Rightarrow> uint32 option" where
  "Uint32 b = do {
     b3 \<leftarrow> idx b 3;
     b2 \<leftarrow> idx b 2;
     b1 \<leftarrow> idx b 1;
     b0 \<leftarrow> idx b 0;
     Some (ucast b3 OR push_bit 8 (ucast b2) OR push_bit 16 (ucast b1) OR push_bit 24 (ucast b0))
   }"

text \<open>\<^verbatim>\<open>binary.BigEndian.PutUint16\<close> and \<^verbatim>\<open>PutUint32\<close>: the bytes they store.\<close>

definition PutUint16 :: "uint16 \<Rightarrow> bytes" where
  "PutUint16 v = [ucast (drop_bit 8 v), ucast v]"

definition PutUint32 :: "uint32 \<Rightarrow> bytes" where
  "PutUint32 v = [ucast (drop_bit 24 v), ucast (drop_bit 16 v), ucast (drop_bit 8 v), ucast v]"

definition be16 :: "byte \<Rightarrow> byte \<Rightarrow> uint16" where
  "be16 b0 b1 = ucast b1 OR push_bit 8 (ucast b0)"

definition be32 :: "byte \<Rightarrow> byte \<Rightarrow> byte \<Rightarrow> byte \<Rightarrow> uint32" where
  "be32 b0 b1 b2 b3 =
     ucast b3 OR push_bit 8 (ucast b2) OR push_bit 16 (ucast b1) OR push_bit 24 (ucast b0)"

lemma length_PutUint16 [simp]: "length (PutUint16 v) = 2"
  by (simp add: PutUint16_def)

lemma length_PutUint32 [simp]: "length (PutUint32 v) = 4"
  by (simp add: PutUint32_def)

lemma bit_byte_less: "bit (b :: byte) n \<Longrightarrow> n < 8"
  using bit_imp_le_length [of b n] by simp

lemma bit_byte_high [simp]: "8 \<le> n \<Longrightarrow> \<not> bit (b :: byte) n"
  using bit_byte_less [of b n] by linarith

lemma unat_byte_less: "unat (b :: byte) < 256"
  using unsigned_less [of b] by simp

lemma be16_PutUint16 [simp]: "be16 (ucast (drop_bit 8 v)) (ucast v) = (v :: uint16)"
  by (rule bit_eqI) (auto simp: be16_def bit_simps)

lemma be32_PutUint32 [simp]:
  "be32 (ucast (drop_bit 24 v)) (ucast (drop_bit 16 v)) (ucast (drop_bit 8 v)) (ucast v) = (v :: uint32)"
proof (rule bit_eqI)
  fix n :: nat
  consider "n < 8" | "8 \<le> n" "n < 16" | "16 \<le> n" "n < 24" | "24 \<le> n" by linarith
  then show "bit (be32 (ucast (drop_bit 24 v)) (ucast (drop_bit 16 v)) (ucast (drop_bit 8 v)) (ucast v)) n
      = bit v n"
    by cases (auto simp: be32_def bit_simps dest: bit_imp_le_length)
qed

lemma PutUint16_be16 [simp]: "PutUint16 (be16 b0 b1) = [b0, b1]"
  by (auto simp: PutUint16_def be16_def bit_simps intro!: bit_eqI)

lemma PutUint32_be32 [simp]: "PutUint32 (be32 b0 b1 b2 b3) = [b0, b1, b2, b3]"
  by (auto simp: PutUint32_def be32_def bit_simps intro!: bit_eqI)

lemma Uint16_Cons [wire]: "Uint16 (b0 # b1 # bs) = Some (be16 b0 b1)"
  by (simp add: Uint16_def be16_def idx_def)

lemma Uint32_Cons [wire]: "Uint32 (b0 # b1 # b2 # b3 # bs) = Some (be32 b0 b1 b2 b3)"
  by (simp add: Uint32_def be32_def idx_def)

lemma Uint16_PutUint16 [wire]: "Uint16 (PutUint16 v @ bs) = Some v"
  by (simp add: PutUint16_def Uint16_Cons)

lemma Uint32_PutUint32 [wire]: "Uint32 (PutUint32 v @ bs) = Some v"
  by (simp add: PutUint32_def Uint32_Cons)

lemma Uint16_PutUint16_only [wire]: "Uint16 (PutUint16 v) = Some v"
  using Uint16_PutUint16 [of v "[]"] by simp

lemma Uint32_PutUint32_only [wire]: "Uint32 (PutUint32 v) = Some v"
  using Uint32_PutUint32 [of v "[]"] by simp

lemma Uint16_total [total]: "2 \<le> length b \<Longrightarrow> Uint16 b = Some (be16 (b ! 0) (b ! 1))"
  by (auto simp: Uint16_def be16_def idx_def)

lemma Uint32_total [total]:
  "4 \<le> length b \<Longrightarrow> Uint32 b = Some (be32 (b ! 0) (b ! 1) (b ! 2) (b ! 3))"
  by (auto simp: Uint32_def be32_def idx_def)

lemma PutUint16_inj: "PutUint16 v = PutUint16 w \<longleftrightarrow> v = w"
  using Uint16_PutUint16_only by (metis option.inject)

section \<open>Reading at a position\<close>

text \<open>
  The idiom \<^verbatim>\<open>binary.BigEndian.Uint16(data[pos : pos+2])\<close> of the decoders, and the one for
  four bytes.
\<close>

definition u16_at :: "bytes \<Rightarrow> nat \<Rightarrow> uint16 option" where
  "u16_at data pos = do { s \<leftarrow> slice data pos (pos + 2); Uint16 s }"

definition u32_at :: "bytes \<Rightarrow> nat \<Rightarrow> uint32 option" where
  "u32_at data pos = do { s \<leftarrow> slice data pos (pos + 4); Uint32 s }"

lemma u16_at_total [total]:
  "pos + 2 \<le> length data \<Longrightarrow> u16_at data pos = Some (be16 (data ! pos) (data ! (pos + 1)))"
  by (simp add: u16_at_def slice_Some Uint16_total)

lemma u32_at_total [total]:
  "pos + 4 \<le> length data \<Longrightarrow>
   u32_at data pos =
     Some (be32 (data ! pos) (data ! (pos + 1)) (data ! (pos + 2)) (data ! (pos + 3)))"
  by (simp add: u32_at_def slice_Some Uint32_total)

lemma u16_at_append [wire]:
  "length xs = pos \<Longrightarrow> u16_at (xs @ PutUint16 v @ ys) pos = Some v"
  by (simp add: u16_at_def slice_append_mid Uint16_PutUint16_only)

lemma u32_at_append [wire]:
  "length xs = pos \<Longrightarrow> u32_at (xs @ PutUint32 v @ ys) pos = Some v"
  by (simp add: u32_at_def slice_append_mid Uint32_PutUint32_only)

lemma u16_at_Cons_0 [wire]: "u16_at (b0 # b1 # bs) 0 = Some (be16 b0 b1)"
  by (simp add: u16_at_def slice_def Uint16_def be16_def idx_def numeral_2_eq_2)

lemma u16_at_Cons_Suc [wire]: "u16_at (b # bs) (Suc i) = u16_at bs i"
  by (simp add: u16_at_def slice_def)

lemma u16_at_Cons_numeral [wire]: "u16_at (b # bs) (numeral k) = u16_at bs (pred_numeral k)"
  by (simp add: numeral_eq_Suc u16_at_Cons_Suc)

lemma u32_at_Cons_0 [wire]: "u32_at (b0 # b1 # b2 # b3 # bs) 0 = Some (be32 b0 b1 b2 b3)"
  by (simp add: u32_at_def slice_def Uint32_def be32_def idx_def numeral_eq_Suc)

lemma u32_at_Cons_Suc [wire]: "u32_at (b # bs) (Suc i) = u32_at bs i"
  by (simp add: u32_at_def slice_def)

lemma u32_at_Cons_numeral [wire]: "u32_at (b # bs) (numeral k) = u32_at bs (pred_numeral k)"
  by (simp add: numeral_eq_Suc u32_at_Cons_Suc)

lemma slice_append_add [simp]:
  "slice (xs @ ys) (length xs + i) (length xs + j) = slice ys i j"
  by (simp add: slice_def)

lemma slice_append_length [simp]: "slice (xs @ ys) (length xs) (length xs + j) = slice ys 0 j"
  by (simp add: slice_def)

lemma u16_at_append_add [simp]: "u16_at (xs @ ys) (length xs + i) = u16_at ys i"
  unfolding u16_at_def add.assoc by (simp only: slice_append_add)

lemma u16_at_append_length [simp]: "u16_at (xs @ ys) (length xs) = u16_at ys 0"
  using u16_at_append_add [of xs ys 0] by simp

lemma u32_at_append_add [simp]: "u32_at (xs @ ys) (length xs + i) = u32_at ys i"
  unfolding u32_at_def add.assoc by (simp only: slice_append_add)

lemma u32_at_append_length [simp]: "u32_at (xs @ ys) (length xs) = u32_at ys 0"
  using u32_at_append_add [of xs ys 0] by simp

lemma u16_at_append_right [wire]: "length xs \<le> i \<Longrightarrow> u16_at (xs @ ys) i = u16_at ys (i - length xs)"
  using u16_at_append_add [of xs ys "i - length xs"] by simp

lemma u32_at_append_right [wire]: "length xs \<le> i \<Longrightarrow> u32_at (xs @ ys) i = u32_at ys (i - length xs)"
  using u32_at_append_add [of xs ys "i - length xs"] by simp

lemma u16_at_PutUint16 [wire]: "u16_at (PutUint16 v @ ys) 0 = Some v" "u16_at (PutUint16 v) 0 = Some v"
  by (simp_all add: PutUint16_def u16_at_Cons_0)

lemma u32_at_PutUint32 [wire]: "u32_at (PutUint32 v @ ys) 0 = Some v" "u32_at (PutUint32 v) 0 = Some v"
  by (simp_all add: PutUint32_def u32_at_Cons_0)

section \<open>Numbers as text\<close>

text \<open>\<^verbatim>\<open>%d\<close> of a number that is not negative, and \<^verbatim>\<open>hex.EncodeToString\<close>.\<close>

fun decimal :: "nat \<Rightarrow> gostring" where
  "decimal n = (if n < 10 then [word_of_nat (48 + n)] else decimal (n div 10) @ [word_of_nat (48 + n mod 10)])"

declare decimal.simps [simp del]

definition hex_digit :: "nat \<Rightarrow> byte" where
  "hex_digit n = word_of_nat (if n < 10 then 48 + n else 87 + n)"

definition hex_EncodeToString :: "bytes \<Rightarrow> gostring" where
  "hex_EncodeToString bs = concat (map (\<lambda>b. [hex_digit (unat b div 16), hex_digit (unat b mod 16)]) bs)"

lemma length_decimal: "n < 10 ^ k \<Longrightarrow> 0 < k \<Longrightarrow> length (decimal n) \<le> k"
proof (induction n arbitrary: k rule: decimal.induct)
  case (1 n)
  show ?case
  proof (cases "n < 10")
    case False
    obtain j where j: "k = Suc j" using "1.prems" by (cases k) auto
    with False "1.prems" have "n div 10 < 10 ^ j" "0 < j" by (cases j; simp add: less_mult_imp_div_less)+
    with "1.IH" [OF False, of j] j False show ?thesis by (subst decimal.simps) simp
  qed (use "1.prems" in \<open>subst decimal.simps, simp\<close>)
qed

lemma decimal_lower: "10 ^ k \<le> n \<Longrightarrow> k < length (decimal n)"
proof (induction n arbitrary: k rule: decimal.induct)
  case (1 n)
  show ?case
  proof (cases k)
    case 0
    then show ?thesis by (subst decimal.simps) simp
  next
    case (Suc j)
    have "(10 :: nat) * 1 \<le> 10 * 10 ^ j" by (intro mult_le_mono) simp_all
    then have "\<not> n < 10" using Suc "1.prems" by (simp only: power_Suc)
    moreover have "10 ^ j \<le> n div 10"
      using Suc "1.prems" by (simp add: less_eq_div_iff_mult_less_eq mult.commute)
    ultimately show ?thesis using "1.IH" [of j] Suc by (subst decimal.simps) simp
  qed
qed

section \<open>Words and numbers\<close>

lemma be16_eq_add: "be16 b0 b1 = ucast b1 + 256 * ucast b0"
proof -
  have "(ucast b1 :: uint16) AND push_bit 8 (ucast b0) = 0"
    by (rule bit_eqI) (auto simp: bit_simps dest: bit_imp_le_length)
  then show ?thesis
    by (simp add: be16_def disjunctive_add_eq_or [symmetric] push_bit_eq_mult mult.commute)
qed

lemma unat_ucast_byte [simp]:
  "unat (ucast (b :: byte) :: uint16) = unat b" "unat (ucast b :: uint32) = unat b"
  by (simp_all add: unsigned_ucast_eq take_bit_nat_eq_self unat_byte_less
      [THEN order.strict_trans])

lemma unat_be16: "unat (be16 b0 b1) = 256 * unat b0 + unat b1"
proof -
  have b: "unat b0 < 256" "unat b1 < 256"
    by (rule unat_byte_less)+
  then show ?thesis
    by (simp add: be16_eq_add unat_word_ariths)
qed

section \<open>Loops over counted items\<close>

text \<open>
  The decoders read a count and then that many items, one after the other, appending each to the
  result. A loop of this kind reads back any list of items written one after the other; the
  locale has the two laws a loop owes, the list follows once for all of them.
\<close>

locale counted_loop =
  fixes loop :: "bytes \<Rightarrow> nat \<Rightarrow> nat \<Rightarrow> nat \<Rightarrow> 'a list \<Rightarrow> 'a list option"
    and wire_of :: "'a \<Rightarrow> bytes"
    and ok :: "'a \<Rightarrow> bool"
  assumes loop_done: "loop data n n p acc = Some acc"
    and loop_item: "ok x \<Longrightarrow> i < n \<Longrightarrow>
      loop (pre @ wire_of x @ r) n i (length pre) acc =
      loop (pre @ wire_of x @ r) n (i + 1) (length (pre @ wire_of x)) (acc @ [x])"
begin

lemma loop_items:
  "list_all ok xs \<Longrightarrow>
   loop (pre @ concat (map wire_of xs) @ r) (i + length xs) i (length pre) acc = Some (acc @ xs)"
proof (induction xs arbitrary: pre i acc)
  case (Cons x xs)
  have "loop (pre @ wire_of x @ concat (map wire_of xs) @ r) (i + length (x # xs)) i (length pre) acc =
      loop ((pre @ wire_of x) @ concat (map wire_of xs) @ r) (Suc i + length xs) (Suc i)
        (length (pre @ wire_of x)) (acc @ [x])"
    using Cons.prems loop_item [of x i "i + length (x # xs)" pre "concat (map wire_of xs) @ r" acc] by simp
  also have "\<dots> = Some ((acc @ [x]) @ xs)" using Cons.prems by (intro Cons.IH) simp
  finally show ?case by simp
qed (simp add: loop_done)

end

lemma unat_of_nat_byte: "n < 256 \<Longrightarrow> unat (word_of_nat n :: byte) = n"
  by (simp add: unat_of_nat take_bit_nat_eq_self)

end
