(* ===== verification/Constants.thy ===== *)
theory Constants
  imports Prelude
begin

text \<open>
  The protocol constants of \<^verbatim>\<open>constant/command.go\<close>, with its two name tables as partial
  functions from the code to the name.
\<close>

definition StartMarker1 :: byte where [simp]: "StartMarker1 = 0x23"
definition StartMarker2 :: byte where [simp]: "StartMarker2 = 0x23"

definition CmdLogin :: byte where [simp]: "CmdLogin = 0x01"
definition CmdRealtime :: byte where [simp]: "CmdRealtime = 0x02"
definition CmdReissue :: byte where [simp]: "CmdReissue = 0x03"
definition CmdLogout :: byte where [simp]: "CmdLogout = 0x04"
definition CmdPlatLogin :: byte where [simp]: "CmdPlatLogin = 0x05"
definition CmdPlatLogout :: byte where [simp]: "CmdPlatLogout = 0x06"
definition CmdHeartbeat :: byte where [simp]: "CmdHeartbeat = 0x07"
definition CmdTimeCalibr :: byte where [simp]: "CmdTimeCalibr = 0x08"
definition CmdParamQuery :: byte where [simp]: "CmdParamQuery = 0x80"
definition CmdParamQueryResp :: byte where [simp]: "CmdParamQueryResp = 0x81"
definition CmdParamSetting :: byte where [simp]: "CmdParamSetting = 0x82"

definition RespSuccess :: byte where [simp]: "RespSuccess = 0xFE"
definition ReqRequest :: byte where [simp]: "ReqRequest = 0x01"

definition EncNone :: byte where [simp]: "EncNone = 0x01"
definition EncRSA :: byte where [simp]: "EncRSA = 0x02"
definition EncAES128 :: byte where [simp]: "EncAES128 = 0x03"
definition EncAbnormal :: byte where [simp]: "EncAbnormal = 0xFE"

definition VINLength :: nat where [simp]: "VINLength = 17"

definition LoginSuccess :: byte where [simp]: "LoginSuccess = 0x01"
definition LoginCarNotFound :: byte where [simp]: "LoginCarNotFound = 0x02"
definition LoginTerminalNotFound :: byte where [simp]: "LoginTerminalNotFound = 0x03"
definition LoginResultAbnormal :: byte where [simp]: "LoginResultAbnormal = 0xFE"

definition HeaderSize :: nat where [simp]: "HeaderSize = 24"
definition MinPacketSize :: nat where [simp]: "MinPacketSize = 25"
definition MaxPacketSize :: nat where [simp]: "MaxPacketSize = 65535 + 25"

definition CommandNames :: "byte \<rightharpoonup> string" where
  "CommandNames = map_of
     [(CmdLogin, ''LOGIN''), (CmdRealtime, ''REALTIME''), (CmdReissue, ''REISSUE''),
      (CmdLogout, ''LOGOUT''), (CmdPlatLogin, ''PLAT_LOGIN''), (CmdPlatLogout, ''PLAT_LOGOUT''),
      (CmdHeartbeat, ''HEARTBEAT''), (CmdTimeCalibr, ''TIME_CALIBRATION''),
      (CmdParamQuery, ''PARAM_QUERY''), (CmdParamQueryResp, ''PARAM_QUERY_RESP''),
      (CmdParamSetting, ''PARAM_SETTING'')]"

definition LoginResultNames :: "byte \<rightharpoonup> string" where
  "LoginResultNames = map_of
     [(LoginSuccess, ''SUCCESS''), (LoginCarNotFound, ''CAR_NOT_FOUND''),
      (LoginTerminalNotFound, ''TERMINAL_NOT_FOUND''), (LoginResultAbnormal, ''ABNORMAL'')]"

end
