(* ===== verification/Framing.thy ===== *)
theory Framing
  imports Constants
begin

text \<open>
  The stream decoder and the frame encoder (\<^verbatim>\<open>decoder.go\<close>, the frame part of
  \<^verbatim>\<open>packet.go\<close>): the \<open>Decoder\<close> record with its buffer and cursor, \<open>Feed\<close>, \<open>Decode\<close>
  with its resynchronising loop, the checksum, and \<open>EncodeResponse\<close>.
  \<open>None\<close> is a run-time panic. The abstract specification \<open>scan\<close> works on the list of
  pending bytes alone; \<open>Decode\<close> refines it.
\<close>

section \<open>Data\<close>

record Packet =
  Command :: byte
  Response :: byte
  VIN :: gostring
  EncryptType :: byte
  Data :: bytes
  Length :: uint16

datatype TimeCodec = TimeCodecBCD | TimeCodecBinary

text \<open>\<^verbatim>\<open>d.buf == nil\<close> is \<open>None\<close>; a nil slice has length 0.\<close>

record Decoder =
  buf :: "bytes option"
  pos :: nat
  limit :: nat
  timeCodec :: TimeCodec
  bccIncludeStart :: bool

definition buf_bytes :: "Decoder \<Rightarrow> bytes" where
  "buf_bytes d = (case buf d of None \<Rightarrow> [] | Some b \<Rightarrow> b)"

lemma buf_bytes_pos [simp]: "buf_bytes (d\<lparr>pos := p\<rparr>) = buf_bytes d"
  by (simp add: buf_bytes_def)

section \<open>Operations\<close>

definition NewDecoder :: Decoder where
  "NewDecoder =
     \<lparr>buf = None, pos = 0, limit = 0, timeCodec = TimeCodecBCD, bccIncludeStart = False\<rparr>"

definition newDecoderWithConfig :: "TimeCodec \<Rightarrow> bool \<Rightarrow> Decoder" where
  "newDecoderWithConfig tc b =
     \<lparr>buf = None, pos = 0, limit = 0, timeCodec = tc, bccIncludeStart = b\<rparr>"

definition Reset :: "Decoder \<Rightarrow> Decoder" where
  "Reset d = d\<lparr>buf := None, pos := 0, limit := 0\<rparr>"

text \<open>
  \<^verbatim>\<open>copy(newBuf, d.buf[d.pos:])\<close> is the checked slice from \<open>pos\<close> to the end of the buffer;
  \<open>copy\<close> moves as many bytes as the shorter of the two operands has.
\<close>

definition copy :: "'a list \<Rightarrow> 'a list \<Rightarrow> 'a list" where
  "copy dst src = take (length dst) src @ drop (length src) dst"

definition Feed :: "Decoder \<Rightarrow> bytes \<Rightarrow> Decoder option" where
  "Feed d data =
     (case buf d of
        None \<Rightarrow>
          let b = copy (replicate (length data) 0) data
          in Some (d\<lparr>buf := Some b, pos := 0, limit := length b\<rparr>)
      | Some b0 \<Rightarrow>
          let remaining = limit d - pos d in
          if remaining > 0 then do {
            tail \<leftarrow> slice b0 (pos d) (length b0);
            let newBuf = copy (replicate (remaining + length data) 0) tail;
            let newBuf = take remaining newBuf @ copy (drop remaining newBuf) data;
            Some (d\<lparr>buf := Some newBuf, pos := 0, limit := length newBuf\<rparr>)
          }
          else
            let b = copy (replicate (length data) 0) data
            in Some (d\<lparr>buf := Some b, pos := 0, limit := length b\<rparr>))"

text \<open>The loop of \<^verbatim>\<open>findStartMarker\<close>; \<^verbatim>\<open>&&\<close> reads the second byte only after the first matched.\<close>

function marker_loop :: "bytes \<Rightarrow> nat \<Rightarrow> nat \<Rightarrow> int option" where
  "marker_loop b i lim =
     (if i + 1 < lim then do {
        x \<leftarrow> idx b i;
        if x = StartMarker1 then do {
          y \<leftarrow> idx b (i + 1);
          if y = StartMarker2 then Some (int i) else marker_loop b (i + 1) lim
        } else marker_loop b (i + 1) lim
      } else Some (- 1))"
  by pat_completeness auto
termination
  by (relation "measure (\<lambda>(b, i, lim). lim - i)") auto

declare marker_loop.simps [simp del]

definition findStartMarker :: "Decoder \<Rightarrow> int option" where
  "findStartMarker d = marker_loop (buf_bytes d) (pos d) (limit d)"

fun xor_loop :: "byte \<Rightarrow> bytes \<Rightarrow> byte" where
  "xor_loop bcc [] = bcc"
| "xor_loop bcc (b # bs) = xor_loop (bcc XOR b) bs"

definition calculateBCC :: "bytes \<Rightarrow> byte" where
  "calculateBCC data = xor_loop 0 data"

definition verifyBCC :: "Decoder \<Rightarrow> bytes \<Rightarrow> bytes \<Rightarrow> byte \<Rightarrow> bool option" where
  "verifyBCC d header data bcc = do {
     h2 \<leftarrow> slice header 2 (length header);
     let calcBCC = xor_loop (calculateBCC h2) data;
     if calcBCC = bcc then Some True
     else if bccIncludeStart d then
       let calcBCC2 = xor_loop (calculateBCC header) data
       in if calcBCC2 = bcc then Some True else Some False
     else Some False
   }"

text \<open>
  One iteration of the \<^verbatim>\<open>for\<close> loop of \<^verbatim>\<open>Decode\<close>: it returns \<^verbatim>\<open>(packet, error)\<close> with the
  decoder as it is then, or continues with the decoder moved past a rejected marker.
\<close>

datatype 'r loop = Return 'r Decoder | Continue Decoder

definition decode_iter :: "Decoder \<Rightarrow> (go_error + Packet option) loop option" where
  "decode_iter d = do {
     startIdx \<leftarrow> findStartMarker d;
     if startIdx < 0 then Some (Return (Inr None) (Reset d))
     else do {
       let d = d\<lparr>pos := nat startIdx\<rparr>;
       if limit d - pos d < HeaderSize then Some (Return (Inr None) d)
       else do {
         header \<leftarrow> slice (buf_bytes d) (pos d) (pos d + HeaderSize);
         command \<leftarrow> idx header 2;
         response \<leftarrow> idx header 3;
         vin \<leftarrow> slice header 4 21;
         encryptType \<leftarrow> idx header 21;
         dataLength \<leftarrow> u16_at header 22;
         let d = d\<lparr>pos := pos d + HeaderSize\<rparr>;
         if unat dataLength > limit d - pos d then
           Some (Return (Inr None) (d\<lparr>pos := nat startIdx\<rparr>))
         else do {
           data \<leftarrow> slice (buf_bytes d) (pos d) (pos d + unat dataLength);
           let d = d\<lparr>pos := pos d + unat dataLength\<rparr>;
           bcc \<leftarrow> idx (buf_bytes d) (pos d);
           let d = d\<lparr>pos := pos d + 1\<rparr>;
           ok \<leftarrow> verifyBCC d header data bcc;
           if \<not> ok then Some (Continue (d\<lparr>pos := nat startIdx + 2\<rparr>))
           else Some (Return (Inr (Some
             \<lparr>Command = command, Response = response, VIN = vin, EncryptType = encryptType,
              Data = data, Length = dataLength\<rparr>)) d)
         }
       }
     }
   }"

lemma marker_loop_range:
  "marker_loop b i lim = Some k \<Longrightarrow> k = - 1 \<or> (int i \<le> k \<and> nat k + 1 < lim)"
proof (induction b i lim rule: marker_loop.induct)
  case (1 b i lim)
  show ?case
  proof (cases "i + 1 < lim")
    case True
    with "1.prems" "1.IH" show ?thesis
      by (subst (asm) marker_loop.simps) (fastforce split: bind_splits if_splits)
  next
    case False
    with "1.prems" show ?thesis by (subst (asm) marker_loop.simps) simp
  qed
qed

lemma decode_iter_Continue_less:
  "decode_iter d = Some (Continue d') \<Longrightarrow> limit d' - pos d' < limit d - pos d"
  by (auto simp: decode_iter_def Let_def findStartMarker_def
      dest!: marker_loop_range split: bind_splits if_splits)

function Decode :: "Decoder \<Rightarrow> ((go_error + Packet option) \<times> Decoder) option" where
  "Decode d =
     (case decode_iter d of
        None \<Rightarrow> None
      | Some (Return r d') \<Rightarrow> Some (r, d')
      | Some (Continue d') \<Rightarrow> Decode d')"
  by pat_completeness auto
termination
  by (relation "measure (\<lambda>d. limit d - pos d)") (auto dest: decode_iter_Continue_less)

declare Decode.simps [simp del]

text \<open>\<^verbatim>\<open>(d *Decoder) Close\<close> has an empty body.\<close>

definition Decoder_Close :: "Decoder \<Rightarrow> Decoder" where
  "Decoder_Close d = d"

definition EncodeResponse :: "byte \<Rightarrow> gostring \<Rightarrow> byte \<Rightarrow> bytes \<Rightarrow> go_error + bytes" where
  "EncodeResponse command vin encryptType data =
     (if length vin \<noteq> VINLength then Inl ErrInvalidVIN
      else
        let encryptType = (if encryptType = 0 then EncNone else encryptType);
            dataLen = length data;
            vinPadded = copy (replicate VINLength 0x20) vin;
            pkt = [StartMarker1, StartMarker2, command, RespSuccess] @ vinPadded @ [encryptType]
                    @ PutUint16 (word_of_nat dataLen) @ data;
            bcc = calculateBCC (drop 2 (pkt @ [0]))
        in Inr (pkt @ [bcc]))"

section \<open>Specification: scanning the pending bytes\<close>

text \<open>
  \<open>find_marker\<close> drops bytes up to the first start marker. \<open>scan\<close> says what one call of
  \<open>Decode\<close> does to the pending bytes: the packet it returns, if any, and the bytes that stay
  pending; \<open>None\<close> where the frame is complete but for its checksum byte.
\<close>

fun find_marker :: "bytes \<Rightarrow> bytes option" where
  "find_marker (x # y # r) =
     (if x = StartMarker1 \<and> y = StartMarker2 then Some (x # y # r) else find_marker (y # r))"
| "find_marker _ = None"

definition data_length :: "bytes \<Rightarrow> nat" where
  "data_length s = unat (be16 (s ! 22) (s ! 23))"

definition frame_ok :: "bytes \<Rightarrow> bool" where
  "frame_ok s = (xor_loop 0 (take (23 + data_length s) (drop 2 s)) = 0)"

definition frame_packet :: "bytes \<Rightarrow> Packet" where
  "frame_packet s =
     \<lparr>Command = s ! 2, Response = s ! 3, VIN = take 17 (drop 4 s), EncryptType = s ! 21,
      Data = take (data_length s) (drop 24 s), Length = be16 (s ! 22) (s ! 23)\<rparr>"

lemma find_marker_length: "find_marker xs = Some s \<Longrightarrow> length s \<le> length xs \<and> 2 \<le> length s"
  by (induction xs rule: find_marker.induct) (auto split: if_splits)

function scan :: "bytes \<Rightarrow> (Packet option \<times> bytes) option" where
  "scan xs =
     (case find_marker xs of
        None \<Rightarrow> Some (None, [])
      | Some s \<Rightarrow>
          if length s < 24 \<or> length s < 24 + data_length s then Some (None, s)
          else if length s = 24 + data_length s then None
          else if frame_ok s then Some (Some (frame_packet s), drop (25 + data_length s) s)
          else scan (drop 2 s))"
  by pat_completeness auto
termination
  by (relation "measure length") (auto dest!: find_marker_length)

declare scan.simps [simp del]

text \<open>The pending bytes of a decoder, and the invariant its operations keep.\<close>

definition pending :: "Decoder \<Rightarrow> bytes" where
  "pending d = drop (pos d) (buf_bytes d)"

definition decoder_inv :: "Decoder \<Rightarrow> bool" where
  "decoder_inv d \<longleftrightarrow> limit d = length (buf_bytes d) \<and> pos d \<le> limit d"

section \<open>The decoder refines the specification\<close>

lemma copy_same_length [simp]: "length src = length dst \<Longrightarrow> copy dst src = src"
  by (simp add: copy_def)

lemma length_copy [simp]: "length (copy dst src) = length dst"
  by (simp add: copy_def)

lemma Feed_inv:
  assumes "decoder_inv d"
  shows "\<exists>d'. Feed d data = Some d' \<and> decoder_inv d' \<and> pending d' = pending d @ data
    \<and> bccIncludeStart d' = bccIncludeStart d \<and> timeCodec d' = timeCodec d"
  using assms
  by (auto simp: Feed_def decoder_inv_def pending_def buf_bytes_def Let_def slice_def copy_def
      split: option.splits)

lemma marker_loop_find:
  "lim = length b \<Longrightarrow> i \<le> lim \<Longrightarrow>
   marker_loop b i lim =
     Some (case find_marker (drop i b) of None \<Rightarrow> - 1 | Some s \<Rightarrow> int (length b - length s))"
proof (induction b i lim rule: marker_loop.induct)
  case (1 b i lim)
  show ?case
  proof (cases "i + 1 < lim")
    case True
    then obtain x y r where d: "drop i b = x # y # r" and x: "b ! i = x" and y: "b ! (i + 1) = y"
      using "1.prems" by (metis Cons_nth_drop_Suc Suc_eq_plus1 Suc_lessD)
    have d': "drop (i + 1) b = y # r"
      using d by (metis drop_Suc drop_drop list.sel(3) plus_1_eq_Suc tl_drop add.commute)
    have len: "length b - length (x # y # r) = i"
      using d True "1.prems" by (metis diff_diff_cancel length_drop)
    show ?thesis
      using True "1.prems" "1.IH" x y d d' len
      by (subst marker_loop.simps) (auto simp: idx_def)
  next
    case False
    then have "length (drop i b) \<le> 1" using "1.prems" by simp
    then have "find_marker (drop i b) = None"
      by (cases "drop i b" rule: find_marker.cases) auto
    with False show ?thesis by (subst marker_loop.simps) simp
  qed
qed

lemma find_marker_suffix:
  "find_marker xs = Some s \<Longrightarrow>
   s = drop (length xs - length s) xs \<and> s ! 0 = StartMarker1 \<and> s ! 1 = StartMarker2"
proof (induction xs rule: find_marker.induct)
  case (1 x y r)
  show ?case
  proof (cases "x = StartMarker1 \<and> y = StartMarker2")
    case True
    with "1.prems" show ?thesis by auto
  next
    case False
    with "1.prems" have f: "find_marker (y # r) = Some s" by auto
    with False have "s = drop (length (y # r) - length s) (y # r)"
      and "s ! 0 = StartMarker1 \<and> s ! 1 = StartMarker2"
      using "1.IH" by auto
    moreover have "length s \<le> length (y # r)"
      using f find_marker_length by blast
    ultimately show ?thesis by (auto simp: Suc_diff_le)
  qed
qed auto

lemma xor_loop_acc: "xor_loop a xs = a XOR xor_loop 0 xs"
proof (induction xs arbitrary: a)
  case (Cons x xs)
  have "xor_loop (a XOR x) xs = (a XOR x) XOR xor_loop 0 xs" by (rule Cons.IH)
  moreover have "xor_loop x xs = x XOR xor_loop 0 xs" by (rule Cons.IH)
  ultimately show ?case by (simp add: xor.assoc)
qed simp

lemma xor_loop_append: "xor_loop a (xs @ ys) = xor_loop (xor_loop a xs) ys"
  by (induction xs arbitrary: a) auto

lemma xor_eq_0_iff: "(a :: byte) XOR b = 0 \<longleftrightarrow> a = b"
  by (metis xor.right_neutral xor.left_commute xor_self_eq xor.commute)

text \<open>
  The two checksum modes agree on every header that starts with the marker: the two marker
  bytes cancel. So \<open>bccIncludeStart\<close> never changes what the decoder accepts.
\<close>

lemma verifyBCC_frame:
  assumes s: "s ! 0 = StartMarker1" "s ! 1 = StartMarker2" and len: "24 + n < length s"
    and n: "n = data_length s"
  shows "verifyBCC d (take 24 s) (take n (drop 24 s)) (s ! (24 + n)) = Some (frame_ok s)"
proof -
  let ?b = "s ! (24 + n)" and ?h = "take 22 (drop 2 s)" and ?d = "take n (drop 24 s)"
  have split: "take (23 + n) (drop 2 s) = ?h @ ?d @ [?b]"
  proof -
    have "take (23 + n) (drop 2 s) = take 22 (drop 2 s) @ take (n + 1) (drop 24 s)"
      using take_add [of 22 "n + 1" "drop 2 s"] by (simp add: add.commute)
    also have "take (n + 1) (drop 24 s) = take n (drop 24 s) @ [?b]"
      using len by (simp add: take_Suc_conv_app_nth)
    finally show ?thesis by simp
  qed
  have ok: "frame_ok s \<longleftrightarrow> xor_loop (xor_loop 0 ?h) ?d = ?b"
    by (simp add: frame_ok_def n [symmetric] split xor_loop_append xor_eq_0_iff)
  have h2: "slice (take 24 s) 2 (length (take 24 s)) = Some ?h"
    using len by (simp add: slice_def drop_take)
  have "take 24 s = s ! 0 # s ! 1 # ?h"
    using len by (cases s; cases "tl s") auto
  then have "calculateBCC (take 24 s) = xor_loop 0 ?h"
    using s by (simp add: calculateBCC_def)
  then show ?thesis
    using ok h2 by (auto simp: verifyBCC_def calculateBCC_def Let_def)
qed

lemma decode_iter_refines:
  assumes inv: "decoder_inv d"
  shows "decode_iter d =
    (case find_marker (pending d) of
       None \<Rightarrow> Some (Return (Inr None) (Reset d))
     | Some s \<Rightarrow>
         if length s < 24 \<or> length s < 24 + data_length s
         then Some (Return (Inr None) (d\<lparr>pos := limit d - length s\<rparr>))
         else if length s = 24 + data_length s then None
         else if frame_ok s
         then Some (Return (Inr (Some (frame_packet s)))
                (d\<lparr>pos := limit d - length s + 25 + data_length s\<rparr>))
         else Some (Continue (d\<lparr>pos := limit d - length s + 2\<rparr>)))"
proof (cases "find_marker (pending d)")
  case None
  with inv show ?thesis
    by (simp add: decode_iter_def findStartMarker_def decoder_inv_def pending_def marker_loop_find)
next
  case (Some s)
  let ?b = "buf_bytes d"
  define i where "i = limit d - length s"
  have lim: "limit d = length ?b" "pos d \<le> length ?b" using inv by (auto simp: decoder_inv_def)
  have s: "s ! 0 = StartMarker1" "s ! 1 = StartMarker2" and ls: "length s \<le> length ?b - pos d"
    using find_marker_suffix [OF Some] find_marker_length [OF Some] by (auto simp: pending_def)
  have sb: "s = drop i ?b"
    using find_marker_suffix [OF Some] ls lim by (simp add: pending_def i_def)
  have i: "i + length s = length ?b" using ls lim by (simp add: i_def)
  have fm: "findStartMarker d = Some (int i)"
    using Some lim by (simp add: findStartMarker_def pending_def marker_loop_find i_def)
  have rd: "\<And>a. slice ?b i (i + a) = slice s 0 a" "\<And>a b. slice ?b (i + a) (i + b) = slice s a b"
    "\<And>a. idx ?b (i + a) = idx s a"
    using sb i by (metis add.right_neutral le_add1 slice_drop) (metis i le_add1 sb slice_drop, metis i idx_drop le_add1 sb)
  have r: "length ?b - i = length s" using i by simp
  show ?thesis
  proof (cases "length s < 24")
    case True
    with Some fm i lim r show ?thesis by (simp add: decode_iter_def i_def [symmetric] Let_def)
  next
    case long: False
    let ?n = "data_length s"
    have hdr: "slice ?b i (i + 24) = Some (take 24 s)"
      unfolding rd(1) using long by (simp add: slice_def)
    have u: "u16_at (take 24 s) 22 = Some (be16 (s ! 22) (s ! 23))"
      using long by (simp add: u16_at_total)
    have h: "idx (take 24 s) 2 = Some (s ! 2)" "idx (take 24 s) 3 = Some (s ! 3)"
      "idx (take 24 s) 21 = Some (s ! 21)" "slice (take 24 s) 4 21 = Some (take 17 (drop 4 s))"
      using long by (simp_all add: idx_def slice_def drop_take)
    have dat: "24 + ?n \<le> length s \<Longrightarrow>
        slice ?b (i + 24) (i + 24 + ?n) = Some (take ?n (drop 24 s))"
      using rd(2) [of 24 "24 + ?n"] by (simp add: slice_def add.assoc)
    have bcc: "idx ?b (i + 24 + ?n) = (if 24 + ?n < length s then Some (s ! (24 + ?n)) else None)"
      using rd(3) [of "24 + ?n"] by (simp add: idx_def add.assoc)
    have v: "24 + ?n < length s \<Longrightarrow>
        verifyBCC d' (take 24 s) (take ?n (drop 24 s)) (s ! (24 + ?n)) = Some (frame_ok s)" for d'
      by (rule verifyBCC_frame [OF s]) auto
    note facts = fm hdr u h dat bcc v r
    consider "length s < 24 + ?n" | "length s = 24 + ?n" | "24 + ?n < length s" by linarith
    then show ?thesis
      using Some long i lim
      by cases (simp_all add: decode_iter_def facts Let_def i_def [symmetric]
          data_length_def [symmetric] frame_packet_def)
  qed
qed

lemma Reset_simps [simp]:
  "decoder_inv (Reset d)" "pending (Reset d) = []"
  "bccIncludeStart (Reset d) = bccIncludeStart d" "timeCodec (Reset d) = timeCodec d"
  by (simp_all add: Reset_def decoder_inv_def pending_def buf_bytes_def)

lemma Decode_refines:
  assumes "decoder_inv d"
  shows "case scan (pending d) of
      None \<Rightarrow> Decode d = None
    | Some (r, rest) \<Rightarrow> \<exists>d'. Decode d = Some (Inr r, d') \<and> decoder_inv d' \<and> pending d' = rest
        \<and> bccIncludeStart d' = bccIncludeStart d \<and> timeCodec d' = timeCodec d"
  using assms
proof (induction d rule: Decode.induct)
  case (1 d)
  show ?case
  proof (cases "find_marker (pending d)")
    case None
    then show ?thesis
      using "1.prems"
      by (simp add: scan.simps [of "pending d"] Decode.simps [of d] decode_iter_refines)
  next
    case (Some s)
    let ?i = "limit d - length s"
    have lim: "limit d = length (buf_bytes d)" "pos d \<le> limit d"
      using "1.prems" by (auto simp: decoder_inv_def)
    have ls: "length s \<le> length (buf_bytes d) - pos d" "2 \<le> length s"
      using find_marker_length [OF Some] by (auto simp: pending_def)
    have s: "s = drop ?i (buf_bytes d)"
      using find_marker_suffix [OF Some] ls lim by (simp add: pending_def)
    have mv: "decoder_inv (d\<lparr>pos := ?i + k\<rparr>) \<and> pending (d\<lparr>pos := ?i + k\<rparr>) = drop k s"
      if "k \<le> length s" for k
    proof -
      have "drop k s = drop (?i + k) (buf_bytes d)"
        by (subst s) (simp add: add.commute)
      then show ?thesis using that ls lim by (simp add: decoder_inv_def pending_def)
    qed
    show ?thesis
    proof (cases "length s < 24 \<or> length s \<le> 24 + data_length s \<or> frame_ok s")
      case True
      then show ?thesis
        using Some mv [of 0] mv [of "25 + data_length s"] "1.prems"
        by (auto simp: scan.simps [of "pending d"] Decode.simps [of d] decode_iter_refines add.assoc)
    next
      case False
      let ?d = "d\<lparr>pos := ?i + 2\<rparr>"
      have it: "decode_iter d = Some (Continue ?d)"
        using False Some "1.prems" by (simp add: decode_iter_refines)
      have sc: "scan (pending d) = scan (drop 2 s)" and de: "Decode d = Decode ?d"
        using False Some by (simp_all add: scan.simps [of "pending d"] Decode.simps [of d] it)
      show ?thesis
        using "1.IH" [OF it refl] mv [of 2] ls by (simp add: sc de split: option.splits prod.splits)
    qed
  qed
qed

section \<open>Frames\<close>

text \<open>
  The wire image of a packet, and the packets that have one: a 17-byte VIN and a data unit
  whose length the two length bytes can hold.
\<close>

definition frame_body :: "Packet \<Rightarrow> bytes" where
  "frame_body p = [Command p, Response p] @ VIN p @ [EncryptType p] @ PutUint16 (Length p) @ Data p"

definition wire_frame :: "Packet \<Rightarrow> bytes" where
  "wire_frame p =
     [StartMarker1, StartMarker2] @ frame_body p @ [xor_loop 0 (frame_body p)]"

definition wf_packet :: "Packet \<Rightarrow> bool" where
  "wf_packet p \<longleftrightarrow> length (VIN p) = VINLength \<and> unat (Length p) = length (Data p)"

lemma length_wire_frame [simp]:
  "wf_packet p \<Longrightarrow> length (wire_frame p) = 25 + length (Data p)"
  by (simp add: wire_frame_def frame_body_def wf_packet_def)

lemma wire_frame_fields:
  assumes "wf_packet p"
  shows "data_length (wire_frame p @ r) = length (Data p)"
    and "frame_packet (wire_frame p @ r) = p"
    and "take (23 + length (Data p)) (drop 2 (wire_frame p @ r)) =
      frame_body p @ [xor_loop 0 (frame_body p)]"
proof -
  obtain v where v: "VIN p = v" "length v = 17" using assms by (simp add: wf_packet_def)
  let ?w = "wire_frame p @ r" and ?hi = "ucast (drop_bit 8 (Length p))" and ?lo = "ucast (Length p)"
  have w: "?w = ([0x23, 0x23, Command p, Response p] @ v) @ [EncryptType p, ?hi, ?lo]
      @ Data p @ xor_loop 0 (frame_body p) # r"
    by (simp add: wire_frame_def frame_body_def v PutUint16_def)
  have n: "?w ! 2 = Command p" "?w ! 3 = Response p" "?w ! 21 = EncryptType p"
    "?w ! 22 = ?hi" "?w ! 23 = ?lo"
    "take 17 (drop 4 ?w) = v" "drop 24 ?w = Data p @ xor_loop 0 (frame_body p) # r"
    unfolding w by (simp_all add: nth_append v(2))
  show "data_length ?w = length (Data p)"
    using assms by (simp only: data_length_def n be16_PutUint16 wf_packet_def)
  then show "frame_packet ?w = p"
    unfolding frame_packet_def n by (simp add: v(1) [symmetric])
  show "take (23 + length (Data p)) (drop 2 ?w) = frame_body p @ [xor_loop 0 (frame_body p)]"
  proof -
    have "length (frame_body p @ [xor_loop 0 (frame_body p)]) = 23 + length (Data p)"
      using assms by (simp add: frame_body_def wf_packet_def)
    moreover have "drop 2 ?w = (frame_body p @ [xor_loop 0 (frame_body p)]) @ r"
      by (simp add: wire_frame_def)
    ultimately show ?thesis by simp
  qed
qed

lemma find_marker_wire_frame [simp]: "find_marker (wire_frame p @ r) = Some (wire_frame p @ r)"
  by (simp add: wire_frame_def)

lemma frame_ok_wire_frame: "wf_packet p \<Longrightarrow> frame_ok (wire_frame p @ r)"
  unfolding frame_ok_def by (simp only: wire_frame_fields) (simp add: xor_loop_append)

lemma scan_wire_frame:
  assumes "wf_packet p"
  shows "scan (wire_frame p @ r) = Some (Some p, r)"
  using assms
  by (subst scan.simps) (simp add: wire_frame_fields frame_ok_wire_frame)

section \<open>Noise, fragments and streams\<close>

text \<open>
  A byte sequence is quiet if no start marker begins in it, even when a marker byte follows.
  Decoding skips a quiet prefix.
\<close>

definition quiet :: "bytes \<Rightarrow> bool" where
  "quiet xs \<longleftrightarrow> find_marker (xs @ [StartMarker1]) = None"

lemma find_marker_quiet:
  "quiet xs \<Longrightarrow> find_marker (xs @ StartMarker1 # ys) = find_marker (StartMarker1 # ys)"
  by (induction xs rule: find_marker.induct) (auto simp: quiet_def split: if_splits)

lemma scan_quiet: "quiet xs \<Longrightarrow> scan (xs @ StartMarker1 # ys) = scan (StartMarker1 # ys)"
  by (simp add: scan.simps [of "xs @ StartMarker1 # ys"] scan.simps [of "StartMarker1 # ys"]
      find_marker_quiet del: StartMarker1_def)

text \<open>What is read of a frame when the input ends inside it.\<close>

lemma data_length_take: "24 \<le> k \<Longrightarrow> data_length (take k s) = data_length s"
  by (simp add: data_length_def)

lemma find_marker_take_frame:
  "2 \<le> k \<Longrightarrow> find_marker (take k (wire_frame p)) = Some (take k (wire_frame p))"
  by (cases k; cases "k - 1") (auto simp: wire_frame_def)

lemma scan_take_frame:
  assumes "wf_packet p" and "2 \<le> k" and "k < 25 + length (Data p)"
  shows "scan (take k (wire_frame p)) =
    (if k = 24 + length (Data p) then None else Some (None, take k (wire_frame p)))"
proof -
  have dl: "24 \<le> k \<Longrightarrow> data_length (take k (wire_frame p)) = length (Data p)"
    using wire_frame_fields(1) [OF assms(1), of "[]"] by (simp add: data_length_take)
  show ?thesis
    using assms dl scan.simps [of "take k (wire_frame p)"]
    by (cases "k < 24 + length (Data p)"; cases "k < 24") (auto simp: find_marker_take_frame)
qed

lemma scan_take_1: "scan (take (Suc 0) (wire_frame p)) = Some (None, [])"
  by (subst scan.simps) (simp add: wire_frame_def)

text \<open>
  \<open>scan_all\<close> repeats \<open>scan\<close> until no packet is left, as the receive loop does between two
  reads.
\<close>

lemma scan_packet_less: "scan xs = Some (Some p, rest) \<Longrightarrow> length rest < length xs"
proof (induction xs rule: scan.induct)
  case (1 xs)
  show ?case
  proof (cases "find_marker xs")
    case None
    with "1.prems" show ?thesis by (subst (asm) scan.simps) simp
  next
    case (Some s)
    with "1.prems" "1.IH" [OF Some] find_marker_length [OF Some] show ?thesis
      by (subst (asm) scan.simps) (auto split: if_splits)
  qed
qed

function scan_all :: "bytes \<Rightarrow> (Packet list \<times> bytes) option" where
  "scan_all xs =
     (case scan xs of
        None \<Rightarrow> None
      | Some (None, rest) \<Rightarrow> Some ([], rest)
      | Some (Some p, rest) \<Rightarrow> map_option (apfst ((#) p)) (scan_all rest))"
  by pat_completeness auto
termination
  by (relation "measure length") (auto dest: scan_packet_less)

declare scan_all.simps [simp del]

lemma scan_all_frames:
  "list_all wf_packet ps \<Longrightarrow>
   scan_all (concat (map wire_frame ps) @ r) = map_option (apfst ((@) ps)) (scan_all r)"
proof (induction ps)
  case Nil
  show ?case by (simp add: apfst_def map_prod_def split_def option.map_ident)
next
  case (Cons p ps)
  then show ?case
    by (cases "scan_all r")
      (auto simp: scan_all.simps [of "wire_frame p @ _"] scan_wire_frame)
qed

text \<open>More input never changes what earlier input decoded to.\<close>

lemma find_marker_append: "find_marker xs = Some s \<Longrightarrow> find_marker (xs @ ys) = Some (s @ ys)"
  by (induction xs rule: find_marker.induct) (auto split: if_splits)

lemma find_marker_idem: "find_marker xs = Some s \<Longrightarrow> find_marker s = Some s"
  by (induction xs rule: find_marker.induct) (auto split: if_splits)

lemma frame_append:
  assumes "24 + data_length s < length s"
  shows "data_length (s @ ys) = data_length s" and "frame_ok (s @ ys) = frame_ok s"
    and "frame_packet (s @ ys) = frame_packet s"
proof -
  show 1: "data_length (s @ ys) = data_length s"
    using assms by (simp add: data_length_def nth_append)
  show "frame_ok (s @ ys) = frame_ok s" and "frame_packet (s @ ys) = frame_packet s"
    unfolding frame_ok_def frame_packet_def 1 using assms by (simp_all add: nth_append)
qed

lemma scan_append_packet:
  "scan xs = Some (Some p, rest) \<Longrightarrow> scan (xs @ ys) = Some (Some p, rest @ ys)"
proof (induction xs rule: scan.induct)
  case (1 xs)
  show ?case
  proof (cases "find_marker xs")
    case None
    with "1.prems" show ?thesis by (simp add: scan.simps [of xs])
  next
    case (Some s)
    then have fm: "find_marker (xs @ ys) = Some (s @ ys)" by (rule find_marker_append)
    from "1.prems" Some have l: "24 + data_length s < length s"
      by (auto simp: scan.simps [of xs] split: if_splits)
    show ?thesis
    proof (cases "frame_ok s")
      case True
      with "1.prems" Some fm l show ?thesis
        by (auto simp: scan.simps [of xs] scan.simps [of "xs @ ys"] frame_append)
    next
      case False
      then have "scan (drop 2 s @ ys) = Some (Some p, rest @ ys)"
        using "1.prems" "1.IH" [OF Some] Some l by (simp add: scan.simps [of xs])
      with False fm l show ?thesis by (simp add: scan.simps [of "xs @ ys"] frame_append)
    qed
  qed
qed

text \<open>
  When no packet is complete, reading on gives the same as reading on from the bytes that were
  kept; only a lone marker byte at the very end of the input is forgotten.
\<close>

lemma find_marker_None_append:
  "find_marker xs = None \<Longrightarrow> xs = [] \<or> last xs \<noteq> StartMarker1 \<Longrightarrow> find_marker (xs @ ys) = find_marker ys"
  by (induction xs rule: find_marker.induct) (auto split: if_splits, cases ys, auto)

lemma find_marker_last: "find_marker xs = Some s \<Longrightarrow> last s = last xs"
  by (induction xs rule: find_marker.induct) (auto split: if_splits)

lemma scan_append_wait:
  "scan xs = Some (None, rest) \<Longrightarrow> rest \<noteq> [] \<or> xs = [] \<or> last xs \<noteq> StartMarker1 \<Longrightarrow>
   scan (xs @ ys) = scan (rest @ ys)"
proof (induction xs rule: scan.induct)
  case (1 xs)
  show ?case
  proof (cases "find_marker xs")
    case None
    then have "rest = []" and "find_marker (xs @ ys) = find_marker ys"
      using "1.prems" by (auto simp: scan.simps [of xs] find_marker_None_append)
    then show ?thesis by (simp add: scan.simps [of "xs @ ys"] scan.simps [of ys])
  next
    case (Some s)
    then have fm: "find_marker (xs @ ys) = Some (s @ ys)" by (rule find_marker_append)
    show ?thesis
    proof (cases "length s < 24 \<or> length s < 24 + data_length s")
      case True
      then have "rest = s" using "1.prems" Some by (simp add: scan.simps [of xs])
      moreover have "find_marker (s @ ys) = Some (s @ ys)"
        by (intro find_marker_append find_marker_idem [OF Some])
      ultimately show ?thesis using fm by (simp add: scan.simps [of "xs @ ys"] scan.simps [of "s @ ys"])
    next
      case False
      then have l: "24 + data_length s < length s" and nok: "\<not> frame_ok s"
        and sc: "scan (drop 2 s) = Some (None, rest)"
        using "1.prems" Some by (auto simp: scan.simps [of xs] split: if_splits)
      have "last (drop 2 s) = last xs"
        using l find_marker_last [OF Some] by (simp add: last_drop)
      then have "scan (drop 2 s @ ys) = scan (rest @ ys)"
        using "1.IH" [OF Some] False nok l sc "1.prems"(2) find_marker_length [OF Some] by auto
      with fm l nok show ?thesis by (simp add: scan.simps [of "xs @ ys"] frame_append)
    qed
  qed
qed

lemma scan_rest_last:
  "scan xs = Some (Some p, rest) \<Longrightarrow> rest \<noteq> [] \<Longrightarrow> last rest = last xs"
proof (induction xs rule: scan.induct)
  case (1 xs)
  show ?case
  proof (cases "find_marker xs")
    case None
    with "1.prems" show ?thesis by (simp add: scan.simps [of xs])
  next
    case (Some s)
    then show ?thesis
      using "1.prems" "1.IH" [OF Some] find_marker_last [OF Some] find_marker_length [OF Some]
      by (auto simp: scan.simps [of xs] last_drop split: if_splits)
  qed
qed

lemma scan_all_append:
  "scan_all xs = Some (ps, rest) \<Longrightarrow> rest \<noteq> [] \<or> xs = [] \<or> last xs \<noteq> StartMarker1 \<Longrightarrow>
   scan_all (xs @ ys) = map_option (apfst ((@) ps)) (scan_all (rest @ ys))"
proof (induction xs arbitrary: ps rule: scan_all.induct)
  case (1 xs)
  show ?case
  proof (cases "scan xs")
    case None
    with "1.prems" show ?thesis by (simp add: scan_all.simps [of xs])
  next
    case (Some a)
    obtain r t where a: "a = (r, t)" by (cases a)
    show ?thesis
    proof (cases r)
      case None
      then have "ps = []" "t = rest" using "1.prems" Some a by (simp_all add: scan_all.simps [of xs])
      then show ?thesis
        using scan_append_wait [of xs rest ys] Some None a "1.prems"(2)
        by (simp add: scan_all.simps [of "xs @ ys"] scan_all.simps [of "rest @ ys"]
            apfst_def map_prod_def split_def option.map_ident)
    next
      case (Some p)
      then obtain qs where qs: "scan_all t = Some (qs, rest)" "ps = p # qs"
        using "1.prems" \<open>scan xs = Some a\<close> a by (auto simp: scan_all.simps [of xs])
      have sx: "scan xs = Some (Some p, t)" using \<open>scan xs = Some a\<close> a Some by simp
      have "rest \<noteq> [] \<or> t = [] \<or> last t \<noteq> StartMarker1"
        using "1.prems"(2) scan_rest_last [OF sx] scan_packet_less [OF sx] by auto
      then have "scan_all (t @ ys) = map_option (apfst ((@) qs)) (scan_all (rest @ ys))"
        using "1.IH" [OF sx refl] qs by blast
      then show ?thesis
        using scan_append_packet [OF sx, of ys] qs
        by (cases "scan_all (rest @ ys)") (auto simp: scan_all.simps [of "xs @ ys"])
    qed
  qed
qed

section \<open>The decoder as an interface\<close>

text \<open>A complete frame found by the decoder is the wire image of the packet it returns.\<close>

lemma frame_packet_wire_frame:
  assumes s: "s ! 0 = StartMarker1" "s ! 1 = StartMarker2"
    and len: "24 + data_length s < length s" and ok: "frame_ok s"
  shows "wf_packet (frame_packet s)" and "take (25 + data_length s) s = wire_frame (frame_packet s)"
proof -
  let ?n = "data_length s" and ?p = "frame_packet s"
  show wf: "wf_packet ?p"
    using len by (simp add: wf_packet_def frame_packet_def data_length_def)
  obtain h where h: "take 24 s = h" "length h = 24" using len by simp
  have "h = [s ! 0, s ! 1, s ! 2, s ! 3] @ take 17 (drop 4 s) @ [s ! 21, s ! 22, s ! 23]"
  proof -
    have "take 24 s = take 4 s @ take 17 (drop 4 s) @ take 3 (drop 21 s)"
      using take_add [of 4 20 s] take_add [of 17 3 "drop 4 s"] by simp
    moreover have "s \<noteq> []" using len by auto
    then have "take 4 s = [s ! 0, s ! 1, s ! 2, s ! 3]"
      using len by (simp add: take_Suc_conv_app_nth numeral_eq_Suc)
    moreover have "take 3 (drop 21 s) = [s ! 21, s ! 22, s ! 23]"
      using len by (simp add: take_Suc_conv_app_nth numeral_3_eq_3)
    ultimately show ?thesis using h by simp
  qed
  then have hdr: "take (24 + ?n) s = [StartMarker1, StartMarker2] @ frame_body ?p"
    using s h by (simp add: take_add frame_body_def frame_packet_def)
  then have "take (22 + ?n) (drop 2 s) = frame_body ?p"
    by (simp add: take_drop add.commute)
  moreover have "take (23 + ?n) (drop 2 s) = take (22 + ?n) (drop 2 s) @ [s ! (24 + ?n)]"
    using len take_Suc_conv_app_nth [of "22 + ?n" "drop 2 s"] by simp
  ultimately have "s ! (24 + ?n) = xor_loop 0 (frame_body ?p)"
    using ok by (simp add: frame_ok_def xor_loop_append xor_eq_0_iff)
  moreover have "take (25 + ?n) s = take (24 + ?n) s @ [s ! (24 + ?n)]"
    using len take_Suc_conv_app_nth [of "24 + ?n" s] by simp
  ultimately show "take (25 + ?n) s = wire_frame ?p"
    using hdr by (simp add: wire_frame_def)
qed

lemma scan_sound:
  "scan xs = Some (Some p, rest) \<Longrightarrow> wf_packet p \<and> (\<exists>pre. xs = pre @ wire_frame p @ rest)"
proof (induction xs rule: scan.induct)
  case (1 xs)
  show ?case
  proof (cases "find_marker xs")
    case None
    with "1.prems" show ?thesis by (simp add: scan.simps [of xs])
  next
    case (Some s)
    obtain pre where xs: "xs = pre @ s"
      using find_marker_suffix [OF Some] by (metis append_take_drop_id)
    have l: "24 + data_length s < length s"
      using "1.prems" Some by (auto simp: scan.simps [of xs] split: if_splits)
    show ?thesis
    proof (cases "frame_ok s")
      case True
      then have "p = frame_packet s" "rest = drop (25 + data_length s) s"
        using "1.prems" Some l by (auto simp: scan.simps [of xs])
      then show ?thesis
        using frame_packet_wire_frame [OF _ _ l True] find_marker_suffix [OF Some] xs
        by (metis append_take_drop_id)
    next
      case False
      then have sc: "scan (drop 2 s) = Some (Some p, rest)"
        using "1.prems" Some l by (simp add: scan.simps [of xs])
      with False "1.IH" [OF Some] l obtain pre' where "wf_packet p" "drop 2 s = pre' @ wire_frame p @ rest"
        by auto
      then show ?thesis using xs by (metis append.assoc append_take_drop_id)
    qed
  qed
qed

lemma scan_wait_bound:
  "scan xs = Some (None, rest) \<Longrightarrow> length rest < 24 + 65535"
proof (induction xs rule: scan.induct)
  case (1 xs)
  show ?case
  proof (cases "find_marker xs")
    case None
    with "1.prems" show ?thesis by (simp add: scan.simps [of xs])
  next
    case (Some s)
    have "data_length s < 65536"
      using unsigned_less [of "be16 (s ! 22) (s ! 23)"] by (simp add: data_length_def)
    then show ?thesis
      using "1.prems" "1.IH" [OF Some] Some by (auto simp: scan.simps [of xs] split: if_splits)
  qed
qed

text \<open>
  What the connection code may assume of a stream decoder: \<open>feed\<close> appends to the pending bytes,
  \<open>decode\<close> follows \<open>scan\<close>, and both keep the invariant.
\<close>

locale stream_decoder =
  fixes inv :: "'d \<Rightarrow> bool"
    and pend :: "'d \<Rightarrow> bytes"
    and feed :: "'d \<Rightarrow> bytes \<Rightarrow> 'd option"
    and decode :: "'d \<Rightarrow> ((go_error + Packet option) \<times> 'd) option"
  assumes feed_law: "inv d \<Longrightarrow> \<exists>d'. feed d xs = Some d' \<and> inv d' \<and> pend d' = pend d @ xs"
    and decode_law: "inv d \<Longrightarrow>
      (case scan (pend d) of
         None \<Rightarrow> decode d = None
       | Some (r, rest) \<Rightarrow> \<exists>d'. decode d = Some (Inr r, d') \<and> inv d' \<and> pend d' = rest)"
begin

lemma decode_Some:
  assumes "inv d" and "decode d = Some (r, d')"
  shows "\<exists>q. r = Inr q \<and> scan (pend d) = Some (q, pend d') \<and> inv d'"
  using decode_law [OF assms(1)] assms(2) by (auto split: option.splits)

lemma decode_scan:
  assumes "inv d" and "scan (pend d) = Some (q, rest)"
  shows "\<exists>d'. decode d = Some (Inr q, d') \<and> inv d' \<and> pend d' = rest"
  using decode_law [OF assms(1)] assms(2) by simp

lemma feed_decode:
  assumes "inv d" and "scan (pend d @ xs) = Some (q, rest)"
  shows "\<exists>d1 d2. feed d xs = Some d1 \<and> decode d1 = Some (Inr q, d2) \<and> inv d2 \<and> pend d2 = rest"
proof -
  obtain d1 where d1: "feed d xs = Some d1" "inv d1" "pend d1 = pend d @ xs"
    using feed_law [OF assms(1), of xs] by blast
  with decode_scan [OF d1(2)] assms(2) show ?thesis by auto
qed

lemma feed_decode_panic:
  assumes "inv d" and "scan (pend d @ xs) = None"
  shows "\<exists>d1. feed d xs = Some d1 \<and> decode d1 = None"
proof -
  obtain d1 where d1: "feed d xs = Some d1" "inv d1" "pend d1 = pend d @ xs"
    using feed_law [OF assms(1), of xs] by blast
  with decode_law [OF d1(2)] assms(2) show ?thesis by auto
qed

lemma noisy_frame:
  assumes "inv d" and "pend d = []" and "quiet noise" and "wf_packet p"
  shows "\<exists>d1 d2. feed d (noise @ wire_frame p @ rest) = Some d1 \<and>
    decode d1 = Some (Inr (Some p), d2) \<and> inv d2 \<and> pend d2 = rest"
proof (rule feed_decode [OF assms(1)])
  obtain ys where ys: "wire_frame p @ rest = StartMarker1 # ys"
    by (simp add: wire_frame_def)
  then show "scan (pend d @ noise @ wire_frame p @ rest) = Some (Some p, rest)"
    using scan_quiet [OF assms(3), of ys] scan_wire_frame [OF assms(4), of rest] assms(2) by simp
qed

lemma split_frame:
  assumes "inv d" and "pend d = []" and "wf_packet p"
    and k: "2 \<le> k" "k < 24 + length (Data p)"
  shows "\<exists>d1 d2 d3 d4. feed d (take k (wire_frame p)) = Some d1 \<and> decode d1 = Some (Inr None, d2) \<and>
    feed d2 (drop k (wire_frame p)) = Some d3 \<and> decode d3 = Some (Inr (Some p), d4) \<and>
    inv d4 \<and> pend d4 = []"
proof -
  have "scan (pend d @ take k (wire_frame p)) = Some (None, take k (wire_frame p))"
    using scan_take_frame [OF assms(3) k(1)] k assms(2) by simp
  from feed_decode [OF assms(1) this] obtain d1 d2 where
    d: "feed d (take k (wire_frame p)) = Some d1" "decode d1 = Some (Inr None, d2)" "inv d2"
      "pend d2 = take k (wire_frame p)" by blast
  have "scan (pend d2 @ drop k (wire_frame p)) = Some (Some p, [])"
    using d(4) scan_wire_frame [OF assms(3), of "[]"] by simp
  from feed_decode [OF d(3) this] d show ?thesis by blast
qed

end

lemma decoder_laws: "stream_decoder decoder_inv pending Feed Decode"
proof
  fix d xs
  assume "decoder_inv d"
  then show "\<exists>d'. Feed d xs = Some d' \<and> decoder_inv d' \<and> pending d' = pending d @ xs"
    using Feed_inv by blast
next
  fix d
  assume "decoder_inv d"
  then show "case scan (pending d) of
      None \<Rightarrow> Decode d = None
    | Some (r, rest) \<Rightarrow> \<exists>d'. Decode d = Some (Inr r, d') \<and> decoder_inv d' \<and> pending d' = rest"
    using Decode_refines [of d] by (auto split: option.splits)
qed

interpretation dec: stream_decoder decoder_inv pending Feed Decode
  by (rule decoder_laws)

end
