(* ===== verification/Framing_Props.thy ===== *)
theory Framing_Props
  imports Framing
begin

text \<open>
  The properties of the stream decoder and the frame encoder: round trips, resynchronisation
  after noise, fragmented and coalesced input, soundness, checksum strength, memory bounds,
  and the two fragmentations at which the decoder fails.
\<close>

section \<open>The encoder\<close>

text \<open>The packet that \<open>EncodeResponse\<close> puts on the wire.\<close>

definition response_packet :: "byte \<Rightarrow> gostring \<Rightarrow> byte \<Rightarrow> bytes \<Rightarrow> Packet" where
  "response_packet command vin encryptType data =
     \<lparr>Command = command, Response = RespSuccess, VIN = vin,
      EncryptType = (if encryptType = 0 then EncNone else encryptType),
      Data = data, Length = word_of_nat (length data)\<rparr>"

lemma Data_response_packet [simp]: "Data (response_packet command vin encryptType data) = data"
  by (simp add: response_packet_def)

lemma NewDecoder_ok [simp]: "decoder_inv NewDecoder" "pending NewDecoder = []"
  by (simp_all add: decoder_inv_def pending_def NewDecoder_def buf_bytes_def)

lemma EncodeResponse_wire_frame:
  "EncodeResponse command vin encryptType data =
     (if length vin \<noteq> VINLength then Inl ErrInvalidVIN
      else Inr (wire_frame (response_packet command vin encryptType data)))"
  by (simp add: EncodeResponse_def Let_def wire_frame_def frame_body_def response_packet_def
      calculateBCC_def xor_loop_append)

lemma unat_of_nat_uint16: "n < 65536 \<Longrightarrow> unat (word_of_nat n :: uint16) = n"
  by (simp add: unat_of_nat)

lemma wf_response_packet:
  "length vin = VINLength \<Longrightarrow> length data < 65536 \<Longrightarrow>
   wf_packet (response_packet command vin encryptType data)"
  by (simp add: wf_packet_def response_packet_def unat_of_nat_uint16)

text \<open>
  C1: a frame built by \<^verbatim>\<open>EncodeResponse\<close> from a data unit of at most 65535 bytes, fed to a
  decoder with no pending bytes, is decoded to exactly the packet that was encoded: same command,
  VIN and data unit, response flag 0xFE, encryption type 0 replaced by \<^verbatim>\<open>EncNone\<close>; nothing stays
  pending and no panic occurs.
\<close>

theorem EncodeResponse_Decode_roundtrip:
  assumes "EncodeResponse command vin encryptType data = Inr frame"
    and "length data < 65536" and "decoder_inv d" and "pending d = []"
  shows "\<exists>d1 d2. Feed d frame = Some d1 \<and>
    Decode d1 = Some (Inr (Some
      \<lparr>Command = command, Response = RespSuccess, VIN = vin,
       EncryptType = (if encryptType = 0 then EncNone else encryptType),
       Data = data, Length = word_of_nat (length data)\<rparr>), d2) \<and>
    decoder_inv d2 \<and> pending d2 = []"
proof -
  let ?p = "response_packet command vin encryptType data"
  have f: "frame = wire_frame ?p" and v: "length vin = VINLength"
    using assms(1) by (auto simp: EncodeResponse_wire_frame split: if_splits)
  have "quiet []" by (simp add: quiet_def)
  from dec.noisy_frame [OF assms(3,4) this wf_response_packet [OF v assms(2)], of _ _ "[]"]
  show ?thesis unfolding f by (simp add: response_packet_def)
qed

theorem EncodeResponse_Decode_roundtrip_witness:
  "\<exists>frame d1 d2. EncodeResponse 7 (replicate 17 65) 1 [1, 2, 3] = Inr frame \<and>
     Feed NewDecoder frame = Some d1 \<and>
     Decode d1 = Some (Inr (Some
       \<lparr>Command = 7, Response = 0xFE, VIN = replicate 17 65, EncryptType = 1,
        Data = [1, 2, 3], Length = 3\<rparr>), d2)"
proof -
  have e: "EncodeResponse 7 (replicate 17 65) 1 [1, 2, 3] =
      Inr (wire_frame (response_packet 7 (replicate 17 65) 1 [1, 2, 3]))"
    by (simp add: EncodeResponse_wire_frame)
  from EncodeResponse_Decode_roundtrip [OF e _ NewDecoder_ok] e show ?thesis by auto
qed

text \<open>
  The length field of an encoded frame is the length of the data unit modulo 65536; a longer
  data unit is announced with a truncated length although all its bytes are sent.
\<close>

theorem EncodeResponse_length_wraps:
  assumes "length vin = VINLength"
  shows "\<exists>frame. EncodeResponse command vin encryptType data = Inr frame \<and>
    length frame = 25 + length data \<and> data_length frame = length data mod 65536"
proof -
  let ?p = "response_packet command vin encryptType data"
  have len: "length (wire_frame ?p) = 25 + length data"
    using assms by (simp add: wire_frame_def frame_body_def response_packet_def)
  have "wire_frame ?p = ([0x23, 0x23, command, 0xFE] @ vin @ [EncryptType ?p])
      @ [ucast (drop_bit 8 (Length ?p)), ucast (Length ?p)] @ data
      @ [xor_loop 0 (frame_body ?p)]"
    by (simp add: wire_frame_def frame_body_def response_packet_def PutUint16_def)
  then have "data_length (wire_frame ?p) = unat (Length ?p)"
    using assms by (simp add: data_length_def nth_append)
  then show ?thesis
    using assms len by (simp add: EncodeResponse_wire_frame response_packet_def unat_of_nat)
qed

theorem EncodeResponse_length_wraps_witness:
  "\<exists>frame. EncodeResponse 7 (replicate 17 65) 1 (replicate 65537 0) = Inr frame \<and>
    data_length frame = 1"
  using EncodeResponse_length_wraps [of "replicate 17 65" 7 1 "replicate 65537 0"] by auto

text \<open>
  \<^verbatim>\<open>EncodeResponse\<close> fails, with \<^verbatim>\<open>ErrInvalidVIN\<close>, exactly when the VIN is not 17 bytes long.
\<close>

theorem EncodeResponse_error_iff:
  "EncodeResponse command vin encryptType data = Inl e \<longleftrightarrow> e = ErrInvalidVIN \<and> length vin \<noteq> 17"
  by (auto simp: EncodeResponse_wire_frame)

section \<open>The decoder\<close>

text \<open>A frame in which one byte after the marker, the length field excepted, was changed.\<close>

lemma xor_swap: "((a :: byte) XOR x) XOR z = ((a XOR y) XOR z) XOR (y XOR x)"
  by (rule bit_eqI) (auto simp: bit_simps)

lemma xor_eq_self_iff: "(a :: byte) XOR (b XOR c) = a \<longleftrightarrow> b = c"
  by (auto simp: bit_eq_iff bit_simps)

lemma xor_loop_update:
  "i < length xs \<Longrightarrow> xor_loop a (xs[i := x]) = xor_loop a xs XOR (xs ! i XOR x)"
proof (induction xs arbitrary: a i)
  case (Cons y ys)
  show ?case
  proof (cases i)
    case 0
    then show ?thesis
      using xor_loop_acc [of "a XOR x" ys] xor_loop_acc [of "a XOR y" ys] by (simp add: xor_swap)
  next
    case (Suc j)
    with Cons show ?thesis by simp
  qed
qed simp

lemma xor_loop_update_neq:
  "i < length xs \<Longrightarrow> x \<noteq> xs ! i \<Longrightarrow> xor_loop a (xs[i := x]) \<noteq> xor_loop a xs"
  by (auto simp: xor_loop_update xor_eq_self_iff)

definition damaged :: "Packet \<Rightarrow> nat \<Rightarrow> byte \<Rightarrow> bytes \<Rightarrow> bool" where
  "damaged p i x bad \<longleftrightarrow> wf_packet p \<and> 2 \<le> i \<and> i < length (wire_frame p) \<and> i \<noteq> 22 \<and> i \<noteq> 23 \<and>
     x \<noteq> wire_frame p ! i \<and> bad = (wire_frame p)[i := x]"

lemma scan_damaged:
  assumes "damaged p i x bad"
  shows "scan (bad @ r) = scan (drop 2 bad @ r)"
proof -
  let ?f = "frame_body p @ [xor_loop 0 (frame_body p)]"
  have d: "wf_packet p" "2 \<le> i" "i < 25 + length (Data p)" "i \<noteq> 22" "i \<noteq> 23" "x \<noteq> wire_frame p ! i"
    "bad = (wire_frame p)[i := x]"
    using assms by (auto simp: damaged_def)
  define j where "j = i - 2"
  then have i: "i = Suc (Suc j)" using d(2) by simp
  have l: "length (frame_body p) = 22 + length (Data p)" using d(1) by (simp add: frame_body_def wf_packet_def)
  have b: "bad = StartMarker1 # StartMarker2 # ?f[j := x]" "j < length ?f" "x \<noteq> ?f ! j"
    using d l by (simp_all add: i wire_frame_def)
  have "xor_loop 0 ?f = 0" by (simp add: xor_loop_append)
  then have x: "xor_loop 0 (?f[j := x]) \<noteq> 0" using xor_loop_update_neq [OF b(2,3), of 0] by simp
  have "(bad @ r) ! 22 = (wire_frame p @ r) ! 22" "(bad @ r) ! 23 = (wire_frame p @ r) ! 23"
    using d by (simp_all add: nth_append)
  then have n: "data_length (bad @ r) = length (Data p)"
    using wire_frame_fields(1) [OF d(1), of r] by (simp add: data_length_def)
  have "take (23 + length (Data p)) (drop 2 (bad @ r)) = ?f[j := x]" using l by (simp add: b(1))
  then have "\<not> frame_ok (bad @ r)" using x n by (simp add: frame_ok_def)
  moreover have "find_marker (bad @ r) = Some (bad @ r)" by (simp add: b(1))
  moreover have "length bad = 25 + length (Data p)" using d by simp
  ultimately show ?thesis by (simp add: scan.simps [of "bad @ r"] n)
qed

lemma scan_quiet_frame:
  assumes "quiet xs" "wf_packet p"
  shows "scan (xs @ wire_frame p @ r) = Some (Some p, r)"
proof -
  obtain ys where ys: "wire_frame p @ r = StartMarker1 # ys" by (simp add: wire_frame_def)
  then show ?thesis using scan_quiet [OF assms(1), of ys] scan_wire_frame [OF assms(2), of r] by simp
qed

text \<open>
  C16: the decoder finds the next frame. It skips bytes in which no start marker begins, and it skips
  a frame in which one byte was changed (not one of the marker or of the length field, so that its
  checksum is wrong) as long as no start marker begins in the rest of that frame; then it returns
  the packet of the next frame and keeps everything that follows it pending.
\<close>

theorem Decode_resynchronises:
  assumes "decoder_inv d" and "pending d = []" and "quiet noise" and "wf_packet p"
  shows "(\<exists>d1 d2. Feed d (noise @ wire_frame p @ rest) = Some d1 \<and>
      Decode d1 = Some (Inr (Some p), d2) \<and> decoder_inv d2 \<and> pending d2 = rest) \<and>
    (damaged q i x bad \<and> quiet (drop 2 bad) \<longrightarrow>
      (\<exists>d1 d2. Feed d (noise @ bad @ wire_frame p @ rest) = Some d1 \<and>
        Decode d1 = Some (Inr (Some p), d2) \<and> decoder_inv d2 \<and> pending d2 = rest))"
proof (intro conjI impI)
  show "\<exists>d1 d2. Feed d (noise @ wire_frame p @ rest) = Some d1 \<and>
      Decode d1 = Some (Inr (Some p), d2) \<and> decoder_inv d2 \<and> pending d2 = rest"
    using assms by (rule dec.noisy_frame)
  assume bad: "damaged q i x bad \<and> quiet (drop 2 bad)"
  then have "\<exists>ys. bad @ wire_frame p @ rest = StartMarker1 # ys"
    by (cases i; cases "i - 1") (auto simp: damaged_def wire_frame_def)
  then have "scan (noise @ bad @ wire_frame p @ rest) = scan (bad @ wire_frame p @ rest)"
    using scan_quiet [OF assms(3)] by metis
  also have "\<dots> = Some (Some p, rest)"
    using scan_damaged [of q i x bad] scan_quiet_frame [of "drop 2 bad" p rest] bad assms(4) by simp
  finally show "\<exists>d1 d2. Feed d (noise @ bad @ wire_frame p @ rest) = Some d1 \<and>
      Decode d1 = Some (Inr (Some p), d2) \<and> decoder_inv d2 \<and> pending d2 = rest"
    using assms(1,2) by (intro dec.feed_decode) simp_all
qed

text \<open>Noise, a frame whose checksum was changed, and a frame.\<close>

theorem Decode_resynchronises_witness:
  "\<exists>d1 d2. Feed NewDecoder ([0, 0x23, 7] @ (wire_frame (response_packet 8 (replicate 17 65) 1 [5]))[25 := 0]
       @ wire_frame (response_packet 7 (replicate 17 65) 1 []) @ [9])
      = Some d1 \<and> Decode d1 = Some (Inr (Some (response_packet 7 (replicate 17 65) 1 [])), d2) \<and>
     pending d2 = [9]"
proof -
  let ?q = "response_packet 8 (replicate 17 65) 1 [5]" let ?bad = "(wire_frame ?q)[25 := 0]"
  have "wf_packet ?q" by (simp add: wf_response_packet)
  moreover have "wire_frame ?q ! 25 \<noteq> 0" by code_simp
  ultimately have "damaged ?q 25 0 ?bad" by (simp add: damaged_def)
  moreover have "quiet [0, 0x23, 7]" by (simp add: quiet_def)
  moreover have "quiet (drop 2 ?bad)" by code_simp
  ultimately show ?thesis
    using Decode_resynchronises [OF NewDecoder_ok, of "[0, 0x23, 7]" "response_packet 7 (replicate 17 65) 1 []" "[9]" ?q 25 0 ?bad]
    by (auto simp: wf_response_packet)
qed

text \<open>
  C15: soundness. Whatever the input, a packet returned by \<^verbatim>\<open>Decode\<close> is well formed and its wire
  image, checksum included, is a contiguous part of the pending bytes, followed by exactly the
  bytes that stay pending; and \<^verbatim>\<open>Decode\<close> never returns an error.
\<close>

theorem Decode_sound:
  assumes "decoder_inv d" and "Decode d = Some (r, d')"
  shows "\<exists>q. r = Inr q \<and> decoder_inv d' \<and>
    (case q of None \<Rightarrow> True
     | Some p \<Rightarrow> wf_packet p \<and> (\<exists>pre. pending d = pre @ wire_frame p @ pending d'))"
  using dec.decode_Some [OF assms] by (auto dest: scan_sound split: option.splits)

text \<open>The packet in a buffer with noise before it and another byte after it.\<close>

theorem Decode_sound_witness:
  "\<exists>d1 d2 p pre. Feed NewDecoder ([0, 7] @ wire_frame (response_packet 7 (replicate 17 65) 1 [5]) @ [9]) = Some d1 \<and>
    Decode d1 = Some (Inr (Some p), d2) \<and> wf_packet p \<and> pending d1 = pre @ wire_frame p @ [9]"
proof -
  let ?p = "response_packet 7 (replicate 17 65) 1 [5]"
  have "quiet [0, 7]" "wf_packet ?p" by (simp_all add: quiet_def wf_response_packet)
  from dec.noisy_frame [OF NewDecoder_ok this, of "[9]"] obtain d1 d2 where
    d: "Feed NewDecoder ([0, 7] @ wire_frame ?p @ [9]) = Some d1" "Decode d1 = Some (Inr (Some ?p), d2)" "pending d2 = [9]"
    by blast
  moreover have "decoder_inv d1" using dec.feed_law [OF NewDecoder_ok(1)] d(1) by (metis option.inject)
  from Decode_sound [OF this d(2)] d(3) have "wf_packet ?p \<and> (\<exists>pre. pending d1 = pre @ wire_frame ?p @ [9])" by auto
  ultimately show ?thesis by blast
qed

text \<open>
  A frame that arrives in two reads, cut anywhere from after its start marker up to
  before the last byte of its data unit, is decoded after the second read; the first read returns
  no packet.
\<close>

theorem Decode_fragmented:
  assumes "decoder_inv d" and "pending d = []" and "wf_packet p"
    and "2 \<le> k" and "k < 24 + length (Data p)"
  shows "\<exists>d1 d2 d3 d4. Feed d (take k (wire_frame p)) = Some d1 \<and> Decode d1 = Some (Inr None, d2) \<and>
    Feed d2 (drop k (wire_frame p)) = Some d3 \<and> Decode d3 = Some (Inr (Some p), d4) \<and>
    decoder_inv d4 \<and> pending d4 = []"
  using assms by (rule dec.split_frame)

theorem Decode_fragmented_witness:
  "\<exists>d1 d2 d3 d4. Feed NewDecoder (take 13 (wire_frame (response_packet 7 (replicate 17 65) 1 [5]))) = Some d1 \<and>
    Decode d1 = Some (Inr None, d2) \<and>
    Feed d2 (drop 13 (wire_frame (response_packet 7 (replicate 17 65) 1 [5]))) = Some d3 \<and>
    Decode d3 = Some (Inr (Some (response_packet 7 (replicate 17 65) 1 [5])), d4) \<and>
    decoder_inv d4 \<and> pending d4 = []"
  by (rule Decode_fragmented)
    (simp_all add: wf_response_packet)

text \<open>
  C31: a frame cut just before its checksum byte makes \<^verbatim>\<open>Decode\<close> panic: the length check does not
  count that byte, so the read of \<^verbatim>\<open>d.buf[d.pos]\<close> is out of range.
\<close>

theorem Decode_panics_before_checksum:
  assumes "decoder_inv d" and "pending d = []" and "wf_packet p"
  shows "\<exists>d1. Feed d (take (24 + length (Data p)) (wire_frame p)) = Some d1 \<and> Decode d1 = None"
  by (rule dec.feed_decode_panic) (simp_all add: assms scan_take_frame)

theorem Decode_panics_before_checksum_witness:
  "\<exists>d1. Feed NewDecoder (take 24 (wire_frame (response_packet 7 (replicate 17 65) 1 []))) = Some d1 \<and>
    Decode d1 = None"
proof -
  from Decode_panics_before_checksum [OF NewDecoder_ok wf_response_packet, of "replicate 17 65" "[]" 7 1]
  show ?thesis by (simp add: response_packet_def)
qed

lemma quiet_find_marker: "quiet xs \<Longrightarrow> find_marker xs = None"
  by (metis find_marker_append not_None_eq quiet_def)

text \<open>
  C32: a frame cut between the two bytes of its start marker is lost: the first byte is
  discarded with the buffer and the rest of a frame that contains no other marker yields nothing.
\<close>

theorem Decode_loses_split_marker:
  assumes "decoder_inv d" and "pending d = []" and "quiet (tl (wire_frame p))"
  shows "\<exists>d1 d2 d3 d4. Feed d (take 1 (wire_frame p)) = Some d1 \<and> Decode d1 = Some (Inr None, d2) \<and>
    Feed d2 (drop 1 (wire_frame p)) = Some d3 \<and> Decode d3 = Some (Inr None, d4) \<and> pending d4 = []"
proof -
  have "scan (pending d @ take 1 (wire_frame p)) = Some (None, [])"
    using scan_take_1 [of p] assms(2) by simp
  from dec.feed_decode [OF assms(1) this] obtain d1 d2 where
    d: "Feed d (take 1 (wire_frame p)) = Some d1" "Decode d1 = Some (Inr None, d2)"
      "decoder_inv d2" "pending d2 = []" by blast
  have "find_marker (tl (wire_frame p)) = None"
    using assms(3) by (rule quiet_find_marker)
  then have "scan (pending d2 @ drop 1 (wire_frame p)) = Some (None, [])"
    using d(4) by (simp add: scan.simps [of "tl (wire_frame p)"] drop_Suc)
  from dec.feed_decode [OF d(3) this] d show ?thesis by blast
qed

theorem Decode_loses_split_marker_witness:
  "\<exists>d1 d2 d3 d4. Feed NewDecoder (take 1 (wire_frame (response_packet 7 (replicate 17 65) 1 []))) = Some d1 \<and>
    Decode d1 = Some (Inr None, d2) \<and>
    Feed d2 (drop 1 (wire_frame (response_packet 7 (replicate 17 65) 1 []))) = Some d3 \<and>
    Decode d3 = Some (Inr None, d4) \<and> pending d4 = []"
  by (rule Decode_loses_split_marker) (simp_all, code_simp)

text \<open>
  C33: the bytes a decoder holds back are bounded: when \<^verbatim>\<open>Decode\<close> returns no packet, fewer than
  24 + 65535 bytes stay pending, however much was fed.
\<close>

theorem Decode_pending_bounded:
  assumes "decoder_inv d" and "Decode d = Some (Inr None, d')"
  shows "length (pending d') < 24 + 65535"
  using dec.decode_Some [OF assms] by (auto dest: scan_wait_bound)

text \<open>The first 13 bytes of a frame are held back.\<close>

theorem Decode_pending_bounded_witness:
  "\<exists>d1 d2. Feed NewDecoder (take 13 (wire_frame (response_packet 7 (replicate 17 65) 1 [5]))) = Some d1 \<and>
    Decode d1 = Some (Inr None, d2) \<and> length (pending d2) = 13 \<and> length (pending d2) < 24 + 65535"
proof -
  let ?p = "response_packet 7 (replicate 17 65) 1 [5]"
  have p: "wf_packet ?p" by (simp add: wf_response_packet)
  then have "scan (pending NewDecoder @ take 13 (wire_frame ?p)) = Some (None, take 13 (wire_frame ?p))"
    using scan_take_frame [OF p, of 13] by simp
  from dec.feed_decode [OF NewDecoder_ok(1) this] obtain d1 d2 where
    d: "Feed NewDecoder (take 13 (wire_frame ?p)) = Some d1" "Decode d1 = Some (Inr None, d2)" "pending d2 = take 13 (wire_frame ?p)"
    by blast
  have "decoder_inv d1" using dec.feed_law [OF NewDecoder_ok(1)] d(1) by (metis option.inject)
  from Decode_pending_bounded [OF this d(2)] d p show ?thesis by (intro exI [of _ d1] exI [of _ d2]) simp
qed

section \<open>The checksum\<close>

lemma verifyBCC_eq:
  assumes "h ! 0 = h ! 1" and "2 \<le> length h"
  shows "verifyBCC d h data c = Some (xor_loop 0 (drop 2 h @ data) = c)"
proof -
  obtain x y r where h: "h = x # y # r" using assms(2) by (cases h; cases "tl h") auto
  then have "xor_loop 0 h = xor_loop 0 r" using assms(1) by simp
  then show ?thesis
    by (auto simp: verifyBCC_def calculateBCC_def slice_def h xor_loop_append Let_def)
qed

text \<open>
  The compatibility switch \<^verbatim>\<open>bccIncludeStart\<close> has no effect: on a header whose two start
  bytes are equal (as both marker bytes are) the two checksums are the same, so the same frames
  verify with and without it.
\<close>

theorem verifyBCC_mode_irrelevant:
  assumes "length h = HeaderSize" and "h ! 0 = StartMarker1" and "h ! 1 = StartMarker2"
  shows "verifyBCC (newDecoderWithConfig tc True) h data c =
    verifyBCC (newDecoderWithConfig tc' False) h data c"
  using assms verifyBCC_eq [of h] by simp

theorem verifyBCC_mode_irrelevant_witness:
  "verifyBCC (newDecoderWithConfig TimeCodecBCD True) (0x23 # 0x23 # replicate 22 1) [2] 2 =
    verifyBCC (newDecoderWithConfig TimeCodecBCD False) (0x23 # 0x23 # replicate 22 1) [2] 2"
  by (rule verifyBCC_mode_irrelevant) simp_all

text \<open>
  The checksum detects a change of a single byte as long as the frame is cut at the same places: if a
  header, data unit and checksum verify, then changing any one header byte after the start marker, any one byte of the data unit,
  or the checksum byte makes verification fail, in both modes.
\<close>

theorem verifyBCC_detects_single_byte:
  assumes h: "length h = HeaderSize" "h ! 0 = StartMarker1" "h ! 1 = StartMarker2"
    and ok: "verifyBCC d h data c = Some True"
  shows "(\<forall>i x. 2 \<le> i \<and> i < HeaderSize \<and> x \<noteq> h ! i \<longrightarrow> verifyBCC d (h[i := x]) data c = Some False) \<and>
    (\<forall>i x. i < length data \<and> x \<noteq> data ! i \<longrightarrow> verifyBCC d h (data[i := x]) c = Some False) \<and>
    (\<forall>x. x \<noteq> c \<longrightarrow> verifyBCC d h data x = Some False)"
proof -
  have h01: "h ! 0 = h ! 1" and l: "2 \<le> length h" using h by simp_all
  have c: "xor_loop 0 (drop 2 h @ data) = c" using ok verifyBCC_eq [OF h01 l] by simp
  have "verifyBCC d (h[i := x]) data c = Some False" if "2 \<le> i" "i < HeaderSize" "x \<noteq> h ! i" for i x
  proof -
    obtain a b r where hr: "h = a # b # r" using l by (cases h; cases "tl h") auto
    define j where "j = i - 2"
    then have j: "i = Suc (Suc j)" using that(1) by simp
    have "a = b" and r: "j < length r" "x \<noteq> r ! j" using that h h01 hr j by auto
    then have "verifyBCC d (h[i := x]) data c = Some (xor_loop 0 ((r @ data)[j := x]) = c)"
      using verifyBCC_eq [of "a # b # r[j := x]"] by (simp add: hr j list_update_append)
    then show ?thesis
      using xor_loop_update_neq [of j "r @ data" x 0] r c hr by (simp add: nth_append)
  qed
  moreover have "verifyBCC d h (data[i := x]) c = Some False" if "i < length data" "x \<noteq> data ! i" for i x
  proof -
    have "drop 2 h @ data[i := x] = (drop 2 h @ data)[length (drop 2 h) + i := x]"
      by (simp add: list_update_append)
    then show ?thesis
      using xor_loop_update_neq [of "length (drop 2 h) + i" "drop 2 h @ data" x 0] that c
        verifyBCC_eq [OF h01 l] by (simp add: nth_append)
  qed
  moreover have "verifyBCC d h data x = Some False" if "x \<noteq> c" for x
    using that c verifyBCC_eq [OF h01 l] by auto
  ultimately show ?thesis by blast
qed

theorem verifyBCC_detects_single_byte_witness:
  "verifyBCC NewDecoder (0x23 # 0x23 # replicate 22 1) [2] 2 = Some True \<and>
   verifyBCC NewDecoder (0x23 # 0x23 # replicate 22 1) [2] 3 = Some False"
proof -
  have ok: "verifyBCC NewDecoder (0x23 # 0x23 # replicate 22 1) [2] 2 = Some True"
    by code_simp
  from verifyBCC_detects_single_byte [OF _ _ _ ok] ok show ?thesis by simp
qed

text \<open>
  C34: a damaged frame is never accepted as it stands. When one byte of a frame was changed, other than
  one of the marker or of the length field, the decoder steps over its marker: it returns and
  keeps exactly what it would if the stream began two bytes later. (A changed length moves the place
  where the checksum is looked for, and a changed marker hides the frame; neither is covered.)
\<close>

theorem Decode_steps_over_damaged:
  assumes "decoder_inv d" and "pending d = []" and "damaged p i x bad"
  shows "\<exists>d1 e1. Feed d (bad @ rest) = Some d1 \<and> Feed d (drop 2 bad @ rest) = Some e1 \<and>
    (case Decode e1 of
       None \<Rightarrow> Decode d1 = None
     | Some (r, e2) \<Rightarrow> \<exists>d2. Decode d1 = Some (r, d2) \<and> pending d2 = pending e2)"
proof -
  obtain d1 e1 where d: "Feed d (bad @ rest) = Some d1" "decoder_inv d1" "pending d1 = bad @ rest"
      "Feed d (drop 2 bad @ rest) = Some e1" "decoder_inv e1" "pending e1 = drop 2 bad @ rest"
    using dec.feed_law [OF assms(1), of "bad @ rest"] dec.feed_law [OF assms(1), of "drop 2 bad @ rest"] assms(2) by auto
  have "scan (pending d1) = scan (pending e1)" using scan_damaged [OF assms(3)] d(3,6) by simp
  then show ?thesis
    using dec.decode_law [OF d(2)] dec.decode_law [OF d(5)] d(1,4)
    by (cases "scan (pending e1)") fastforce+
qed

text \<open>A frame with a changed command, alone: no packet is returned.\<close>

theorem Decode_steps_over_damaged_witness:
  "\<exists>d1 d2. Feed NewDecoder ((wire_frame (response_packet 7 (replicate 17 65) 1 [5]))[2 := 8]) = Some d1 \<and>
    Decode d1 = Some (Inr None, d2)"
proof -
  let ?p = "response_packet 7 (replicate 17 65) 1 [5]" let ?bad = "(wire_frame ?p)[2 := 8]"
  have "wf_packet ?p" by (simp add: wf_response_packet)
  moreover have "wire_frame ?p ! 2 \<noteq> 8" by code_simp
  ultimately have "damaged ?p 2 8 ?bad" by (simp add: damaged_def)
  from Decode_steps_over_damaged [OF NewDecoder_ok this, of "[]"] obtain d1 e1 where
    1: "Feed NewDecoder ?bad = Some d1" "Feed NewDecoder (drop 2 ?bad) = Some e1"
      "case Decode e1 of None \<Rightarrow> Decode d1 = None | Some (r, e2) \<Rightarrow> \<exists>d2. Decode d1 = Some (r, d2) \<and> pending d2 = pending e2"
    by auto
  have "find_marker (drop 2 ?bad) = None" by code_simp
  then have "scan (pending NewDecoder @ drop 2 ?bad) = Some (None, [])" by (simp add: scan.simps [of "drop 2 ?bad"])
  from dec.feed_decode [OF NewDecoder_ok(1) this] 1 show ?thesis by auto
qed

text \<open>
  C12: the decoder refines the scan of a byte list. With \<open>pending d\<close> the bytes fed and not yet used,
  \<^verbatim>\<open>Feed\<close> appends, and \<^verbatim>\<open>Decode\<close> does to the pending bytes what \<open>scan\<close> does: it returns the packet
  that \<open>scan\<close> finds, keeps the bytes that \<open>scan\<close> leaves, never returns an error, and panics
  exactly where \<open>scan\<close> has no result. The invariant of buffer and cursor is kept.
\<close>

theorem Decode_refines_scan:
  assumes "decoder_inv d"
  shows "(\<exists>d'. Feed d data = Some d' \<and> decoder_inv d' \<and> pending d' = pending d @ data) \<and>
    (case scan (pending d) of
       None \<Rightarrow> Decode d = None
     | Some (p, rest) \<Rightarrow> \<exists>d'. Decode d = Some (Inr p, d') \<and> decoder_inv d' \<and> pending d' = rest)"
  using dec.feed_law [OF assms, of data] dec.decode_law [OF assms] dec.decode_scan [OF assms]
  by (fastforce split: option.splits)

theorem Decode_refines_scan_witness:
  "\<exists>d d'. Feed NewDecoder (wire_frame (response_packet 7 (replicate 17 65) 1 [5]) @ [9]) = Some d \<and>
    Decode d = Some (Inr (Some (response_packet 7 (replicate 17 65) 1 [5])), d') \<and> pending d' = [9]"
proof -
  let ?p = "response_packet 7 (replicate 17 65) 1 [5]"
  obtain d where d: "Feed NewDecoder (wire_frame ?p @ [9]) = Some d" "decoder_inv d" "pending d = wire_frame ?p @ [9]"
    using Decode_refines_scan [OF NewDecoder_ok(1), of "wire_frame ?p @ [9]"] NewDecoder_ok(2) by auto
  with Decode_refines_scan [OF d(2), of "[]"] scan_wire_frame [of ?p "[9]"] show ?thesis
    by (auto simp: wf_response_packet)
qed

end
