(* ===== verification/GoTime.thy ===== *)
theory GoTime
  imports Framing "HOL-Library.Signed_Division"
begin

text \<open>
  Time stamps: what the SDK uses of Go's \<^verbatim>\<open>time.Time\<close> (the civil calendar, \<^verbatim>\<open>time.Date\<close> with its
  normalisation of out-of-range fields, the accessors, \<^verbatim>\<open>IsZero\<close>), and the six-byte time codecs
  of \<^verbatim>\<open>decoder.go\<close>.
  A time is an instant (seconds since the start of year 1 UTC, and nanoseconds) together with the
  offset its location has from UTC at that instant; the accessors read the local civil time.
\<close>

section \<open>The civil calendar\<close>

record Time =
  tsec :: int
  tnsec :: int
  toff :: int

definition leap :: "int \<Rightarrow> bool" where
  "leap y \<longleftrightarrow> y mod 4 = 0 \<and> (y mod 100 \<noteq> 0 \<or> y mod 400 = 0)"

definition month_lengths :: "int \<Rightarrow> int list" where
  "month_lengths y = [31, if leap y then 29 else 28, 31, 30, 31, 30, 31, 31, 30, 31, 30, 31]"

definition year_length :: "int \<Rightarrow> int" where
  "year_length y = (if leap y then 366 else 365)"

text \<open>Days from the first of January of year 1 to the first of January of year \<open>y\<close>.\<close>

definition days_before_year :: "int \<Rightarrow> int" where
  "days_before_year y = (let z = y - 1 in 365 * z + z div 4 - z div 100 + z div 400)"

definition days_of_civil :: "int \<Rightarrow> int \<Rightarrow> int \<Rightarrow> int" where
  "days_of_civil y m d =
     days_before_year y + sum_list (take (nat (m - 1)) (month_lengths y)) + (d - 1)"

definition year_yday :: "int \<Rightarrow> int \<times> int" where
  "year_yday n =
     (let n400 = n div 146097; r = n mod 146097;
          n100 = min 3 (r div 36524); r = r - 36524 * n100;
          n4 = r div 1461; r = r mod 1461;
          n1 = min 3 (r div 365)
      in (400 * n400 + 100 * n100 + 4 * n4 + n1 + 1, r - 365 * n1))"

fun month_day :: "int \<Rightarrow> int list \<Rightarrow> int \<Rightarrow> int \<times> int" where
  "month_day m [] yd = (m, yd + 1)"
| "month_day m (l # ls) yd = (if yd < l then (m, yd + 1) else month_day (m + 1) ls (yd - l))"

definition civil_of_days :: "int \<Rightarrow> int \<times> int \<times> int" where
  "civil_of_days n =
     (let (y, yd) = year_yday n; (m, d) = month_day 1 (month_lengths y) yd in (y, m, d))"

section \<open>What the SDK uses of package time\<close>

text \<open>\<^verbatim>\<open>time.Date(year, month, day, hour, min, sec, 0, time.UTC)\<close>: the month overflows into the year, everything else into the instant.\<close>

definition Date :: "int \<Rightarrow> int \<Rightarrow> int \<Rightarrow> int \<Rightarrow> int \<Rightarrow> int \<Rightarrow> Time" where
  "Date year month day hour minute sec =
     (let y = year + (month - 1) div 12; m = (month - 1) mod 12 + 1
      in \<lparr>tsec = 86400 * days_of_civil y m day + 3600 * hour + 60 * minute + sec,
          tnsec = 0, toff = 0\<rparr>)"

definition local_days :: "Time \<Rightarrow> int" where
  "local_days t = (tsec t + toff t) div 86400"

definition local_secs :: "Time \<Rightarrow> int" where
  "local_secs t = (tsec t + toff t) mod 86400"

definition Year :: "Time \<Rightarrow> int" where
  "Year t = fst (civil_of_days (local_days t))"

definition Month :: "Time \<Rightarrow> int" where
  "Month t = fst (snd (civil_of_days (local_days t)))"

definition Day :: "Time \<Rightarrow> int" where
  "Day t = snd (snd (civil_of_days (local_days t)))"

definition Hour :: "Time \<Rightarrow> int" where
  "Hour t = local_secs t div 3600"

definition Minute :: "Time \<Rightarrow> int" where
  "Minute t = local_secs t mod 3600 div 60"

definition Second :: "Time \<Rightarrow> int" where
  "Second t = local_secs t mod 60"

definition IsZero :: "Time \<Rightarrow> bool" where
  "IsZero t \<longleftrightarrow> tsec t = 0 \<and> tnsec t = 0"

definition in_UTC :: "Time \<Rightarrow> Time" where
  "in_UTC t = t\<lparr>toff := 0\<rparr>"

section \<open>The six-byte time codecs of decoder.go\<close>

definition parseBinaryTime6 :: "bytes \<Rightarrow> Time option" where
  "parseBinaryTime6 b = do {
     b0 \<leftarrow> idx b 0; b1 \<leftarrow> idx b 1; b2 \<leftarrow> idx b 2; b3 \<leftarrow> idx b 3; b4 \<leftarrow> idx b 4; b5 \<leftarrow> idx b 5;
     Some (Date (2000 + uint b0) (uint b1) (uint b2) (uint b3) (uint b4) (uint b5))
   }"

text \<open>\<^verbatim>\<open>parseTime6\<close> forwards to the binary parser.\<close>

definition parseTime6 :: "bytes \<Rightarrow> Time option" where
  "parseTime6 b = parseBinaryTime6 b"

definition bcd_value :: "byte \<Rightarrow> int" where
  "bcd_value b = uint (drop_bit 4 b) * 10 + uint (b AND 0x0F)"

definition parseBCDTime6 :: "bytes \<Rightarrow> Time option" where
  "parseBCDTime6 b = do {
     b0 \<leftarrow> idx b 0; b1 \<leftarrow> idx b 1; b2 \<leftarrow> idx b 2; b3 \<leftarrow> idx b 3; b4 \<leftarrow> idx b 4; b5 \<leftarrow> idx b 5;
     Some (Date (2000 + bcd_value b0) (bcd_value b1) (bcd_value b2)
             (bcd_value b3) (bcd_value b4) (bcd_value b5))
   }"

definition decodeTime6 :: "Decoder \<Rightarrow> bytes \<Rightarrow> Time option" where
  "decodeTime6 d b =
     (if timeCodec d = TimeCodecBinary then parseBinaryTime6 b else parseBCDTime6 b)"

definition encodeBinaryTime6 :: "Time \<Rightarrow> bytes" where
  "encodeBinaryTime6 t =
     [word_of_int (Year t smod 100), word_of_int (Month t), word_of_int (Day t),
      word_of_int (Hour t), word_of_int (Minute t), word_of_int (Second t)]"

text \<open>\<^verbatim>\<open>byte((n/10)<<4 | (n % 10))\<close>, with Go's truncated division.\<close>

definition bcd_byte :: "int \<Rightarrow> byte" where
  "bcd_byte n = word_of_int (push_bit 4 (n sdiv 10) OR (n smod 10))"

definition encodeBCDTime :: "Time \<Rightarrow> bytes" where
  "encodeBCDTime t =
     (let y = Year t - 2000 in
      [bcd_byte y, bcd_byte (Month t), bcd_byte (Day t),
       bcd_byte (Hour t), bcd_byte (Minute t), bcd_byte (Second t)])"

definition encodeTime6 :: "Time \<Rightarrow> bytes" where
  "encodeTime6 t = encodeBCDTime t"

section \<open>Calendar lemmas\<close>

lemma div_pred:
  assumes "0 < (k :: int)"
  shows "y div k = (y - 1) div k + (if y mod k = 0 then 1 else 0)"
proof -
  have y: "y = k * (y div k) + y mod k" "0 \<le> y mod k" "y mod k < k" using assms by simp_all
  show ?thesis
  proof (cases "y mod k = 0")
    case True
    have "(y - 1) div k = y div k - 1"
      using assms y True by (intro int_div_pos_eq [where r = "k - 1"]) (simp_all add: algebra_simps)
    with True show ?thesis by simp
  next
    case False
    have "(y - 1) div k = y div k"
      using y False by (intro int_div_pos_eq [where r = "y mod k - 1"]) simp_all
    with False show ?thesis by simp
  qed
qed

lemma mod_succ_0_iff:
  assumes "0 < (k :: int)"
  shows "(z + 1) mod k = 0 \<longleftrightarrow> z mod k = k - 1"
proof -
  have z: "z = k * (z div k) + z mod k" "0 \<le> z mod k" "z mod k < k" using assms by simp_all
  show ?thesis
  proof (cases "z mod k = k - 1")
    case True
    have "(z + 1) mod k = 0"
      using assms z True by (intro int_mod_pos_eq [where q = "z div k + 1"]) (simp_all add: algebra_simps)
    with True show ?thesis by simp
  next
    case False
    have "(z + 1) mod k = z mod k + 1"
      using z False by (intro int_mod_pos_eq [where q = "z div k"]) simp_all
    with False z show ?thesis by simp
  qed
qed

lemma leap_count:
  "Q \<longrightarrow> P \<Longrightarrow> R \<longrightarrow> Q \<Longrightarrow>
   (if P \<and> (\<not> Q \<or> R) then 366 else 365) =
     365 + (if P then 1 else 0) - (if Q then 1 else 0) + (if R then 1 else (0 :: int))"
  by (cases P; cases Q; cases R) simp_all

lemma days_before_year_next: "days_before_year (y + 1) = days_before_year y + year_length y"
proof -
  have d: "y div 4 = (y - 1) div 4 + (if y mod 4 = 0 then 1 else 0)"
    "y div 100 = (y - 1) div 100 + (if y mod 100 = 0 then 1 else 0)"
    "y div 400 = (y - 1) div 400 + (if y mod 400 = 0 then 1 else 0)"
    by (rule div_pred, simp)+
  have "y mod 100 = 0 \<longrightarrow> y mod 4 = 0" "y mod 400 = 0 \<longrightarrow> y mod 100 = 0"
    using dvd_trans [of 4 100 y] dvd_trans [of 100 400 y]
    unfolding dvd_eq_mod_eq_0 [symmetric] by simp_all
  then have len: "year_length y = 365 + (if y mod 4 = 0 then 1 else 0)
      - (if y mod 100 = 0 then 1 else 0) + (if y mod 400 = 0 then 1 else 0)"
    unfolding year_length_def leap_def by (rule leap_count)
  have sum: "365 * y + a' - b' + c' = 365 * (y - 1) + a - b + c + (365 + i - j + k)"
    if "a' = a + i" "b' = b + j" "c' = c + k" for a a' b b' c c' i j k :: int
    using that by simp
  show ?thesis
    unfolding days_before_year_def Let_def add_diff_cancel_right' len by (rule sum [OF d])
qed

lemma days_before_year_mono: "y \<le> y' \<Longrightarrow> days_before_year y \<le> days_before_year y'"
proof (induction y' rule: int_ge_induct)
  case (step i)
  then show ?case using days_before_year_next [of i] by (simp add: year_length_def)
qed simp

lemma days_before_year_unique:
  assumes "days_before_year y + yd = days_before_year y' + yd'"
    and "0 \<le> yd" "yd < year_length y" "0 \<le> yd'" "yd' < year_length y'"
  shows "y = y' \<and> yd = yd'"
proof -
  have "\<not> y < y'" using days_before_year_mono [of "y + 1" y'] days_before_year_next [of y] assms by linarith
  moreover have "\<not> y' < y"
    using days_before_year_mono [of "y' + 1" y] days_before_year_next [of y'] assms by linarith
  ultimately show ?thesis using assms(1) by auto
qed

lemma days_before_year_cycles:
  assumes "0 \<le> b" "b \<le> 3" "0 \<le> c" "c \<le> 24" "0 \<le> e" "e \<le> 3"
  shows "days_before_year (400 * a + 100 * b + 4 * c + e + 1) = 146097 * a + 36524 * b + 1461 * c + 365 * e"
    and "leap (400 * a + 100 * b + 4 * c + e + 1) \<longleftrightarrow> e = 3 \<and> (c \<noteq> 24 \<or> b = 3)"
proof -
  let ?z = "400 * a + 100 * b + 4 * c + e"
  have "?z div 4 = 100 * a + 25 * b + c"
    using assms by (intro int_div_pos_eq [where r = e]) simp_all
  moreover have "?z div 100 = 4 * a + b"
    using assms by (intro int_div_pos_eq [where r = "4 * c + e"]) simp_all
  moreover have "?z div 400 = a"
    using assms by (intro int_div_pos_eq [where r = "100 * b + 4 * c + e"]) simp_all
  ultimately show "days_before_year (?z + 1) = 146097 * a + 36524 * b + 1461 * c + 365 * e"
    by (simp add: days_before_year_def Let_def)
  have "?z mod 4 = e"
    using assms by (intro int_mod_pos_eq [where q = "100 * a + 25 * b + c"]) simp_all
  moreover have "?z mod 100 = 4 * c + e"
    using assms by (intro int_mod_pos_eq [where q = "4 * a + b"]) simp_all
  moreover have "?z mod 400 = 100 * b + 4 * c + e"
    using assms by (intro int_mod_pos_eq [where q = a]) simp_all
  moreover have "4 * c + e = 99 \<longleftrightarrow> c = 24 \<and> e = 3"
    and "100 * b + 4 * c + e = 399 \<longleftrightarrow> b = 3 \<and> c = 24 \<and> e = 3"
    using assms by linarith+
  ultimately have "(?z + 1) mod 4 = 0 \<longleftrightarrow> e = 3" "(?z + 1) mod 100 = 0 \<longleftrightarrow> c = 24 \<and> e = 3"
    "(?z + 1) mod 400 = 0 \<longleftrightarrow> b = 3 \<and> c = 24 \<and> e = 3"
    unfolding mod_succ_0_iff [OF zero_less_numeral] by simp_all
  then show "leap (?z + 1) \<longleftrightarrow> e = 3 \<and> (c \<noteq> 24 \<or> b = 3)" by (auto simp: leap_def)
qed

lemma min_div_bounds:
  assumes "0 < (k :: int)" and "0 \<le> r" and "0 \<le> m"
  shows "0 \<le> min m (r div k)" and "min m (r div k) \<le> m" and "k * min m (r div k) \<le> r"
    and "min m (r div k) < m \<Longrightarrow> r < k * min m (r div k) + k"
proof -
  define q where "q = r div k"
  have q: "0 \<le> q" "k * q \<le> r" "r < k * q + k"
    using assms pos_mod_sign [of k r] pos_mod_bound [of k r] mult_div_mod_eq [of k r]
    unfolding q_def by (simp_all add: pos_imp_zdiv_nonneg_iff, linarith+)
  moreover have "k * min m q \<le> k * q" using assms(1) by (simp add: mult_left_mono)
  ultimately show "k * min m (r div k) \<le> r"
    unfolding q_def [symmetric] by linarith
  from q show "0 \<le> min m (r div k)" "min m (r div k) \<le> m" "min m (r div k) < m \<Longrightarrow> r < k * min m (r div k) + k"
    using assms(3) unfolding q_def [symmetric] by (auto simp: min_def split: if_splits)
qed

lemma year_yday_correct:
  assumes "year_yday n = (y, yd)"
  shows "days_before_year y + yd = n" and "0 \<le> yd" and "yd < year_length y"
proof -
  define a r where "a = n div 146097" and "r = n mod 146097"
  define b where "b = min 3 (r div 36524)"
  define r2 where "r2 = r - 36524 * b"
  define c r3 where "c = r2 div 1461" and "r3 = r2 mod 1461"
  define e where "e = min 3 (r3 div 365)"
  have n: "n = 146097 * a + r" "0 \<le> r" "r < 146097" by (simp_all add: a_def r_def)
  have b: "0 \<le> b" "b \<le> 3" "36524 * b \<le> r" "b < 3 \<Longrightarrow> r < 36524 * b + 36524"
    unfolding b_def by (rule min_div_bounds; simp add: n)+
  have r2: "0 \<le> r2" "r2 \<le> 36524" and b3: "r2 = 36524 \<Longrightarrow> b = 3"
    using b n(3) unfolding r2_def by (cases "b < 3"; simp)+
  have c: "r2 = 1461 * c + r3" "0 \<le> r3" "r3 < 1461" by (simp_all add: c_def r3_def)
  then have c24: "0 \<le> c" "c \<le> 24" using r2 by linarith+
  have e: "0 \<le> e" "e \<le> 3" "365 * e \<le> r3" "e < 3 \<Longrightarrow> r3 < 365 * e + 365"
    unfolding e_def by (rule min_div_bounds; simp add: c)+
  have "year_yday n = (400 * a + 100 * b + 4 * c + e + 1, r3 - 365 * e)"
    unfolding year_yday_def Let_def a_def r_def b_def r2_def c_def r3_def e_def by (rule refl)
  then have y: "y = 400 * a + 100 * b + 4 * c + e + 1" and yd: "yd = r3 - 365 * e"
    using assms by simp_all
  note cyc = days_before_year_cycles [OF b(1,2) c24 e(1,2), of a]
  show "days_before_year y + yd = n" unfolding y cyc(1) yd using n c by (simp add: r2_def)
  show "0 \<le> yd" using e yd by simp
  have e3: "e = 3" if "yd = 365" using that yd e(2,4) by linarith
  then have "yd = 365 \<Longrightarrow> e = 3 \<and> (c \<noteq> 24 \<or> b = 3)" using yd c(1) b3 by auto
  moreover have "yd \<le> 365" using yd e c(3) by (cases "e < 3") simp_all
  ultimately show "yd < year_length y"
    unfolding year_length_def y cyc(2) by (cases "yd = 365") auto
qed

lemma year_yday_days:
  assumes "0 \<le> yd" and "yd < year_length y"
  shows "year_yday (days_before_year y + yd) = (y, yd)"
proof -
  obtain y' yd' where e: "year_yday (days_before_year y + yd) = (y', yd')"
    by (cases "year_yday (days_before_year y + yd)")
  have "y = y' \<and> yd = yd'"
    by (rule days_before_year_unique) (simp_all only: year_yday_correct [OF e] assms)
  then show ?thesis using e by simp
qed

lemma month_day_correct:
  assumes "month_day m ls yd = (m', d)" and "0 \<le> yd" and "yd < sum_list ls" and "\<forall>l\<in>set ls. 0 < l"
  shows "m \<le> m' \<and> m' < m + int (length ls) \<and> 1 \<le> d \<and> d \<le> ls ! nat (m' - m) \<and>
    sum_list (take (nat (m' - m)) ls) + (d - 1) = yd"
  using assms
proof (induction m ls yd rule: month_day.induct)
  case (2 m l ls yd)
  show ?case
  proof (cases "yd < l")
    case True
    with "2.prems" show ?thesis by auto
  next
    case False
    with 2 have IH: "m + 1 \<le> m' \<and> m' < m + 1 + int (length ls) \<and> 1 \<le> d \<and> d \<le> ls ! nat (m' - (m + 1)) \<and>
        sum_list (take (nat (m' - (m + 1))) ls) + (d - 1) = yd - l" by simp
    moreover have "nat (m' - m) = Suc (nat (m' - (m + 1)))" using IH by linarith
    ultimately show ?thesis by simp
  qed
qed simp

lemma month_day_sum:
  assumes "k < length ls" and "1 \<le> d" and "d \<le> ls ! k" and "\<forall>l\<in>set ls. 0 < l"
  shows "month_day m ls (sum_list (take k ls) + (d - 1)) = (m + int k, d)"
  using assms
proof (induction ls arbitrary: k m)
  case (Cons l ls)
  show ?case
  proof (cases k)
    case 0
    with Cons.prems show ?thesis by simp
  next
    case (Suc j)
    have "0 \<le> sum_list (take j ls)"
      using Cons.prems(4) by (intro sum_list_nonneg) (auto dest: in_set_takeD intro: less_imp_le)
    then show ?thesis using Cons.IH [of j "m + 1"] Cons.prems Suc by simp
  qed
qed simp

lemma month_lengths_simps [simp]:
  "length (month_lengths y) = 12" "\<forall>l\<in>set (month_lengths y). 0 < l"
  "sum_list (month_lengths y) = year_length y"
  by (auto simp: month_lengths_def year_length_def)

text \<open>The civil dates, and that the two conversions are inverse to each other.\<close>

definition valid_civil :: "int \<Rightarrow> int \<Rightarrow> int \<Rightarrow> bool" where
  "valid_civil y m d \<longleftrightarrow> 1 \<le> m \<and> m \<le> 12 \<and> 1 \<le> d \<and> d \<le> month_lengths y ! nat (m - 1)"

lemma sum_list_take_nth_le:
  assumes "k < length ls" and "\<forall>l\<in>set ls. 0 < (l :: int)"
  shows "sum_list (take k ls) + ls ! k \<le> sum_list ls"
  using assms
proof (induction ls arbitrary: k)
  case (Cons l ls)
  show ?case
  proof (cases k)
    case 0
    have "0 \<le> sum_list ls" using Cons.prems(2) by (intro sum_list_nonneg) (auto intro: less_imp_le)
    with 0 show ?thesis by simp
  next
    case (Suc j)
    with Cons show ?thesis by simp
  qed
qed simp

lemma civil_of_days_of_civil:
  assumes "valid_civil y m d"
  shows "civil_of_days (days_of_civil y m d) = (y, m, d)"
proof -
  let ?k = "nat (m - 1)" and ?ls = "month_lengths y"
  have k: "?k < length ?ls" "1 \<le> d" "d \<le> ?ls ! ?k" "m = 1 + int ?k"
    using assms by (auto simp: valid_civil_def)
  have "0 \<le> sum_list (take ?k ?ls)"
    by (intro sum_list_nonneg) (metis in_set_takeD month_lengths_simps(2) less_imp_le)
  then have "year_yday (days_of_civil y m d) = (y, sum_list (take ?k ?ls) + (d - 1))"
    using k sum_list_take_nth_le [OF k(1)]
    by (simp add: days_of_civil_def add.assoc year_yday_days)
  then show ?thesis
    using month_day_sum [OF k(1,2,3), of 1] k(4) by (simp add: civil_of_days_def)
qed

lemma days_of_civil_of_days:
  assumes "civil_of_days n = (y, m, d)"
  shows "days_of_civil y m d = n" and "valid_civil y m d"
proof -
  obtain yd where y: "year_yday n = (y, yd)" and m: "month_day 1 (month_lengths y) yd = (m, d)"
    using assms by (auto simp: civil_of_days_def Let_def split: prod.splits)
  note yc = year_yday_correct [OF y]
  from month_day_correct [OF m yc(2)] yc(3) have md: "1 \<le> m" "m < 13" "1 \<le> d"
    "d \<le> month_lengths y ! nat (m - 1)" "sum_list (take (nat (m - 1)) (month_lengths y)) + (d - 1) = yd"
    by simp_all
  then show "valid_civil y m d" by (simp add: valid_civil_def)
  show "days_of_civil y m d = n" using md(5) yc(1) by (simp add: days_of_civil_def)
qed

section \<open>Time stamps on the wire\<close>

text \<open>Every instant of a UTC time is rebuilt by \<open>Date\<close> from what the accessors read.\<close>

lemma Date_accessors:
  assumes "toff t = 0" and "tnsec t = 0"
  shows "Date (Year t) (Month t) (Day t) (Hour t) (Minute t) (Second t) = t"
proof -
  obtain y m d where c: "civil_of_days (local_days t) = (y, m, d)" by (cases "civil_of_days (local_days t)")
  from days_of_civil_of_days [OF c] have days: "days_of_civil y m d = local_days t"
    and m: "1 \<le> m" "m \<le> 12" by (simp_all add: valid_civil_def)
  have m12: "(m - 1) div 12 = 0" "(m - 1) mod 12 = m - 1" using m by simp_all
  have "3600 * (s div 3600) + 60 * (s mod 3600 div 60) + s mod 60 = s" for s :: int
  proof -
    have "s mod 3600 mod 60 = s mod 60" by (rule mod_mod_cancel) simp
    then have "60 * (s mod 3600 div 60) + s mod 60 = s mod 3600"
      using mult_div_mod_eq [of 60 "s mod 3600"] by simp
    then show ?thesis using mult_div_mod_eq [of 3600 s] by (simp only: add.assoc)
  qed
  then have secs: "3600 * Hour t + 60 * Minute t + Second t = local_secs t"
    by (simp add: Hour_def Minute_def Second_def)
  have "86400 * local_days t + local_secs t = tsec t"
    using assms by (simp add: local_days_def local_secs_def)
  with secs have "86400 * local_days t + 3600 * Hour t + 60 * Minute t + Second t = tsec t" by linarith
  then show ?thesis
    using assms c by (simp add: Date_def Let_def Year_def Month_def Day_def m12 days)
qed

lemma accessors_Date:
  assumes "valid_civil y m d" and "0 \<le> h" "h < 24" "0 \<le> mi" "mi < 60" "0 \<le> s" "s < 60"
  shows "Year (Date y m d h mi s) = y" "Month (Date y m d h mi s) = m" "Day (Date y m d h mi s) = d"
    "Hour (Date y m d h mi s) = h" "Minute (Date y m d h mi s) = mi" "Second (Date y m d h mi s) = s"
proof -
  let ?t = "Date y m d h mi s" and ?sod = "3600 * h + 60 * mi + s"
  have m12: "(m - 1) div 12 = 0" "(m - 1) mod 12 = m - 1" using assms(1) by (simp_all add: valid_civil_def)
  have t: "tsec ?t + toff ?t = 86400 * days_of_civil y m d + ?sod"
    by (simp add: Date_def Let_def m12)
  have sod: "0 \<le> ?sod" "?sod < 86400" using assms by linarith+
  have ld: "local_days ?t = days_of_civil y m d"
    unfolding local_days_def by (rule int_div_pos_eq [OF t sod])
  have ls: "local_secs ?t = ?sod"
    unfolding local_secs_def by (rule int_mod_pos_eq [OF t sod])
  show "Year ?t = y" "Month ?t = m" "Day ?t = d"
    by (simp_all add: Year_def Month_def Day_def ld civil_of_days_of_civil assms(1))
  have h: "?sod div 3600 = h" "?sod mod 3600 = 60 * mi + s"
    using assms by (intro int_div_pos_eq [where r = "60 * mi + s"] int_mod_pos_eq [where q = h]; simp)+
  have "(60 * mi + s) div 60 = mi"
    using assms by (intro int_div_pos_eq [where r = s]) simp_all
  moreover have "?sod mod 60 = s"
    using assms by (intro int_mod_pos_eq [where q = "60 * h + mi"]) simp_all
  ultimately show "Hour ?t = h" "Minute ?t = mi" "Second ?t = s"
    by (simp_all add: Hour_def Minute_def Second_def ls h)
qed

lemma accessor_ranges:
  "valid_civil (Year t) (Month t) (Day t)" "1 \<le> Month t" "Month t \<le> 12" "1 \<le> Day t" "Day t \<le> 31"
  "0 \<le> Hour t" "Hour t < 24" "0 \<le> Minute t" "Minute t < 60" "0 \<le> Second t" "Second t < 60"
proof -
  obtain y m d where c: "civil_of_days (local_days t) = (y, m, d)" by (cases "civil_of_days (local_days t)")
  from days_of_civil_of_days(2) [OF c] show v: "valid_civil (Year t) (Month t) (Day t)"
    by (simp add: Year_def Month_def Day_def c)
  then show "1 \<le> Month t" "Month t \<le> 12" "1 \<le> Day t" by (simp_all add: valid_civil_def)
  have "\<forall>l\<in>set (month_lengths (Year t)). l \<le> 31" by (simp add: month_lengths_def)
  moreover have "nat (Month t - 1) < length (month_lengths (Year t))" using v by (auto simp: valid_civil_def)
  ultimately have "month_lengths (Year t) ! nat (Month t - 1) \<le> 31" by (metis nth_mem)
  then show "Day t \<le> 31" using v by (simp add: valid_civil_def)
  have ls: "0 \<le> local_secs t" "local_secs t < 86400" by (simp_all add: local_secs_def)
  then show "0 \<le> Hour t" "Hour t < 24" by (auto simp: Hour_def)
  have "0 \<le> local_secs t mod 3600" "local_secs t mod 3600 < 3600" by simp_all
  then show "0 \<le> Minute t" "Minute t < 60" by (auto simp: Minute_def)
  show "0 \<le> Second t" "Second t < 60" by (simp_all add: Second_def)
qed

text \<open>Two-digit bytes: the packed form holds 0 to 159, not only 0 to 99.\<close>

lemma bcd_byte_eq:
  assumes "0 \<le> n" and "n < 160"
  shows "bcd_value (bcd_byte n) = n"
proof -
  have "\<forall>k\<in>set [0..159]. bcd_value (bcd_byte k) = k" by code_simp
  then show ?thesis using assms by simp
qed

lemma bcd_digits_byte:
  assumes "uint (b AND 0x0F) \<le> 9"
  shows "bcd_byte (bcd_value b) = b"
proof -
  have "\<forall>k\<in>set [0..255]. uint ((word_of_int k :: byte) AND 0x0F) \<le> 9 \<longrightarrow>
      bcd_byte (bcd_value (word_of_int k)) = word_of_int k" by code_simp
  moreover have "uint b \<in> set [0..255]" using uint_lt2p [of b] by simp
  moreover have "uint (b AND 0x0F) \<le> 9" using assms by simp
  ultimately show ?thesis by (metis word_of_int_uint)
qed

lemma length_time6 [simp]: "length (encodeBCDTime t) = 6" "length (encodeTime6 t) = 6"
  by (simp_all add: encodeBCDTime_def encodeTime6_def Let_def)

lemma parse_time6_total [total]:
  "6 \<le> length b \<Longrightarrow> \<exists>t. decodeTime6 d b = Some t"
  by (auto simp: decodeTime6_def parseBinaryTime6_def parseBCDTime6_def idx_def)

text \<open>The local civil time of \<open>t\<close>, read as a UTC time: what a receiver reconstructs.\<close>

definition wire_time :: "Time \<Rightarrow> Time" where
  "wire_time t = \<lparr>tsec = tsec t + toff t, tnsec = 0, toff = 0\<rparr>"

lemma Date_wire_time:
  "Date (Year t) (Month t) (Day t) (Hour t) (Minute t) (Second t) = wire_time t"
proof -
  have "local_days (wire_time t) = local_days t" "local_secs (wire_time t) = local_secs t"
    by (simp_all add: local_days_def local_secs_def wire_time_def)
  then have "Year (wire_time t) = Year t" "Month (wire_time t) = Month t" "Day (wire_time t) = Day t"
    "Hour (wire_time t) = Hour t" "Minute (wire_time t) = Minute t" "Second (wire_time t) = Second t"
    by (simp_all add: Year_def Month_def Day_def Hour_def Minute_def Second_def)
  then show ?thesis using Date_accessors [of "wire_time t"] by (simp add: wire_time_def)
qed

lemma bcd_bytes_accessors:
  "bcd_value (bcd_byte (Month t)) = Month t" "bcd_value (bcd_byte (Day t)) = Day t"
  "bcd_value (bcd_byte (Hour t)) = Hour t" "bcd_value (bcd_byte (Minute t)) = Minute t"
  "bcd_value (bcd_byte (Second t)) = Second t"
  using accessor_ranges [of t] by (auto intro!: bcd_byte_eq)

lemma parse_encode_BCD:
  assumes "2000 \<le> Year t" and "Year t < 2160"
  shows "parseBCDTime6 (encodeBCDTime t @ r) = Some (wire_time t)"
proof -
  have "bcd_value (bcd_byte (Year t - 2000)) = Year t - 2000"
    using assms by (intro bcd_byte_eq) simp_all
  then show ?thesis
    using Date_wire_time [of t]
    by (simp add: parseBCDTime6_def encodeBCDTime_def Let_def idx_def bcd_bytes_accessors)
qed

text \<open>
  The BCD time codec. For every time of the years 2000 to 2159 (in its own zone) the six bytes
  written by \<^verbatim>\<open>encodeBCDTime\<close> are read back by \<^verbatim>\<open>parseBCDTime6\<close> as the same civil time in UTC: the
  instant shifted by the zone offset and cut to whole seconds. A UTC time with whole seconds comes
  back unchanged.
\<close>

theorem BCD_time_roundtrip:
  assumes "2000 \<le> Year t" and "Year t < 2160"
  shows "parseBCDTime6 (encodeBCDTime t) = Some \<lparr>tsec = tsec t + toff t, tnsec = 0, toff = 0\<rparr>"
  using parse_encode_BCD [OF assms, of "[]"] by (simp add: wire_time_def)

theorem BCD_time_roundtrip_witness:
  "parseBCDTime6 (encodeBCDTime (Date 2026 6 15 18 48 30)) = Some (Date 2026 6 15 18 48 30)"
proof -
  let ?t = "Date 2026 6 15 18 48 30"
  have y: "Year ?t = 2026"
    by (rule accessors_Date) (simp_all add: valid_civil_def month_lengths_def)
  have "toff ?t = 0" "tnsec ?t = 0" by (simp_all add: Date_def Let_def)
  then show ?thesis using BCD_time_roundtrip [of ?t] by (simp add: y)
qed

text \<open>
  Conversely, six bytes whose low nibbles are decimal digits and whose fields form a civil
  date and time of day are exactly what \<^verbatim>\<open>encodeBCDTime\<close> writes for the time parsed from them.
\<close>

theorem BCD_bytes_roundtrip:
  assumes digits: "\<forall>b \<in> {b0, b1, b2, b3, b4, b5}. uint (b AND 0x0F) \<le> 9"
    and date: "valid_civil (2000 + bcd_value b0) (bcd_value b1) (bcd_value b2)"
    and clock: "bcd_value b3 < 24" "bcd_value b4 < 60" "bcd_value b5 < 60"
  shows "\<exists>t. parseBCDTime6 [b0, b1, b2, b3, b4, b5] = Some t \<and> encodeBCDTime t = [b0, b1, b2, b3, b4, b5]"
proof -
  let ?t = "Date (2000 + bcd_value b0) (bcd_value b1) (bcd_value b2) (bcd_value b3) (bcd_value b4) (bcd_value b5)"
  have "0 \<le> bcd_value b" for b by (simp add: bcd_value_def)
  note acc = accessors_Date [OF date this clock(1) this clock(2) this clock(3)]
  have "encodeBCDTime ?t = [b0, b1, b2, b3, b4, b5]"
    using digits by (simp add: encodeBCDTime_def Let_def acc bcd_digits_byte)
  then show ?thesis by (simp add: parseBCDTime6_def wire)
qed

theorem BCD_bytes_roundtrip_witness:
  "\<exists>t. parseBCDTime6 [0x26, 0x06, 0x15, 0x18, 0x48, 0x30] = Some t \<and>
     encodeBCDTime t = [0x26, 0x06, 0x15, 0x18, 0x48, 0x30]"
  by (rule BCD_bytes_roundtrip; code_simp)

lemma days_of_civil_less:
  assumes "y + 2 \<le> y'" and "1 \<le> d" "d \<le> 31"
  shows "days_of_civil y m d < days_of_civil y' m d"
proof -
  let ?s = "\<lambda>z. sum_list (take (nat (m - 1)) (month_lengths z))"
  have up: "?s y \<le> year_length y"
  proof -
    have "sum_list (drop (nat (m - 1)) (month_lengths y)) \<ge> 0"
      by (intro sum_list_nonneg) (metis in_set_dropD month_lengths_simps(2) less_imp_le)
    moreover have "?s y + sum_list (drop (nat (m - 1)) (month_lengths y)) = year_length y"
      by (metis append_take_drop_id month_lengths_simps(3) sum_list_append)
    ultimately show ?thesis by linarith
  qed
  have low: "0 \<le> ?s y'"
    by (intro sum_list_nonneg) (metis in_set_takeD month_lengths_simps(2) less_imp_le)
  have "days_before_year y + year_length y + year_length (y + 1) \<le> days_before_year y'"
    using days_before_year_mono [OF assms(1)] days_before_year_next [of y]
      days_before_year_next [of "y + 1"] by (simp add: add.assoc)
  moreover have "365 \<le> year_length (y + 1)" by (simp add: year_length_def)
  ultimately show ?thesis using up low assms(2,3) by (simp add: days_of_civil_def)
qed

text \<open>
  The binary codec writes the year modulo 100, so it reads back exactly the times of the
  years 2000 to 2099.
\<close>

theorem binary_time_roundtrip:
  assumes "2000 \<le> Year t"
  shows "parseBinaryTime6 (encodeBinaryTime6 t) = Some \<lparr>tsec = tsec t + toff t, tnsec = 0, toff = 0\<rparr>
    \<longleftrightarrow> Year t < 2100"
proof -
  have small: "uint (word_of_int n :: byte) = n" if "0 \<le> n" "n < 256" for n
    using that by (simp add: uint_word_of_int)
  have y: "0 \<le> Year t smod 100" "Year t smod 100 < 100"
    using assms by (simp_all add: signed_modulo_int_def signed_divide_int_def)
  have m: "Year t smod 100 = Year t mod 100"
    using assms by (simp add: signed_modulo_int_def signed_divide_int_def minus_mult_div_eq_mod)
  note r = accessor_ranges [of t]
  have "parseBinaryTime6 (encodeBinaryTime6 t) =
      Some (Date (2000 + Year t mod 100) (Month t) (Day t) (Hour t) (Minute t) (Second t))"
    using y r by (simp add: parseBinaryTime6_def encodeBinaryTime6_def wire small m [symmetric])
  moreover have "Date (2000 + Year t mod 100) (Month t) (Day t) (Hour t) (Minute t) (Second t) = wire_time t
      \<longleftrightarrow> Year t < 2100"
  proof (cases "Year t < 2100")
    case True
    have "Year t mod 100 = Year t - 2000"
      using True assms by (intro int_mod_pos_eq [where q = 20]) simp_all
    then show ?thesis using True Date_wire_time [of t] by simp
  next
    case False
    have "2000 + Year t mod 100 + 2 \<le> Year t"
      using False mod_mult_self1 [of "Year t - 2100" 21 100]
        zmod_le_nonneg_dividend [of "Year t - 2100" 100] by simp
    then have "days_of_civil (2000 + Year t mod 100) (Month t) (Day t) < days_of_civil (Year t) (Month t) (Day t)"
      using days_of_civil_less [of "2000 + Year t mod 100" "Year t" "Day t" "Month t"] r(2-5) by simp
    then have "Date (2000 + Year t mod 100) (Month t) (Day t) (Hour t) (Minute t) (Second t) \<noteq>
        Date (Year t) (Month t) (Day t) (Hour t) (Minute t) (Second t)"
      using r(2,3) by (simp add: Date_def Let_def)
    then show ?thesis using False Date_wire_time [of t] by simp
  qed
  ultimately show ?thesis by (simp add: wire_time_def)
qed

theorem binary_time_roundtrip_witness:
  "parseBinaryTime6 (encodeBinaryTime6 (Date 2022 1 1 12 0 0)) = Some (Date 2022 1 1 12 0 0)"
proof -
  let ?t = "Date 2022 1 1 12 0 0"
  have y: "Year ?t = 2022"
    by (rule accessors_Date) (simp_all add: valid_civil_def month_lengths_def)
  have "toff ?t = 0" "tnsec ?t = 0" by (simp_all add: Date_def Let_def)
  then show ?thesis using binary_time_roundtrip [of ?t] by (simp add: y)
qed

end
