(* ===== verification/Codec.thy ===== *)
theory Codec
  imports Constants
begin

text \<open>
  The field decoders of package \<^verbatim>\<open>codec\<close>. Every structure of the package is a record (names carry the
  suffix \<open>_c\<close> to keep them apart from the structures of \<^verbatim>\<open>packet.go\<close>), every decoder a function from
  the field's bytes to \<open>go_error + record\<close>, \<open>None\<close> being a run-time panic; \<open>decoded\<close> is the dynamic
  type behind \<^verbatim>\<open>interface{}\<close>.
  For each field a reference layout says which bytes stand for which value; the locales
  \<open>wire_field\<close> and \<open>fixed_field\<close> state what a decoder owes its layout.
\<close>

section \<open>Field identifiers (field.go)\<close>

definition FieldVehicle :: byte where [simp]: "FieldVehicle = 0x01"
definition FieldMotor :: byte where [simp]: "FieldMotor = 0x02"
definition FieldFuelCell :: byte where [simp]: "FieldFuelCell = 0x03"
definition FieldEngine :: byte where [simp]: "FieldEngine = 0x04"
definition FieldPosition :: byte where [simp]: "FieldPosition = 0x05"
definition FieldExtreme :: byte where [simp]: "FieldExtreme = 0x06"
definition FieldAlarm :: byte where [simp]: "FieldAlarm = 0x07"
definition FieldVoltage :: byte where [simp]: "FieldVoltage = 0x08"
definition FieldTemperature :: byte where [simp]: "FieldTemperature = 0x09"

section \<open>Structures\<close>

record VehicleBaseInfo_c =
  VehicleStatus_c :: byte
  ChargingStatus_c :: byte
  RunMode_c :: byte
  Speed_c :: uint16
  Odometer_c :: uint32
  TotalVoltage_c :: uint16
  TotalCurrent_c :: uint16
  SOC_c :: byte
  DCStatus_c :: byte
  Gear_c :: byte
  InsulationRes_c :: uint16
  Reserved_c :: uint16

record MotorInfo_c =
  MotorSeq_c :: byte
  MotorStatus_c :: byte
  ControllerTemp_c :: byte
  MotorSpeed_c :: uint16
  MotorTorque_c :: uint16
  MotorTemp_c :: byte
  MotorVoltage_c :: uint16
  MotorCurrent_c :: uint16

record FuelCellInfo_c =
  CellVoltage_c :: uint16
  CellCurrent_c :: uint16
  FuelConsumption_c :: uint16
  ProbeCount_c :: uint16
  ProbeTemps_c :: bytes
  H2MaxTemp_c :: uint16
  H2MaxTempProbe_c :: byte
  H2MaxConcentration_c :: uint16
  H2MaxConcentrationSensor_c :: byte
  H2PressureMax_c :: uint16
  H2PressureMaxSensor_c :: byte
  H2PressureMin_c :: uint16
  H2PressureMinSensor_c :: byte
  DCDCStatus_c :: byte

record EngineInfo_c =
  EngineStatus_c :: byte
  CrankSpeed_c :: uint16
  FuelRate_c :: uint16

record PositionInfo_c =
  Longitude_c :: uint32
  Latitude_c :: uint32

record ExtremeInfo_c =
  MaxBatteryVoltage_c :: uint16
  MaxBatteryVoltageCode_c :: byte
  MinBatteryVoltage_c :: uint16
  MinBatteryVoltageCode_c :: byte
  MaxTemp_c :: byte
  MaxTempCode_c :: byte
  MinTemp_c :: byte
  MinTempCode_c :: byte

record AlarmInfo_c =
  MaxLevel_c :: byte
  AlarmByteLen_c :: uint32
  AlarmBytes_c :: bytes

record CellInfo_c =
  CellInfoVoltage_c :: uint16
  CellInfoTemp_c :: byte

record CellVoltageItem_c =
  CellNo_c :: byte
  CellInfo_of_c :: CellInfo_c

record SubsystemVoltage_c =
  SubsysNo_c :: byte
  Voltage_c :: uint16
  Current_c :: uint16
  CellCount_c :: uint16
  Cells_c :: "CellVoltageItem_c list"

record VoltageInfo_c =
  SubsysCount_c :: uint16
  SubsystemVoltages_c :: "SubsystemVoltage_c list"

record SubsystemTemperature_c =
  TSubsysNo_c :: byte
  TProbeCount_c :: uint16
  ProbeTemperatures_c :: bytes

record TemperatureInfo_c =
  TSubsysCount_c :: uint16
  SubsystemTemperatures_c :: "SubsystemTemperature_c list"

datatype decoded =
    DVehicle VehicleBaseInfo_c
  | DMotor "MotorInfo_c list"
  | DFuelCell FuelCellInfo_c
  | DEngine EngineInfo_c
  | DPosition PositionInfo_c
  | DExtreme ExtremeInfo_c
  | DAlarm AlarmInfo_c
  | DVoltage VoltageInfo_c
  | DTemperature TemperatureInfo_c
  | DBytes bytes

section \<open>Decoders\<close>

definition DecodeVehicleData :: "bytes \<Rightarrow> (go_error + VehicleBaseInfo_c) option" where
  "DecodeVehicleData data =
     (if length data < 20 then Some (Inl (Errorf ''vehicle data too short: %d < 20'' [length data]))
      else do {
        vehicleStatus \<leftarrow> idx data 0;
        chargingStatus \<leftarrow> idx data 1;
        runMode \<leftarrow> idx data 2;
        speed \<leftarrow> u16_at data 3;
        odometer \<leftarrow> u32_at data 5;
        totalVoltage \<leftarrow> u16_at data 9;
        totalCurrent \<leftarrow> u16_at data 11;
        soc \<leftarrow> idx data 13;
        dcStatus \<leftarrow> idx data 14;
        gear \<leftarrow> idx data 15;
        insulationRes \<leftarrow> u16_at data 16;
        reserved \<leftarrow> u16_at data 18;
        Some (Inr \<lparr>VehicleStatus_c = vehicleStatus, ChargingStatus_c = chargingStatus,
          RunMode_c = runMode, Speed_c = speed, Odometer_c = odometer,
          TotalVoltage_c = totalVoltage, TotalCurrent_c = totalCurrent, SOC_c = soc,
          DCStatus_c = dcStatus, Gear_c = gear, InsulationRes_c = insulationRes,
          Reserved_c = reserved\<rparr>)
      })"

text \<open>The body of the motor loop: the twelve bytes from \<open>p\<close> on.\<close>

definition motor_at :: "bytes \<Rightarrow> nat \<Rightarrow> MotorInfo_c option" where
  "motor_at data p = do {
     motorSeq \<leftarrow> idx data p;
     motorStatus \<leftarrow> idx data (p + 1);
     controllerTemp \<leftarrow> idx data (p + 2);
     motorSpeed \<leftarrow> u16_at data (p + 3);
     motorTorque \<leftarrow> u16_at data (p + 5);
     motorTemp \<leftarrow> idx data (p + 7);
     motorVoltage \<leftarrow> u16_at data (p + 8);
     motorCurrent \<leftarrow> u16_at data (p + 10);
     Some \<lparr>MotorSeq_c = motorSeq, MotorStatus_c = motorStatus, ControllerTemp_c = controllerTemp,
       MotorSpeed_c = motorSpeed, MotorTorque_c = motorTorque, MotorTemp_c = motorTemp,
       MotorVoltage_c = motorVoltage, MotorCurrent_c = motorCurrent\<rparr>
   }"

definition zero_motor :: MotorInfo_c where
  "zero_motor = \<lparr>MotorSeq_c = 0, MotorStatus_c = 0, ControllerTemp_c = 0, MotorSpeed_c = 0,
     MotorTorque_c = 0, MotorTemp_c = 0, MotorVoltage_c = 0, MotorCurrent_c = 0\<rparr>"

text \<open>\<open>motors\<close> has \<open>count\<close> elements, so the store \<^verbatim>\<open>motors[i] = m\<close> with \<open>i < count\<close> is in range.\<close>

function motor_loop :: "bytes \<Rightarrow> nat \<Rightarrow> nat \<Rightarrow> nat \<Rightarrow> MotorInfo_c list \<Rightarrow> MotorInfo_c list option" where
  "motor_loop data count i p motors =
     (if i < count then
        if p + 12 > length data then Some motors
        else do {
          m \<leftarrow> motor_at data p;
          motor_loop data count (i + 1) (p + 12) (motors[i := m])
        }
      else Some motors)"
  by pat_completeness auto
termination
  by (relation "measure (\<lambda>(data, count, i, p, motors). count - i)") auto

declare motor_loop.simps [simp del]

definition DecodeMotorData :: "bytes \<Rightarrow> (go_error + MotorInfo_c list) option" where
  "DecodeMotorData data =
     (if length data < 1 then Some (Inl (Errorf ''motor data too short'' []))
      else do {
        count \<leftarrow> idx data 0;
        motors \<leftarrow> motor_loop data (unat count) 0 1 (replicate (unat count) zero_motor);
        Some (Inr motors)
      })"

definition DecodeFuelCellData :: "bytes \<Rightarrow> (go_error + FuelCellInfo_c) option" where
  "DecodeFuelCellData data =
     (if length data < 8 then Some (Inl (Errorf ''fuel cell data too short: %d < 8'' [length data]))
      else do {
        cellVoltage \<leftarrow> u16_at data 0;
        cellCurrent \<leftarrow> u16_at data 2;
        fuelConsumption \<leftarrow> u16_at data 4;
        probeCount \<leftarrow> u16_at data 6;
        let probeCnt = unat probeCount;
        let expectedLen = 8 + probeCnt + 13;
        if length data < expectedLen then
          Some (Inl (Errorf ''fuel cell data truncated: need %d bytes, have %d''
            [expectedLen, length data]))
        else do {
          probeTemps \<leftarrow> slice data 8 (8 + probeCnt);
          let p = 8 + probeCnt;
          h2MaxTemp \<leftarrow> u16_at data p;
          h2MaxTempProbe \<leftarrow> idx data (p + 2);
          h2MaxConcentration \<leftarrow> u16_at data (p + 3);
          h2MaxConcentrationSensor \<leftarrow> idx data (p + 5);
          h2PressureMax \<leftarrow> u16_at data (p + 6);
          h2PressureMaxSensor \<leftarrow> idx data (p + 8);
          h2PressureMin \<leftarrow> u16_at data (p + 9);
          h2PressureMinSensor \<leftarrow> idx data (p + 11);
          dcdcStatus \<leftarrow> idx data (p + 12);
          Some (Inr \<lparr>CellVoltage_c = cellVoltage, CellCurrent_c = cellCurrent,
            FuelConsumption_c = fuelConsumption, ProbeCount_c = probeCount,
            ProbeTemps_c = probeTemps, H2MaxTemp_c = h2MaxTemp,
            H2MaxTempProbe_c = h2MaxTempProbe, H2MaxConcentration_c = h2MaxConcentration,
            H2MaxConcentrationSensor_c = h2MaxConcentrationSensor,
            H2PressureMax_c = h2PressureMax, H2PressureMaxSensor_c = h2PressureMaxSensor,
            H2PressureMin_c = h2PressureMin, H2PressureMinSensor_c = h2PressureMinSensor,
            DCDCStatus_c = dcdcStatus\<rparr>)
        }
      })"

definition DecodeEngineData :: "bytes \<Rightarrow> (go_error + EngineInfo_c) option" where
  "DecodeEngineData data =
     (if length data < 5 then Some (Inl (Errorf ''engine data too short: %d < 5'' [length data]))
      else do {
        engineStatus \<leftarrow> idx data 0;
        crankSpeed \<leftarrow> u16_at data 1;
        fuelRate \<leftarrow> u16_at data 3;
        Some (Inr \<lparr>EngineStatus_c = engineStatus, CrankSpeed_c = crankSpeed, FuelRate_c = fuelRate\<rparr>)
      })"

definition DecodePositionData :: "bytes \<Rightarrow> (go_error + PositionInfo_c) option" where
  "DecodePositionData data =
     (if length data < 8 then Some (Inl (Errorf ''position data too short: %d < 8'' [length data]))
      else do {
        longitude \<leftarrow> u32_at data 0;
        latitude \<leftarrow> u32_at data 4;
        Some (Inr \<lparr>Longitude_c = longitude, Latitude_c = latitude\<rparr>)
      })"

definition DecodeExtremeData :: "bytes \<Rightarrow> (go_error + ExtremeInfo_c) option" where
  "DecodeExtremeData data =
     (if length data < 10 then Some (Inl (Errorf ''extreme data too short: %d < 10'' [length data]))
      else do {
        maxBatteryVoltage \<leftarrow> u16_at data 0;
        maxBatteryVoltageCode \<leftarrow> idx data 2;
        minBatteryVoltage \<leftarrow> u16_at data 3;
        minBatteryVoltageCode \<leftarrow> idx data 5;
        maxTemp \<leftarrow> idx data 6;
        maxTempCode \<leftarrow> idx data 7;
        minTemp \<leftarrow> idx data 8;
        minTempCode \<leftarrow> idx data 9;
        Some (Inr \<lparr>MaxBatteryVoltage_c = maxBatteryVoltage,
          MaxBatteryVoltageCode_c = maxBatteryVoltageCode,
          MinBatteryVoltage_c = minBatteryVoltage,
          MinBatteryVoltageCode_c = minBatteryVoltageCode,
          MaxTemp_c = maxTemp, MaxTempCode_c = maxTempCode,
          MinTemp_c = minTemp, MinTempCode_c = minTempCode\<rparr>)
      })"

definition DecodeAlarmData :: "bytes \<Rightarrow> (go_error + AlarmInfo_c) option" where
  "DecodeAlarmData data =
     (if length data < 5 then Some (Inl (Errorf ''alarm data too short: %d < 5'' [length data]))
      else do {
        maxLevel \<leftarrow> idx data 0;
        alarmByteLen \<leftarrow> u32_at data 1;
        if unat alarmByteLen > length data - 5 then
          Some (Inl (Errorf ''alarm byte length %d exceeds data (%d bytes remaining)''
            [unat alarmByteLen, length data - 5]))
        else do {
          alarmBytes \<leftarrow> slice data 5 (5 + unat alarmByteLen);
          Some (Inr \<lparr>MaxLevel_c = maxLevel, AlarmByteLen_c = alarmByteLen, AlarmBytes_c = alarmBytes\<rparr>)
        }
      })"

text \<open>
  The two nested loops of the voltage decoder, and the loop of the temperature decoder. The
  \<^verbatim>\<open>uint16\<close> counters run from 0 to below a \<^verbatim>\<open>uint16\<close> count, so they do not wrap.
\<close>

function cell_loop ::
  "bytes \<Rightarrow> nat \<Rightarrow> nat \<Rightarrow> nat \<Rightarrow> CellVoltageItem_c list \<Rightarrow> (CellVoltageItem_c list \<times> nat) option" where
  "cell_loop data count j p cells =
     (if j < count then
        if p + 3 > length data then Some (cells, p)
        else do {
          cellNo \<leftarrow> idx data p;
          voltage \<leftarrow> u16_at data (p + 1);
          cell_loop data count (j + 1) (p + 3)
            (cells @ [\<lparr>CellNo_c = cellNo,
               CellInfo_of_c = \<lparr>CellInfoVoltage_c = voltage, CellInfoTemp_c = 0\<rparr>\<rparr>])
        }
      else Some (cells, p))"
  by pat_completeness auto
termination
  by (relation "measure (\<lambda>(data, count, j, p, cells). count - j)") auto

declare cell_loop.simps [simp del]

function voltage_loop ::
  "bytes \<Rightarrow> nat \<Rightarrow> nat \<Rightarrow> nat \<Rightarrow> SubsystemVoltage_c list \<Rightarrow> SubsystemVoltage_c list option" where
  "voltage_loop data count i p subs =
     (if i < count then
        if p + 7 > length data then Some subs
        else do {
          subsysNo \<leftarrow> idx data p;
          voltage \<leftarrow> u16_at data (p + 1);
          current \<leftarrow> u16_at data (p + 3);
          cellCount \<leftarrow> u16_at data (p + 5);
          (cells, p') \<leftarrow> cell_loop data (unat cellCount) 0 (p + 7) [];
          voltage_loop data count (i + 1) p'
            (subs @ [\<lparr>SubsysNo_c = subsysNo, Voltage_c = voltage, Current_c = current,
               CellCount_c = cellCount, Cells_c = cells\<rparr>])
        }
      else Some subs)"
  by pat_completeness auto
termination
  by (relation "measure (\<lambda>(data, count, i, p, subs). count - i)") auto

declare voltage_loop.simps [simp del]

definition DecodeVoltageData :: "bytes \<Rightarrow> (go_error + VoltageInfo_c) option" where
  "DecodeVoltageData data =
     (if length data < 2 then Some (Inl (Errorf ''voltage data too short: %d < 2'' [length data]))
      else do {
        subsysCount \<leftarrow> u16_at data 0;
        subs \<leftarrow> voltage_loop data (unat subsysCount) 0 2 [];
        Some (Inr \<lparr>SubsysCount_c = subsysCount, SubsystemVoltages_c = subs\<rparr>)
      })"

function temperature_loop ::
  "bytes \<Rightarrow> nat \<Rightarrow> nat \<Rightarrow> nat \<Rightarrow> SubsystemTemperature_c list \<Rightarrow> SubsystemTemperature_c list option" where
  "temperature_loop data count i p subs =
     (if i < count then
        if p + 3 > length data then Some subs
        else do {
          subsysNo \<leftarrow> idx data p;
          probeCount \<leftarrow> u16_at data (p + 1);
          let probeCnt = (if p + 3 + unat probeCount > length data then length data - (p + 3)
                          else unat probeCount);
          probeTemperatures \<leftarrow> slice data (p + 3) (p + 3 + probeCnt);
          temperature_loop data count (i + 1) (p + 3 + probeCnt)
            (subs @ [\<lparr>TSubsysNo_c = subsysNo, TProbeCount_c = probeCount,
               ProbeTemperatures_c = probeTemperatures\<rparr>])
        }
      else Some subs)"
  by pat_completeness auto
termination
  by (relation "measure (\<lambda>(data, count, i, p, subs). count - i)") auto

declare temperature_loop.simps [simp del]

definition DecodeTemperatureData :: "bytes \<Rightarrow> (go_error + TemperatureInfo_c) option" where
  "DecodeTemperatureData data =
     (if length data < 2 then Some (Inl (Errorf ''temperature data too short: %d < 2'' [length data]))
      else do {
        subsysCount \<leftarrow> u16_at data 0;
        subs \<leftarrow> temperature_loop data (unat subsysCount) 0 2 [];
        Some (Inr \<lparr>TSubsysCount_c = subsysCount, SubsystemTemperatures_c = subs\<rparr>)
      })"

section \<open>Dispatch (field.go)\<close>

type_synonym FieldDecoder = "bytes \<Rightarrow> (go_error + decoded) option"

definition tag :: "('a \<Rightarrow> decoded) \<Rightarrow> (bytes \<Rightarrow> (go_error + 'a) option) \<Rightarrow> FieldDecoder" where
  "tag c dec data = map_option (map_sum id c) (dec data)"

definition decoders :: "byte \<rightharpoonup> FieldDecoder" where
  "decoders = map_of
     [(FieldVehicle, tag DVehicle DecodeVehicleData),
      (FieldMotor, tag DMotor DecodeMotorData),
      (FieldFuelCell, tag DFuelCell DecodeFuelCellData),
      (FieldEngine, tag DEngine DecodeEngineData),
      (FieldPosition, tag DPosition DecodePositionData),
      (FieldExtreme, tag DExtreme DecodeExtremeData),
      (FieldAlarm, tag DAlarm DecodeAlarmData),
      (FieldVoltage, tag DVoltage DecodeVoltageData),
      (FieldTemperature, tag DTemperature DecodeTemperatureData)]"

definition DecodeField :: "byte \<Rightarrow> bytes \<Rightarrow> (go_error + decoded) option" where
  "DecodeField fieldID data =
     (case decoders fieldID of Some d \<Rightarrow> d data | None \<Rightarrow> Some (Inr (DBytes data)))"

definition HasDecoder :: "byte \<Rightarrow> bool" where
  "HasDecoder fieldID = (case decoders fieldID of Some _ \<Rightarrow> True | None \<Rightarrow> False)"

section \<open>Reference layouts\<close>

definition vehicle_layout :: "VehicleBaseInfo_c \<Rightarrow> bytes" where
  "vehicle_layout v =
     [VehicleStatus_c v, ChargingStatus_c v, RunMode_c v] @ PutUint16 (Speed_c v)
     @ PutUint32 (Odometer_c v) @ PutUint16 (TotalVoltage_c v) @ PutUint16 (TotalCurrent_c v)
     @ [SOC_c v, DCStatus_c v, Gear_c v] @ PutUint16 (InsulationRes_c v) @ PutUint16 (Reserved_c v)"

definition motor_layout :: "MotorInfo_c \<Rightarrow> bytes" where
  "motor_layout m =
     [MotorSeq_c m, MotorStatus_c m, ControllerTemp_c m] @ PutUint16 (MotorSpeed_c m)
     @ PutUint16 (MotorTorque_c m) @ [MotorTemp_c m] @ PutUint16 (MotorVoltage_c m)
     @ PutUint16 (MotorCurrent_c m)"

definition motors_layout :: "MotorInfo_c list \<Rightarrow> bytes" where
  "motors_layout ms = word_of_nat (length ms) # concat (map motor_layout ms)"

definition fuelcell_layout :: "FuelCellInfo_c \<Rightarrow> bytes" where
  "fuelcell_layout f =
     PutUint16 (CellVoltage_c f) @ PutUint16 (CellCurrent_c f) @ PutUint16 (FuelConsumption_c f)
     @ PutUint16 (ProbeCount_c f) @ ProbeTemps_c f
     @ PutUint16 (H2MaxTemp_c f) @ [H2MaxTempProbe_c f]
     @ PutUint16 (H2MaxConcentration_c f) @ [H2MaxConcentrationSensor_c f]
     @ PutUint16 (H2PressureMax_c f) @ [H2PressureMaxSensor_c f]
     @ PutUint16 (H2PressureMin_c f) @ [H2PressureMinSensor_c f] @ [DCDCStatus_c f]"

definition engine_layout :: "EngineInfo_c \<Rightarrow> bytes" where
  "engine_layout e = [EngineStatus_c e] @ PutUint16 (CrankSpeed_c e) @ PutUint16 (FuelRate_c e)"

definition position_layout :: "PositionInfo_c \<Rightarrow> bytes" where
  "position_layout p = PutUint32 (Longitude_c p) @ PutUint32 (Latitude_c p)"

definition extreme_layout :: "ExtremeInfo_c \<Rightarrow> bytes" where
  "extreme_layout e =
     PutUint16 (MaxBatteryVoltage_c e) @ [MaxBatteryVoltageCode_c e]
     @ PutUint16 (MinBatteryVoltage_c e) @ [MinBatteryVoltageCode_c e]
     @ [MaxTemp_c e, MaxTempCode_c e, MinTemp_c e, MinTempCode_c e]"

definition alarm_layout :: "AlarmInfo_c \<Rightarrow> bytes" where
  "alarm_layout a = [MaxLevel_c a] @ PutUint32 (AlarmByteLen_c a) @ AlarmBytes_c a"

definition cell_layout :: "CellVoltageItem_c \<Rightarrow> bytes" where
  "cell_layout c = CellNo_c c # PutUint16 (CellInfoVoltage_c (CellInfo_of_c c))"

definition subsys_layout :: "SubsystemVoltage_c \<Rightarrow> bytes" where
  "subsys_layout s =
     [SubsysNo_c s] @ PutUint16 (Voltage_c s) @ PutUint16 (Current_c s) @ PutUint16 (CellCount_c s)
     @ concat (map cell_layout (Cells_c s))"

definition voltage_layout :: "VoltageInfo_c \<Rightarrow> bytes" where
  "voltage_layout v = PutUint16 (SubsysCount_c v) @ concat (map subsys_layout (SubsystemVoltages_c v))"

definition subsys_temp_layout :: "SubsystemTemperature_c \<Rightarrow> bytes" where
  "subsys_temp_layout s = [TSubsysNo_c s] @ PutUint16 (TProbeCount_c s) @ ProbeTemperatures_c s"

definition temperature_layout :: "TemperatureInfo_c \<Rightarrow> bytes" where
  "temperature_layout t =
     PutUint16 (TSubsysCount_c t) @ concat (map subsys_temp_layout (SubsystemTemperatures_c t))"

text \<open>
  The values a layout can carry: counts agree with the lists they count. A cell carries no
  temperature on the wire, and the decoder leaves it 0.
\<close>

definition motors_valid :: "MotorInfo_c list \<Rightarrow> bool" where
  "motors_valid ms \<longleftrightarrow> length ms < 256"

definition fuelcell_valid :: "FuelCellInfo_c \<Rightarrow> bool" where
  "fuelcell_valid f \<longleftrightarrow> unat (ProbeCount_c f) = length (ProbeTemps_c f)"

definition alarm_valid :: "AlarmInfo_c \<Rightarrow> bool" where
  "alarm_valid a \<longleftrightarrow> unat (AlarmByteLen_c a) = length (AlarmBytes_c a)"

definition subsys_valid :: "SubsystemVoltage_c \<Rightarrow> bool" where
  "subsys_valid s \<longleftrightarrow> unat (CellCount_c s) = length (Cells_c s) \<and>
     list_all (\<lambda>c. CellInfoTemp_c (CellInfo_of_c c) = 0) (Cells_c s)"

definition voltage_valid :: "VoltageInfo_c \<Rightarrow> bool" where
  "voltage_valid v \<longleftrightarrow> unat (SubsysCount_c v) = length (SubsystemVoltages_c v) \<and>
     list_all subsys_valid (SubsystemVoltages_c v)"

definition subsys_temp_valid :: "SubsystemTemperature_c \<Rightarrow> bool" where
  "subsys_temp_valid s \<longleftrightarrow> unat (TProbeCount_c s) = length (ProbeTemperatures_c s)"

definition temperature_valid :: "TemperatureInfo_c \<Rightarrow> bool" where
  "temperature_valid t \<longleftrightarrow> unat (TSubsysCount_c t) = length (SubsystemTemperatures_c t) \<and>
     list_all subsys_temp_valid (SubsystemTemperatures_c t)"

text \<open>Identifier, layout and validity of a decoded value of any field type.\<close>

fun decoded_id :: "decoded \<Rightarrow> byte" where
  "decoded_id (DVehicle _) = FieldVehicle"
| "decoded_id (DMotor _) = FieldMotor"
| "decoded_id (DFuelCell _) = FieldFuelCell"
| "decoded_id (DEngine _) = FieldEngine"
| "decoded_id (DPosition _) = FieldPosition"
| "decoded_id (DExtreme _) = FieldExtreme"
| "decoded_id (DAlarm _) = FieldAlarm"
| "decoded_id (DVoltage _) = FieldVoltage"
| "decoded_id (DTemperature _) = FieldTemperature"
| "decoded_id (DBytes _) = 0"

fun decoded_layout :: "decoded \<Rightarrow> bytes" where
  "decoded_layout (DVehicle v) = vehicle_layout v"
| "decoded_layout (DMotor ms) = motors_layout ms"
| "decoded_layout (DFuelCell f) = fuelcell_layout f"
| "decoded_layout (DEngine e) = engine_layout e"
| "decoded_layout (DPosition p) = position_layout p"
| "decoded_layout (DExtreme e) = extreme_layout e"
| "decoded_layout (DAlarm a) = alarm_layout a"
| "decoded_layout (DVoltage v) = voltage_layout v"
| "decoded_layout (DTemperature t) = temperature_layout t"
| "decoded_layout (DBytes b) = b"

fun decoded_valid :: "decoded \<Rightarrow> bool" where
  "decoded_valid (DVehicle v) = True"
| "decoded_valid (DMotor ms) = motors_valid ms"
| "decoded_valid (DFuelCell f) = fuelcell_valid f"
| "decoded_valid (DEngine e) = True"
| "decoded_valid (DPosition p) = True"
| "decoded_valid (DExtreme e) = True"
| "decoded_valid (DAlarm a) = alarm_valid a"
| "decoded_valid (DVoltage v) = voltage_valid v"
| "decoded_valid (DTemperature t) = temperature_valid t"
| "decoded_valid (DBytes b) = False"

end
