(* ===== verification/Codec_Props.thy ===== *)
theory Codec_Props
  imports Codec
begin

text \<open>
  The contract of a field decoder against its layout, as locales, the interpretation for every
  decoder of package \<^verbatim>\<open>codec\<close>, and the properties that follow.
\<close>

section \<open>Interfaces\<close>

text \<open>
  A decoder reads back what its layout wrote, whatever follows, and never panics.
\<close>

locale wire_field =
  fixes dec :: "bytes \<Rightarrow> (go_error + 'a) option"
    and layout :: "'a \<Rightarrow> bytes"
    and valid :: "'a \<Rightarrow> bool"
  assumes dec_layout: "valid x \<Longrightarrow> dec (layout x @ r) = Some (Inr x)"
    and dec_total: "\<exists>res. dec b = Some res"
begin

lemma self_delimiting: "valid x \<Longrightarrow> valid y \<Longrightarrow> layout x @ r = layout y @ s \<Longrightarrow> x = y \<and> r = s"
  using dec_layout [of x r] dec_layout [of y s] by (metis Inr_inject option.inject same_append_eq)

lemma layout_inj: "valid x \<Longrightarrow> valid y \<Longrightarrow> layout x = layout y \<Longrightarrow> x = y"
  using self_delimiting [of x y "[]" "[]"] by simp

end

text \<open>
  A fixed-size field: every value has a layout of \<open>n\<close> bytes, every \<open>n\<close> bytes are the layout of a
  value, and shorter input is an error.
\<close>

locale fixed_field =
  fixes dec :: "bytes \<Rightarrow> (go_error + 'a) option"
    and layout :: "'a \<Rightarrow> bytes"
    and n :: nat
  assumes length_layout: "length (layout x) = n"
    and fixed_dec_layout: "dec (layout x @ r) = Some (Inr x)"
    and layout_onto: "length b = n \<Longrightarrow> \<exists>x. layout x = b"
    and dec_short: "length b < n \<Longrightarrow> \<exists>e. dec b = Some (Inl e)"
begin

lemma dec_long: "n \<le> length b \<Longrightarrow> \<exists>x. dec b = Some (Inr x) \<and> layout x = take n b"
  using layout_onto [of "take n b"] fixed_dec_layout [of _ "drop n b"]
  by (metis append_take_drop_id length_take min.absorb2)

lemma dec_iff: "dec b = Some (Inr x) \<longleftrightarrow> n \<le> length b \<and> layout x = take n b"
proof
  assume d: "dec b = Some (Inr x)"
  then have "n \<le> length b" using dec_short [of b] by (metis Inr_Inl_False not_le option.inject)
  with dec_long [of b] d show "n \<le> length b \<and> layout x = take n b" by auto
next
  assume "n \<le> length b \<and> layout x = take n b"
  then show "dec b = Some (Inr x)"
    using fixed_dec_layout [of x "drop n b"] by simp
qed

lemma dec_error_iff: "(\<exists>e. dec b = Some (Inl e)) \<longleftrightarrow> length b < n"
  using dec_short [of b] dec_long [of b] by (metis Inr_Inl_False not_le option.inject)

end

sublocale fixed_field \<subseteq> wire_field dec layout "\<lambda>_. True"
proof
  show "dec (layout x @ r) = Some (Inr x)" for x r by (rule fixed_dec_layout)
  show "\<exists>res. dec b = Some res" for b using dec_short [of b] dec_long [of b] by (metis not_le)
qed

section \<open>Fixed-size fields\<close>

lemmas layout_defs =
  vehicle_layout_def engine_layout_def position_layout_def extreme_layout_def motor_layout_def
  PutUint16_def PutUint32_def

lemma length_Suc_ex: "length b = Suc n \<longleftrightarrow> (\<exists>x b'. b = x # b' \<and> length b' = n)"
  by (rule length_Suc_conv)

lemmas bytes_of_length = length_Suc_ex numeral_eq_Suc

interpretation vehicle: fixed_field DecodeVehicleData vehicle_layout 20
proof
  fix b :: bytes
  assume "length b = 20"
  then obtain b0 b1 b2 b3 b4 b5 b6 b7 b8 b9 b10 b11 b12 b13 b14 b15 b16 b17 b18 b19 where
    "b = [b0, b1, b2, b3, b4, b5, b6, b7, b8, b9, b10, b11, b12, b13, b14, b15, b16, b17, b18, b19]"
    by (auto simp: bytes_of_length)
  then have "vehicle_layout
      \<lparr>VehicleStatus_c = b0, ChargingStatus_c = b1, RunMode_c = b2, Speed_c = be16 b3 b4,
       Odometer_c = be32 b5 b6 b7 b8, TotalVoltage_c = be16 b9 b10, TotalCurrent_c = be16 b11 b12,
       SOC_c = b13, DCStatus_c = b14, Gear_c = b15, InsulationRes_c = be16 b16 b17,
       Reserved_c = be16 b18 b19\<rparr> = b"
    by (simp add: vehicle_layout_def)
  then show "\<exists>x. vehicle_layout x = b" by blast
qed (auto simp: DecodeVehicleData_def layout_defs wire)

interpretation engine: fixed_field DecodeEngineData engine_layout 5
proof
  fix b :: bytes
  assume "length b = 5"
  then obtain b0 b1 b2 b3 b4 where "b = [b0, b1, b2, b3, b4]" by (auto simp: bytes_of_length)
  then have "engine_layout \<lparr>EngineStatus_c = b0, CrankSpeed_c = be16 b1 b2, FuelRate_c = be16 b3 b4\<rparr> = b"
    by (simp add: engine_layout_def)
  then show "\<exists>x. engine_layout x = b" by blast
qed (auto simp: DecodeEngineData_def layout_defs wire)

interpretation position: fixed_field DecodePositionData position_layout 8
proof
  fix b :: bytes
  assume "length b = 8"
  then obtain b0 b1 b2 b3 b4 b5 b6 b7 where "b = [b0, b1, b2, b3, b4, b5, b6, b7]"
    by (auto simp: bytes_of_length)
  then have "position_layout \<lparr>Longitude_c = be32 b0 b1 b2 b3, Latitude_c = be32 b4 b5 b6 b7\<rparr> = b"
    by (simp add: position_layout_def)
  then show "\<exists>x. position_layout x = b" by blast
qed (auto simp: DecodePositionData_def layout_defs wire)

interpretation extreme: fixed_field DecodeExtremeData extreme_layout 10
proof
  fix b :: bytes
  assume "length b = 10"
  then obtain b0 b1 b2 b3 b4 b5 b6 b7 b8 b9 where "b = [b0, b1, b2, b3, b4, b5, b6, b7, b8, b9]"
    by (auto simp: bytes_of_length)
  then have "extreme_layout
      \<lparr>MaxBatteryVoltage_c = be16 b0 b1, MaxBatteryVoltageCode_c = b2,
       MinBatteryVoltage_c = be16 b3 b4, MinBatteryVoltageCode_c = b5,
       MaxTemp_c = b6, MaxTempCode_c = b7, MinTemp_c = b8, MinTempCode_c = b9\<rparr> = b"
    by (simp add: extreme_layout_def)
  then show "\<exists>x. extreme_layout x = b" by blast
qed (auto simp: DecodeExtremeData_def layout_defs wire)

section \<open>Fields of variable size\<close>

text \<open>Each loop never panics, and reads back the layouts it finds at its position.\<close>

lemma motor_at_layout: "motor_at (pre @ motor_layout m @ r) (length pre) = Some m"
  by (simp add: motor_at_def motor_layout_def PutUint16_def wire)

lemma length_motor_layout [simp]: "length (motor_layout m) = 12"
  by (simp add: motor_layout_def)

lemma motor_loop_total: "\<exists>ms. motor_loop data count i p motors = Some ms \<and> length ms = length motors"
proof (induction data count i p motors rule: motor_loop.induct)
  case (1 data count i p motors)
  show ?case
  proof (cases "i < count \<and> p + 12 \<le> length data")
    case True
    then obtain m where m: "motor_at data p = Some m" by (simp add: motor_at_def total)
    with True "1.IH" show ?thesis by (subst motor_loop.simps) fastforce
  next
    case False
    then show ?thesis by (subst motor_loop.simps) auto
  qed
qed

lemma motor_loop_layout:
  "length acc = i + length ms \<Longrightarrow>
   motor_loop (pre @ concat (map motor_layout ms) @ r) (i + length ms) i (length pre) acc =
     Some (take i acc @ ms)"
proof (induction ms arbitrary: pre i acc)
  case Nil
  then show ?case by (simp add: motor_loop.simps)
next
  case (Cons m ms)
  let ?d = "pre @ concat (map motor_layout (m # ms)) @ r"
  have d: "?d = (pre @ motor_layout m) @ concat (map motor_layout ms) @ r" by simp
  have "motor_at ?d (length pre) = Some m"
    using motor_at_layout [of pre m "concat (map motor_layout ms) @ r"] by simp
  then have "motor_loop ?d (i + length (m # ms)) i (length pre) acc =
      motor_loop ?d (Suc i + length ms) (Suc i) (length (pre @ motor_layout m)) (acc[i := m])"
    by (subst motor_loop.simps) simp
  also have "\<dots> = Some (take (Suc i) (acc[i := m]) @ ms)"
    unfolding d using Cons.prems by (intro Cons.IH) simp
  finally show ?case using Cons.prems by (simp add: take_Suc_conv_app_nth)
qed

interpretation motors: wire_field DecodeMotorData motors_layout motors_valid
proof
  fix ms r
  assume v: "motors_valid ms"
  have "motor_loop ([word_of_nat (length ms)] @ concat (map motor_layout ms) @ r) (0 + length ms) 0
      (length [word_of_nat (length ms) :: byte]) (replicate (length ms) zero_motor) =
      Some (take 0 (replicate (length ms) zero_motor) @ ms)"
    by (rule motor_loop_layout) simp
  then show "DecodeMotorData (motors_layout ms @ r) = Some (Inr ms)"
    using v by (simp add: DecodeMotorData_def motors_layout_def motors_valid_def wire unat_of_nat_byte)
next
  fix b
  show "\<exists>res. DecodeMotorData b = Some res"
    using motor_loop_total [of b "unat (b ! 0)" 0 1 "replicate (unat (b ! 0)) zero_motor"]
    by (auto simp: DecodeMotorData_def idx_def)
qed

interpretation fuelcell: wire_field DecodeFuelCellData fuelcell_layout fuelcell_valid
proof
  fix f r
  assume v: "fuelcell_valid f"
  let ?pre = "PutUint16 (CellVoltage_c f) @ PutUint16 (CellCurrent_c f) @
    PutUint16 (FuelConsumption_c f) @ PutUint16 (ProbeCount_c f)"
  let ?n = "length (ProbeTemps_c f)"
  define tl where "tl = PutUint16 (H2MaxTemp_c f) @ [H2MaxTempProbe_c f]
     @ PutUint16 (H2MaxConcentration_c f) @ [H2MaxConcentrationSensor_c f]
     @ PutUint16 (H2PressureMax_c f) @ [H2PressureMaxSensor_c f]
     @ PutUint16 (H2PressureMin_c f) @ [H2PressureMinSensor_c f] @ [DCDCStatus_c f] @ r"
  let ?d = "fuelcell_layout f @ r"
  have d: "?d = (?pre @ ProbeTemps_c f) @ tl"
    by (simp add: fuelcell_layout_def tl_def)
  have l: "length (?pre @ ProbeTemps_c f) = 8 + ?n" by simp
  have hd: "u16_at ?d 0 = Some (CellVoltage_c f)" "u16_at ?d 2 = Some (CellCurrent_c f)"
    "u16_at ?d 4 = Some (FuelConsumption_c f)" "u16_at ?d 6 = Some (ProbeCount_c f)"
    by (simp_all add: fuelcell_layout_def wire)
  have pr: "slice ?d 8 (8 + ?n) = Some (ProbeTemps_c f)"
    unfolding d append_assoc [of ?pre] by (rule slice_append_mid) simp_all
  have rd: "u16_at ?d (8 + ?n + k) = u16_at tl k" "idx ?d (8 + ?n + k) = idx tl k" for k
    unfolding d l [symmetric] by (simp_all only: u16_at_append_add idx_append_add)
  note rd' = rd(1) [of 0, simplified] rd(2) [of 2, simplified] rd(1) [of 3, simplified]
    rd(2) [of 5, simplified] rd(1) [of 6, simplified] rd(2) [of 8, simplified]
    rd(1) [of 9, simplified] rd(2) [of 11, simplified] rd(2) [of 12, simplified]
  have len: "length (fuelcell_layout f) = 21 + ?n" by (simp add: fuelcell_layout_def)
  have tl: "u16_at tl 0 = Some (H2MaxTemp_c f)" "idx tl 2 = Some (H2MaxTempProbe_c f)"
    "u16_at tl 3 = Some (H2MaxConcentration_c f)" "idx tl 5 = Some (H2MaxConcentrationSensor_c f)"
    "u16_at tl 6 = Some (H2PressureMax_c f)" "idx tl 8 = Some (H2PressureMaxSensor_c f)"
    "u16_at tl 9 = Some (H2PressureMin_c f)" "idx tl 11 = Some (H2PressureMinSensor_c f)"
    "idx tl 12 = Some (DCDCStatus_c f)"
    by (simp_all add: tl_def PutUint16_def wire)
  show "DecodeFuelCellData ?d = Some (Inr f)"
    using v by (simp add: DecodeFuelCellData_def hd pr rd' tl len fuelcell_valid_def Let_def)
next
  fix b
  show "\<exists>res. DecodeFuelCellData b = Some res"
    by (cases "length b < 8") (auto simp: DecodeFuelCellData_def total Let_def)
qed

interpretation alarm: wire_field DecodeAlarmData alarm_layout alarm_valid
proof
  fix a r
  assume v: "alarm_valid a"
  let ?d = "alarm_layout a @ r"
  have "slice ?d 5 (5 + length (AlarmBytes_c a)) = Some (AlarmBytes_c a)"
    unfolding alarm_layout_def append_assoc
    using slice_append_mid [of "[MaxLevel_c a] @ PutUint32 (AlarmByteLen_c a)" 5 "AlarmBytes_c a" _ r] by simp
  moreover have "idx ?d 0 = Some (MaxLevel_c a)" "u32_at ?d 1 = Some (AlarmByteLen_c a)"
    by (simp_all add: alarm_layout_def wire)
  ultimately show "DecodeAlarmData ?d = Some (Inr a)"
    using v by (simp add: DecodeAlarmData_def alarm_valid_def) (simp add: alarm_layout_def)
next
  fix b
  show "\<exists>res. DecodeAlarmData b = Some res"
    by (cases "length b < 5"; cases "b = []") (auto simp: DecodeAlarmData_def total)
qed

lemma cell_loop_total:
  "p \<le> length data \<Longrightarrow>
   \<exists>cs p'. cell_loop data count j p acc = Some (cs, p') \<and> p \<le> p' \<and> p' \<le> length data"
proof (induction data count j p acc rule: cell_loop.induct)
  case (1 data count j p acc)
  show ?case
  proof (cases "j < count \<and> p + 3 \<le> length data")
    case True
    then obtain x y where "idx data p = Some x" "u16_at data (p + 1) = Some y" by (simp add: total)
    then have "\<exists>cs p'. cell_loop data count (j + 1) (p + 3) (acc @ [\<lparr>CellNo_c = x,
        CellInfo_of_c = \<lparr>CellInfoVoltage_c = y, CellInfoTemp_c = 0\<rparr>\<rparr>]) = Some (cs, p') \<and>
        p + 3 \<le> p' \<and> p' \<le> length data"
      using True by (intro "1.IH") auto
    then show ?thesis
      using True \<open>idx data p = Some x\<close> \<open>u16_at data (p + 1) = Some y\<close>
      by (subst cell_loop.simps) auto
  next
    case False
    with "1.prems" show ?thesis by (subst cell_loop.simps) auto
  qed
qed

lemma length_cell_layout [simp]: "length (cell_layout c) = 3"
  by (simp add: cell_layout_def)

lemma cell_loop_layout:
  "list_all (\<lambda>c. CellInfoTemp_c (CellInfo_of_c c) = 0) cs \<Longrightarrow>
   cell_loop (pre @ concat (map cell_layout cs) @ r) (j + length cs) j (length pre) acc =
     Some (acc @ cs, length pre + 3 * length cs)"
proof (induction cs arbitrary: pre j acc)
  case Nil
  then show ?case by (simp add: cell_loop.simps)
next
  case (Cons c cs)
  let ?d = "pre @ concat (map cell_layout (c # cs)) @ r"
  have d: "?d = (pre @ cell_layout c) @ concat (map cell_layout cs) @ r" by simp
  have rd: "idx ?d (length pre) = Some (CellNo_c c)"
    "u16_at ?d (length pre + 1) = Some (CellInfoVoltage_c (CellInfo_of_c c))"
    by (simp_all add: cell_layout_def wire)
  have c: "\<lparr>CellNo_c = CellNo_c c, CellInfo_of_c =
      \<lparr>CellInfoVoltage_c = CellInfoVoltage_c (CellInfo_of_c c), CellInfoTemp_c = 0\<rparr>\<rparr> = c"
    using Cons.prems by (simp add: CellVoltageItem_c.equality CellInfo_c.equality)
  have "cell_loop ?d (j + length (c # cs)) j (length pre) acc =
      cell_loop ?d (Suc j + length cs) (Suc j) (length (pre @ cell_layout c)) (acc @ [c])"
    using rd c by (subst cell_loop.simps) simp
  also have "\<dots> = Some ((acc @ [c]) @ cs, length (pre @ cell_layout c) + 3 * length cs)"
    unfolding d using Cons.prems by (intro Cons.IH) simp
  finally show ?case by simp
qed

lemma voltage_loop_total:
  "p \<le> length data \<Longrightarrow> \<exists>ss. voltage_loop data count i p acc = Some ss"
proof (induction data count i p acc rule: voltage_loop.induct)
  case (1 data count i p acc)
  show ?case
  proof (cases "i < count \<and> p + 7 \<le> length data")
    case True
    then obtain a b c e where rd: "idx data p = Some a" "u16_at data (p + 1) = Some b"
      "u16_at data (p + 3) = Some c" "u16_at data (p + 5) = Some e" by (simp add: total)
    obtain cs p' where cl: "cell_loop data (unat e) 0 (p + 7) [] = Some (cs, p')" "p' \<le> length data"
      using cell_loop_total [of "p + 7" data "unat e" 0 "[]"] True by auto
    have "\<exists>ss. voltage_loop data count (i + 1) p' (acc @ [\<lparr>SubsysNo_c = a, Voltage_c = b, Current_c = c,
        CellCount_c = e, Cells_c = cs\<rparr>]) = Some ss"
      using True rd cl by (intro "1.IH") auto
    then show ?thesis using True rd cl by (subst voltage_loop.simps) simp
  next
    case False
    then show ?thesis by (subst voltage_loop.simps) auto
  qed
qed

lemma length_subsys_layout:
  "length (subsys_layout s) = 7 + 3 * length (Cells_c s)"
  by (simp add: subsys_layout_def length_concat comp_def sum_list_triv)

lemma voltage_loop_layout:
  "list_all subsys_valid ss \<Longrightarrow>
   voltage_loop (pre @ concat (map subsys_layout ss) @ r) (i + length ss) i (length pre) acc = Some (acc @ ss)"
proof (induction ss arbitrary: pre i acc)
  case Nil
  then show ?case by (simp add: voltage_loop.simps)
next
  case (Cons s ss)
  let ?d = "pre @ concat (map subsys_layout (s # ss)) @ r"
  let ?h = "[SubsysNo_c s] @ PutUint16 (Voltage_c s) @ PutUint16 (Current_c s) @ PutUint16 (CellCount_c s)"
  have d: "?d = (pre @ subsys_layout s) @ concat (map subsys_layout ss) @ r" by simp
  have d': "?d = (pre @ ?h) @ concat (map cell_layout (Cells_c s)) @ concat (map subsys_layout ss) @ r"
    by (simp add: subsys_layout_def)
  have rd: "idx ?d (length pre) = Some (SubsysNo_c s)" "u16_at ?d (length pre + 1) = Some (Voltage_c s)"
    "u16_at ?d (length pre + 3) = Some (Current_c s)" "u16_at ?d (length pre + 5) = Some (CellCount_c s)"
    unfolding d' by (simp_all add: wire)
  have v: "unat (CellCount_c s) = length (Cells_c s)"
    "list_all (\<lambda>c. CellInfoTemp_c (CellInfo_of_c c) = 0) (Cells_c s)"
    using Cons.prems by (simp_all add: subsys_valid_def)
  have "cell_loop ?d (0 + length (Cells_c s)) 0 (length (pre @ ?h)) [] =
      Some ([] @ Cells_c s, length (pre @ ?h) + 3 * length (Cells_c s))"
    unfolding d' using v(2) by (rule cell_loop_layout)
  then have cl: "cell_loop ?d (unat (CellCount_c s)) 0 (length pre + 7) [] =
      Some (Cells_c s, length (pre @ subsys_layout s))"
    by (simp add: v(1) length_subsys_layout)
  have eta: "\<lparr>SubsysNo_c = SubsysNo_c s, Voltage_c = Voltage_c s, Current_c = Current_c s,
      CellCount_c = CellCount_c s, Cells_c = Cells_c s\<rparr> = s" by (cases s) simp
  have "voltage_loop ?d (i + length (s # ss)) i (length pre) acc =
      voltage_loop ?d (Suc i + length ss) (Suc i) (length (pre @ subsys_layout s)) (acc @ [s])"
    using rd cl by (subst voltage_loop.simps) (simp add: length_subsys_layout eta)
  also have "\<dots> = Some ((acc @ [s]) @ ss)"
    unfolding d using Cons.prems by (intro Cons.IH) simp
  finally show ?case by simp
qed

interpretation voltage: wire_field DecodeVoltageData voltage_layout voltage_valid
proof
  fix v r
  assume v: "voltage_valid v"
  let ?d = "voltage_layout v @ r"
  have "voltage_loop (PutUint16 (SubsysCount_c v) @ concat (map subsys_layout (SubsystemVoltages_c v)) @ r)
      (0 + length (SubsystemVoltages_c v)) 0 (length (PutUint16 (SubsysCount_c v))) [] =
      Some ([] @ SubsystemVoltages_c v)"
    using v by (intro voltage_loop_layout) (simp add: voltage_valid_def)
  then show "DecodeVoltageData ?d = Some (Inr v)"
    using v by (simp add: DecodeVoltageData_def voltage_layout_def voltage_valid_def wire)
next
  fix b
  show "\<exists>res. DecodeVoltageData b = Some res"
    using voltage_loop_total [of 2 b "unat (be16 (b ! 0) (b ! 1))" 0 "[]"]
    by (cases "length b < 2") (auto simp: DecodeVoltageData_def total)
qed

lemma temperature_loop_total: "\<exists>ss. temperature_loop data count i p acc = Some ss"
proof (induction data count i p acc rule: temperature_loop.induct)
  case (1 data count i p acc)
  show ?case
  proof (cases "i < count \<and> p + 3 \<le> length data")
    case True
    then obtain a b where rd: "idx data p = Some a" "u16_at data (p + 1) = Some b" by (simp add: total)
    let ?n = "if p + 3 + unat b > length data then length data - (p + 3) else unat b"
    obtain t where t: "slice data (p + 3) (p + 3 + ?n) = Some t"
      using True slice_Some [of "p + 3" "p + 3 + ?n" data] by auto
    have "\<exists>ss. temperature_loop data count (i + 1) (p + 3 + ?n) (acc @ [\<lparr>TSubsysNo_c = a,
        TProbeCount_c = b, ProbeTemperatures_c = t\<rparr>]) = Some ss"
      using True rd t by (intro "1.IH") auto
    then show ?thesis using True rd t by (subst temperature_loop.simps) (simp add: Let_def)
  next
    case False
    then show ?thesis by (subst temperature_loop.simps) auto
  qed
qed

lemma length_subsys_temp_layout:
  "length (subsys_temp_layout s) = 3 + length (ProbeTemperatures_c s)"
  by (simp add: subsys_temp_layout_def)

lemma temperature_loop_layout:
  "list_all subsys_temp_valid ss \<Longrightarrow>
   temperature_loop (pre @ concat (map subsys_temp_layout ss) @ r) (i + length ss) i (length pre) acc =
     Some (acc @ ss)"
proof (induction ss arbitrary: pre i acc)
  case Nil
  then show ?case by (simp add: temperature_loop.simps)
next
  case (Cons s ss)
  let ?d = "pre @ concat (map subsys_temp_layout (s # ss)) @ r" and ?n = "length (ProbeTemperatures_c s)"
  let ?h = "[TSubsysNo_c s] @ PutUint16 (TProbeCount_c s)"
  have d: "?d = (pre @ subsys_temp_layout s) @ concat (map subsys_temp_layout ss) @ r" by simp
  have d': "?d = (pre @ ?h) @ ProbeTemperatures_c s @ concat (map subsys_temp_layout ss) @ r"
    by (simp add: subsys_temp_layout_def)
  have rd: "idx ?d (length pre) = Some (TSubsysNo_c s)" "u16_at ?d (length pre + 1) = Some (TProbeCount_c s)"
    unfolding d' by (simp_all add: wire)
  have sl: "slice ?d (length pre + 3) (length pre + 3 + ?n) = Some (ProbeTemperatures_c s)"
    unfolding d' by (rule slice_append_mid) simp_all
  have v: "unat (TProbeCount_c s) = ?n" using Cons.prems by (simp add: subsys_temp_valid_def)
  have len: "length pre + 3 + ?n \<le> length ?d" unfolding d' by simp
  have eta: "\<lparr>TSubsysNo_c = TSubsysNo_c s, TProbeCount_c = TProbeCount_c s,
      ProbeTemperatures_c = ProbeTemperatures_c s\<rparr> = s" by (cases s) simp
  have "temperature_loop ?d (i + length (s # ss)) i (length pre) acc =
      temperature_loop ?d (Suc i + length ss) (Suc i) (length (pre @ subsys_temp_layout s)) (acc @ [s])"
    using rd sl len
    by (subst temperature_loop.simps) (simp add: eta v Let_def length_subsys_temp_layout add.assoc)
  also have "\<dots> = Some ((acc @ [s]) @ ss)"
    unfolding d using Cons.prems by (intro Cons.IH) simp
  finally show ?case by simp
qed

interpretation temperature: wire_field DecodeTemperatureData temperature_layout temperature_valid
proof
  fix t r
  assume t: "temperature_valid t"
  have "temperature_loop
      (PutUint16 (TSubsysCount_c t) @ concat (map subsys_temp_layout (SubsystemTemperatures_c t)) @ r)
      (0 + length (SubsystemTemperatures_c t)) 0 (length (PutUint16 (TSubsysCount_c t))) [] =
      Some ([] @ SubsystemTemperatures_c t)"
    using t by (intro temperature_loop_layout) (simp add: temperature_valid_def)
  then show "DecodeTemperatureData (temperature_layout t @ r) = Some (Inr t)"
    using t by (simp add: DecodeTemperatureData_def temperature_layout_def temperature_valid_def wire)
next
  fix b
  show "\<exists>res. DecodeTemperatureData b = Some res"
    using temperature_loop_total [of b "unat (be16 (b ! 0) (b ! 1))" 0 2 "[]"]
    by (cases "length b < 2") (auto simp: DecodeTemperatureData_def total)
qed

section \<open>Properties\<close>

lemma tag_layout: "dec (l @ r) = Some (Inr x) \<Longrightarrow> tag c dec (l @ r) = Some (Inr (c x))"
  by (simp add: tag_def)

lemma DecodeField_layout:
  "decoded_valid x \<Longrightarrow> DecodeField (decoded_id x) (decoded_layout x @ r) = Some (Inr x)"
  by (cases x) (simp_all add: DecodeField_def decoders_def tag_layout vehicle.dec_layout
      motors.dec_layout fuelcell.dec_layout engine.dec_layout position.dec_layout
      extreme.dec_layout alarm.dec_layout voltage.dec_layout temperature.dec_layout)

lemma tag_total: "\<exists>res. dec b = Some res \<Longrightarrow> \<exists>res. tag c dec b = Some res"
  by (auto simp: tag_def)

lemmas decoders_total =
  vehicle.dec_total [THEN tag_total] motors.dec_total [THEN tag_total]
  fuelcell.dec_total [THEN tag_total] engine.dec_total [THEN tag_total]
  position.dec_total [THEN tag_total] extreme.dec_total [THEN tag_total]
  alarm.dec_total [THEN tag_total] voltage.dec_total [THEN tag_total]
  temperature.dec_total [THEN tag_total]

lemma DecodeField_Some: "\<exists>res. DecodeField fieldID data = Some res"
  by (auto simp: DecodeField_def decoders_def decoders_total)

lemma HasDecoder_iff: "HasDecoder fieldID \<longleftrightarrow> fieldID \<in> {1, 2, 3, 4, 5, 6, 7, 8, 9}"
  by (auto simp: HasDecoder_def decoders_def split: option.splits if_splits)

lemma HasDecoder_decoded_id: "decoded_valid x \<Longrightarrow> HasDecoder (decoded_id x)"
  by (cases x) (simp_all add: HasDecoder_iff)

text \<open>
  C18: for each of the nine field types, decoding the reference layout of a value gives back that
  value, whatever bytes follow it.
\<close>

theorem DecodeField_roundtrip:
  assumes "decoded_valid x"
  shows "DecodeField (decoded_id x) (decoded_layout x @ rest) = Some (Inr x)"
  using assms by (rule DecodeField_layout)

theorem DecodeField_roundtrip_witness:
  "DecodeField 0x07 ([2, 0, 0, 0, 1, 9] @ [5]) =
    Some (Inr (DAlarm \<lparr>MaxLevel_c = 2, AlarmByteLen_c = 1, AlarmBytes_c = [9]\<rparr>))"
  using DecodeField_roundtrip
    [of "DAlarm \<lparr>MaxLevel_c = 2, AlarmByteLen_c = 1, AlarmBytes_c = [9]\<rparr>" "[5]"]
  by (simp add: alarm_valid_def alarm_layout_def PutUint32_def)

text \<open>
  No field decoder panics, on any identifier and any bytes: every index and slice is guarded.
\<close>

theorem DecodeField_no_panic: "\<exists>res. DecodeField fieldID data = Some res"
  by (rule DecodeField_Some)

text \<open>
  The decoders of the fixed-size fields accept exactly the inputs that are long enough
  (20, 5, 8 and 10 bytes), and the value they return is the one whose layout the first bytes are:
  no byte is dropped, swapped or read twice.
\<close>

theorem fixed_fields_exact:
  "(DecodeVehicleData b = Some (Inr v) \<longleftrightarrow> 20 \<le> length b \<and> vehicle_layout v = take 20 b) \<and>
   (DecodeEngineData b = Some (Inr e) \<longleftrightarrow> 5 \<le> length b \<and> engine_layout e = take 5 b) \<and>
   (DecodePositionData b = Some (Inr p) \<longleftrightarrow> 8 \<le> length b \<and> position_layout p = take 8 b) \<and>
   (DecodeExtremeData b = Some (Inr x) \<longleftrightarrow> 10 \<le> length b \<and> extreme_layout x = take 10 b)"
  by (simp add: vehicle.dec_iff engine.dec_iff position.dec_iff extreme.dec_iff)

text \<open>
  The number of motors returned is always the announced count; where the data end early the
  missing motors are zero values.
\<close>

theorem DecodeMotorData_count:
  assumes "DecodeMotorData (c # data) = Some (Inr ms)"
  shows "length ms = unat c"
  using assms motor_loop_total [of "c # data" "unat c" 0 1 "replicate (unat c) zero_motor"]
  by (auto simp: DecodeMotorData_def wire)

theorem DecodeMotorData_count_witness:
  "\<exists>ms. DecodeMotorData [3, 1, 2] = Some (Inr ms) \<and> length ms = 3"
proof -
  have "DecodeMotorData [3, 1, 2] = Some (Inr [zero_motor, zero_motor, zero_motor])"
    by code_simp
  with DecodeMotorData_count [OF this] show ?thesis by simp
qed

end
