(* ===== verification/Messages.thy ===== *)
theory Messages
  imports GoTime Codec_Props
begin

text \<open>
  The message structures of \<^verbatim>\<open>packet.go\<close> and the realtime and reissue decoders of \<^verbatim>\<open>message.go\<close>:
  where a field ends, the loop over the fields of a realtime message, its second copy used for the
  items of a reissue message, and the loop over those items.
  A nil pointer is \<open>None\<close>, a nil or empty slice is \<open>[]\<close>.
\<close>

section \<open>Structures\<close>

record VehicleBaseInfo =
  VehicleStatus :: byte
  ChargingStatus :: byte
  RunMode :: byte
  Speed :: uint16
  Odometer :: uint32
  TotalVoltage :: uint16
  TotalCurrent :: uint16
  SOC :: byte
  DCStatus :: byte
  Gear :: byte
  InsulationRes :: uint16

record MotorInfo =
  MotorSeq :: byte
  MotorStatus :: byte
  ControllerTemp :: byte
  MotorSpeed :: uint16
  MotorTorque :: uint16
  MotorTemp :: byte
  MotorVoltage :: uint16
  MotorCurrent :: uint16

record FuelCellInfo =
  CellVoltage :: uint16
  CellCurrent :: uint16
  FuelConsumption :: uint16
  ProbeCount :: uint16
  ProbeTemps :: bytes
  H2MaxTemp :: uint16
  H2MaxTempProbe :: byte
  H2MaxConcentration :: uint16
  H2MaxConcentrationSensor :: byte
  H2PressureMax :: uint16
  H2PressureMaxSensor :: byte
  H2PressureMin :: uint16
  H2PressureMinSensor :: byte
  DCDCStatus :: byte

record EngineInfo =
  EngineStatus :: byte
  CrankSpeed :: uint16
  FuelRate :: uint16

record PositionInfo =
  Longitude :: uint32
  Latitude :: uint32

record ExtremeInfo =
  MaxBatteryVoltage :: uint16
  MaxBatteryVoltageCode :: byte
  MinBatteryVoltage :: uint16
  MinBatteryVoltageCode :: byte
  MaxTemp :: byte
  MaxTempCode :: byte
  MinTemp :: byte
  MinTempCode :: byte

record AlarmInfo =
  MaxLevel :: byte
  AlarmByteLen :: uint32
  AlarmBytes :: bytes

record CellInfo =
  CellInfoVoltage :: uint16
  CellInfoTemp :: byte

record CellVoltageItem =
  CellNo :: byte
  CellInfo_of :: CellInfo

record SubsystemVoltage =
  SubsysNo :: byte
  Voltage :: uint16
  Current :: uint16
  CellCount :: uint16
  Cells :: "CellVoltageItem list"

record VoltageInfo =
  SubsysCount :: uint16
  SubsystemVoltages :: "SubsystemVoltage list"

record RealtimeMessage =
  InfoTime :: Time
  VehicleData :: "VehicleBaseInfo option"
  MotorData :: "MotorInfo list"
  FuelCellData :: "FuelCellInfo option"
  EngineData :: "EngineInfo option"
  PositionData :: "PositionInfo option"
  ExtremeData :: "ExtremeInfo option"
  AlarmData :: "AlarmInfo option"
  VoltageData :: "VoltageInfo option"

record ReissueMessage =
  ReissueTime :: Time
  DataItems :: "RealtimeMessage list"

section \<open>Where a field ends\<close>

text \<open>
  The two loops of \<^verbatim>\<open>findFieldEnd\<close> that walk over the subsystems of the voltage field (7 bytes and
  three per cell) and of the temperature field (3 bytes and one per probe).
\<close>

function voltage_end_loop :: "bytes \<Rightarrow> nat \<Rightarrow> nat \<Rightarrow> nat \<Rightarrow> nat option" where
  "voltage_end_loop data subCnt i e =
     (if i < subCnt \<and> e < length data then
        if e + 7 > length data then Some e
        else do {
          cellCnt \<leftarrow> u16_at data (e + 7 - 2);
          voltage_end_loop data subCnt (i + 1) (e + 7 + unat cellCnt * 3)
        }
      else Some e)"
  by pat_completeness auto
termination
  by (relation "measure (\<lambda>(data, subCnt, i, e). subCnt - i)") auto

declare voltage_end_loop.simps [simp del]

function temperature_end_loop :: "bytes \<Rightarrow> nat \<Rightarrow> nat \<Rightarrow> nat \<Rightarrow> nat option" where
  "temperature_end_loop data subCnt i e =
     (if i < subCnt \<and> e < length data then
        if e + 3 > length data then Some e
        else do {
          probeCnt \<leftarrow> u16_at data (e + 3 - 2);
          temperature_end_loop data subCnt (i + 1) (e + 3 + unat probeCnt)
        }
      else Some e)"
  by pat_completeness auto
termination
  by (relation "measure (\<lambda>(data, subCnt, i, e). subCnt - i)") auto

declare temperature_end_loop.simps [simp del]

definition findFieldEnd :: "byte \<Rightarrow> bytes \<Rightarrow> nat \<Rightarrow> int option" where
  "findFieldEnd fieldID data p =
     (if fieldID = FieldVehicle then
        Some (if p + 20 \<le> length data then int (p + 20) else - 1)
      else if fieldID = FieldMotor then
        (if p + 1 \<le> length data then do {
           count \<leftarrow> idx data p;
           Some (int (p + 1 + unat count * 12))
         } else Some (- 1))
      else if fieldID = FieldFuelCell then
        (if p + 8 \<le> length data then do {
           probeCnt \<leftarrow> u16_at data (p + 6);
           Some (int (p + 8 + unat probeCnt + 13))
         } else Some (- 1))
      else if fieldID = FieldEngine then
        Some (if p + 5 \<le> length data then int (p + 5) else - 1)
      else if fieldID = FieldPosition then
        Some (if p + 8 \<le> length data then int (p + 8) else - 1)
      else if fieldID = FieldExtreme then
        Some (if p + 10 \<le> length data then int (p + 10) else - 1)
      else if fieldID = FieldAlarm then
        (if p + 5 \<le> length data then do {
           alarmLen \<leftarrow> u32_at data 1;
           Some (int (p + 5 + unat alarmLen))
         } else Some (- 1))
      else if fieldID = FieldVoltage then
        (if p + 2 \<le> length data then do {
           subCnt \<leftarrow> u16_at data p;
           e \<leftarrow> voltage_end_loop data (unat subCnt) 0 (p + 2);
           Some (int e)
         } else Some (- 1))
      else if fieldID = FieldTemperature then
        (if p + 2 \<le> length data then do {
           subCnt \<leftarrow> u16_at data p;
           e \<leftarrow> temperature_end_loop data (unat subCnt) 0 (p + 2);
           Some (int e)
         } else Some (- 1))
      else Some (- 1))"

lemma voltage_end_loop_total: "\<exists>e'. voltage_end_loop data subCnt i e = Some e' \<and> e \<le> e'"
proof (induction data subCnt i e rule: voltage_end_loop.induct)
  case (1 data subCnt i e)
  show ?case
  proof (cases "i < subCnt \<and> e < length data \<and> e + 7 \<le> length data")
    case True
    then obtain c where c: "u16_at data (e + 7 - 2) = Some c" by (simp add: total)
    then have "\<exists>e'. voltage_end_loop data subCnt (i + 1) (e + 7 + unat c * 3) = Some e' \<and>
        e + 7 + unat c * 3 \<le> e'"
      using True by (intro "1.IH") auto
    then show ?thesis using True c by (subst voltage_end_loop.simps) auto
  next
    case False
    then show ?thesis by (subst voltage_end_loop.simps) auto
  qed
qed

lemma temperature_end_loop_total: "\<exists>e'. temperature_end_loop data subCnt i e = Some e' \<and> e \<le> e'"
proof (induction data subCnt i e rule: temperature_end_loop.induct)
  case (1 data subCnt i e)
  show ?case
  proof (cases "i < subCnt \<and> e < length data \<and> e + 3 \<le> length data")
    case True
    then obtain c where c: "u16_at data (e + 3 - 2) = Some c" by (simp add: total)
    then have "\<exists>e'. temperature_end_loop data subCnt (i + 1) (e + 3 + unat c) = Some e' \<and>
        e + 3 + unat c \<le> e'"
      using True by (intro "1.IH") auto
    then show ?thesis using True c by (subst temperature_end_loop.simps) auto
  next
    case False
    then show ?thesis by (subst temperature_end_loop.simps) auto
  qed
qed

text \<open>The end of a field never lies before its start, and finding it never panics.\<close>

lemma findFieldEnd_cases:
  "\<exists>e. findFieldEnd fieldID data p = Some e \<and> (e = - 1 \<or> int p \<le> e)"
  using voltage_end_loop_total [of data "unat (be16 (data ! p) (data ! (p + 1)))" 0 "p + 2"]
    temperature_end_loop_total [of data "unat (be16 (data ! p) (data ! (p + 1)))" 0 "p + 2"]
  by (auto simp: findFieldEnd_def total)

lemma findFieldEnd_ge: "findFieldEnd fieldID data p = Some e \<Longrightarrow> 0 \<le> e \<Longrightarrow> int p \<le> e"
  using findFieldEnd_cases [of fieldID data p] by auto

section \<open>The decoders\<close>

definition toVehicle :: "VehicleBaseInfo_c \<Rightarrow> VehicleBaseInfo" where
  "toVehicle v =
     \<lparr>VehicleStatus = VehicleStatus_c v, ChargingStatus = ChargingStatus_c v, RunMode = RunMode_c v,
      Speed = Speed_c v, Odometer = Odometer_c v, TotalVoltage = TotalVoltage_c v,
      TotalCurrent = TotalCurrent_c v, SOC = SOC_c v, DCStatus = DCStatus_c v, Gear = Gear_c v,
      InsulationRes = InsulationRes_c v\<rparr>"

definition toMotor :: "MotorInfo_c \<Rightarrow> MotorInfo" where
  "toMotor m =
     \<lparr>MotorSeq = MotorSeq_c m, MotorStatus = MotorStatus_c m, ControllerTemp = ControllerTemp_c m,
      MotorSpeed = MotorSpeed_c m, MotorTorque = MotorTorque_c m, MotorTemp = MotorTemp_c m,
      MotorVoltage = MotorVoltage_c m, MotorCurrent = MotorCurrent_c m\<rparr>"

definition toFuelCell :: "FuelCellInfo_c \<Rightarrow> FuelCellInfo" where
  "toFuelCell fc =
     \<lparr>CellVoltage = CellVoltage_c fc, CellCurrent = CellCurrent_c fc,
      FuelConsumption = FuelConsumption_c fc, ProbeCount = ProbeCount_c fc,
      ProbeTemps = ProbeTemps_c fc, H2MaxTemp = H2MaxTemp_c fc, H2MaxTempProbe = H2MaxTempProbe_c fc,
      H2MaxConcentration = H2MaxConcentration_c fc,
      H2MaxConcentrationSensor = H2MaxConcentrationSensor_c fc,
      H2PressureMax = H2PressureMax_c fc, H2PressureMaxSensor = H2PressureMaxSensor_c fc,
      H2PressureMin = H2PressureMin_c fc, H2PressureMinSensor = H2PressureMinSensor_c fc,
      DCDCStatus = DCDCStatus_c fc\<rparr>"

definition toEngine :: "EngineInfo_c \<Rightarrow> EngineInfo" where
  "toEngine e =
     \<lparr>EngineStatus = EngineStatus_c e, CrankSpeed = CrankSpeed_c e, FuelRate = FuelRate_c e\<rparr>"

definition toPosition :: "PositionInfo_c \<Rightarrow> PositionInfo" where
  "toPosition p = \<lparr>Longitude = Longitude_c p, Latitude = Latitude_c p\<rparr>"

definition toExtreme :: "ExtremeInfo_c \<Rightarrow> ExtremeInfo" where
  "toExtreme e =
     \<lparr>MaxBatteryVoltage = MaxBatteryVoltage_c e, MaxBatteryVoltageCode = MaxBatteryVoltageCode_c e,
      MinBatteryVoltage = MinBatteryVoltage_c e, MinBatteryVoltageCode = MinBatteryVoltageCode_c e,
      MaxTemp = MaxTemp_c e, MaxTempCode = MaxTempCode_c e, MinTemp = MinTemp_c e,
      MinTempCode = MinTempCode_c e\<rparr>"

definition toAlarm :: "AlarmInfo_c \<Rightarrow> AlarmInfo" where
  "toAlarm a =
     \<lparr>MaxLevel = MaxLevel_c a, AlarmByteLen = AlarmByteLen_c a, AlarmBytes = AlarmBytes_c a\<rparr>"

definition toCell :: "CellVoltageItem_c \<Rightarrow> CellVoltageItem" where
  "toCell c =
     \<lparr>CellNo = CellNo_c c,
      CellInfo_of = \<lparr>CellInfoVoltage = CellInfoVoltage_c (CellInfo_of_c c),
        CellInfoTemp = CellInfoTemp_c (CellInfo_of_c c)\<rparr>\<rparr>"

definition toSubsystem :: "SubsystemVoltage_c \<Rightarrow> SubsystemVoltage" where
  "toSubsystem sub =
     \<lparr>SubsysNo = SubsysNo_c sub, Voltage = Voltage_c sub, Current = Current_c sub,
      CellCount = CellCount_c sub, Cells = map toCell (Cells_c sub)\<rparr>"

definition toVoltage :: "VoltageInfo_c \<Rightarrow> VoltageInfo" where
  "toVoltage v =
     \<lparr>SubsysCount = SubsysCount_c v,
      SubsystemVoltages = map toSubsystem (SubsystemVoltages_c v)\<rparr>"

text \<open>The \<^verbatim>\<open>switch fieldID\<close> of \<^verbatim>\<open>DecodeRealtimeData\<close>, with its type assertions.\<close>

definition realtime_switch :: "byte \<Rightarrow> decoded \<Rightarrow> RealtimeMessage \<Rightarrow> RealtimeMessage" where
  "realtime_switch fieldID decoded msg =
     (if fieldID = FieldVehicle then
        (case decoded of DVehicle v \<Rightarrow> msg\<lparr>VehicleData := Some (toVehicle v)\<rparr> | _ \<Rightarrow> msg)
      else if fieldID = FieldMotor then
        (case decoded of DMotor motors \<Rightarrow> msg\<lparr>MotorData := MotorData msg @ map toMotor motors\<rparr> | _ \<Rightarrow> msg)
      else if fieldID = FieldFuelCell then
        (case decoded of DFuelCell fc \<Rightarrow> msg\<lparr>FuelCellData := Some (toFuelCell fc)\<rparr> | _ \<Rightarrow> msg)
      else if fieldID = FieldEngine then
        (case decoded of DEngine e \<Rightarrow> msg\<lparr>EngineData := Some (toEngine e)\<rparr> | _ \<Rightarrow> msg)
      else if fieldID = FieldPosition then
        (case decoded of DPosition p \<Rightarrow> msg\<lparr>PositionData := Some (toPosition p)\<rparr> | _ \<Rightarrow> msg)
      else if fieldID = FieldExtreme then
        (case decoded of DExtreme e \<Rightarrow> msg\<lparr>ExtremeData := Some (toExtreme e)\<rparr> | _ \<Rightarrow> msg)
      else if fieldID = FieldAlarm then
        (case decoded of DAlarm a \<Rightarrow> msg\<lparr>AlarmData := Some (toAlarm a)\<rparr> | _ \<Rightarrow> msg)
      else if fieldID = FieldVoltage then
        (case decoded of DVoltage v \<Rightarrow> msg\<lparr>VoltageData := Some (toVoltage v)\<rparr> | _ \<Rightarrow> msg)
      else msg)"

function realtime_loop :: "bytes \<Rightarrow> nat \<Rightarrow> RealtimeMessage \<Rightarrow> (RealtimeMessage \<times> nat) option" where
  "realtime_loop data p msg =
     (if p < length data then
        if p + 1 > length data then Some (msg, p)
        else do {
          fieldID \<leftarrow> idx data p;
          if \<not> HasDecoder fieldID then Some (msg, p)
          else do {
            fieldEnd \<leftarrow> findFieldEnd fieldID data (p + 1);
            if fieldEnd < 0 \<or> fieldEnd > int (length data) then Some (msg, p + 1)
            else do {
              fieldData \<leftarrow> slice data (p + 1) (nat fieldEnd);
              decoded \<leftarrow> DecodeField fieldID fieldData;
              (case decoded of
                 Inl err \<Rightarrow> realtime_loop data (nat fieldEnd) msg
               | Inr v \<Rightarrow> realtime_loop data (nat fieldEnd) (realtime_switch fieldID v msg))
            }
          }
        }
      else Some (msg, p))"
  by pat_completeness auto
termination
  by (relation "measure (\<lambda>(data, p, msg). length data - p)")
    (auto dest: findFieldEnd_ge simp: slice_def split: if_splits)

declare realtime_loop.simps [simp del]

definition emptyMessage :: "Time \<Rightarrow> RealtimeMessage" where
  "emptyMessage t =
     \<lparr>InfoTime = t, VehicleData = None, MotorData = [], FuelCellData = None, EngineData = None,
      PositionData = None, ExtremeData = None, AlarmData = None, VoltageData = None\<rparr>"

definition Decoder_DecodeRealtimeData :: "Decoder \<Rightarrow> bytes \<Rightarrow> (go_error + RealtimeMessage) option" where
  "Decoder_DecodeRealtimeData d data =
     (if length data < 6 then Some (Inl (Errorf ''realtime data too short: %d bytes'' [length data]))
      else do {
        b \<leftarrow> slice data 0 6;
        t \<leftarrow> decodeTime6 d b;
        (msg, p) \<leftarrow> realtime_loop data 6 (emptyMessage t);
        Some (Inr msg)
      })"

text \<open>The package-level function uses the default decoder, whose time codec is BCD.\<close>

definition defaultDecoder :: Decoder where
  "defaultDecoder = NewDecoder\<lparr>timeCodec := TimeCodecBCD\<rparr>"

definition DecodeRealtimeData :: "bytes \<Rightarrow> (go_error + RealtimeMessage) option" where
  "DecodeRealtimeData data = Decoder_DecodeRealtimeData defaultDecoder data"

text \<open>The second copy of the loop, for one item of a reissue message; it also returns its position.\<close>

definition item_switch :: "byte \<Rightarrow> decoded \<Rightarrow> RealtimeMessage \<Rightarrow> RealtimeMessage" where
  "item_switch fieldID decoded msg =
     (if fieldID = FieldVehicle then
        (case decoded of DVehicle v \<Rightarrow> msg\<lparr>VehicleData := Some (toVehicle v)\<rparr> | _ \<Rightarrow> msg)
      else if fieldID = FieldMotor then
        (case decoded of DMotor motors \<Rightarrow> msg\<lparr>MotorData := MotorData msg @ map toMotor motors\<rparr> | _ \<Rightarrow> msg)
      else if fieldID = FieldFuelCell then
        (case decoded of DFuelCell fc \<Rightarrow> msg\<lparr>FuelCellData := Some (toFuelCell fc)\<rparr> | _ \<Rightarrow> msg)
      else if fieldID = FieldEngine then
        (case decoded of DEngine e \<Rightarrow> msg\<lparr>EngineData := Some (toEngine e)\<rparr> | _ \<Rightarrow> msg)
      else if fieldID = FieldPosition then
        (case decoded of DPosition p \<Rightarrow> msg\<lparr>PositionData := Some (toPosition p)\<rparr> | _ \<Rightarrow> msg)
      else if fieldID = FieldExtreme then
        (case decoded of DExtreme e \<Rightarrow> msg\<lparr>ExtremeData := Some (toExtreme e)\<rparr> | _ \<Rightarrow> msg)
      else if fieldID = FieldAlarm then
        (case decoded of DAlarm a \<Rightarrow> msg\<lparr>AlarmData := Some (toAlarm a)\<rparr> | _ \<Rightarrow> msg)
      else if fieldID = FieldVoltage then
        (case decoded of DVoltage v \<Rightarrow> msg\<lparr>VoltageData := Some (toVoltage v)\<rparr> | _ \<Rightarrow> msg)
      else msg)"

function item_loop :: "bytes \<Rightarrow> nat \<Rightarrow> RealtimeMessage \<Rightarrow> (RealtimeMessage \<times> nat) option" where
  "item_loop data p msg =
     (if p < length data then
        if p + 1 > length data then Some (msg, p)
        else do {
          fieldID \<leftarrow> idx data p;
          if \<not> HasDecoder fieldID then Some (msg, p)
          else do {
            fieldEnd \<leftarrow> findFieldEnd fieldID data (p + 1);
            if fieldEnd < 0 \<or> fieldEnd > int (length data) then Some (msg, p + 1)
            else do {
              fieldData \<leftarrow> slice data (p + 1) (nat fieldEnd);
              decoded \<leftarrow> DecodeField fieldID fieldData;
              (case decoded of
                 Inl err \<Rightarrow> item_loop data (nat fieldEnd) msg
               | Inr v \<Rightarrow> item_loop data (nat fieldEnd) (item_switch fieldID v msg))
            }
          }
        }
      else Some (msg, p))"
  by pat_completeness auto
termination
  by (relation "measure (\<lambda>(data, p, msg). length data - p)")
    (auto dest: findFieldEnd_ge simp: slice_def split: if_splits)

declare item_loop.simps [simp del]

definition decodeRealtimeItem :: "Decoder \<Rightarrow> bytes \<Rightarrow> (go_error + RealtimeMessage \<times> nat) option" where
  "decodeRealtimeItem d data =
     (if length data < 6 then Some (Inl (Errorf ''realtime item too short: %d bytes'' [length data]))
      else do {
        b \<leftarrow> slice data 0 6;
        t \<leftarrow> decodeTime6 d b;
        (msg, p) \<leftarrow> item_loop data 6 (emptyMessage t);
        Some (Inr (msg, p))
      })"

function reissue_loop ::
  "Decoder \<Rightarrow> bytes \<Rightarrow> nat \<Rightarrow> nat \<Rightarrow> nat \<Rightarrow> RealtimeMessage list \<Rightarrow> RealtimeMessage list option" where
  "reissue_loop d data totalItems i p items =
     (if i < totalItems \<and> p < length data then do {
        rest \<leftarrow> slice data p (length data);
        r \<leftarrow> decodeRealtimeItem d rest;
        (case r of
           Inl err \<Rightarrow> Some items
         | Inr (item, consumed) \<Rightarrow>
             reissue_loop d data totalItems (i + 1) (p + consumed) (items @ [item]))
      } else Some items)"
  by pat_completeness auto
termination
  by (relation "measure (\<lambda>(d, data, totalItems, i, p, items). totalItems - i)") auto

declare reissue_loop.simps [simp del]

definition Decoder_DecodeReissueData :: "Decoder \<Rightarrow> bytes \<Rightarrow> (go_error + ReissueMessage) option" where
  "Decoder_DecodeReissueData d data =
     (if length data < 8 then Some (Inl (Errorf ''reissue data too short: %d bytes'' [length data]))
      else do {
        b \<leftarrow> slice data 0 6;
        infoTime \<leftarrow> decodeTime6 d b;
        totalItems \<leftarrow> u16_at data 6;
        items \<leftarrow> reissue_loop d data (unat totalItems) 0 8 [];
        Some (Inr \<lparr>ReissueTime = infoTime, DataItems = items\<rparr>)
      })"

definition DecodeReissueData :: "bytes \<Rightarrow> (go_error + ReissueMessage) option" where
  "DecodeReissueData data = Decoder_DecodeReissueData defaultDecoder data"

end
