(* ===== verification/Message_Props.thy ===== *)
theory Message_Props
  imports Messages
begin

text \<open>
  Properties of the realtime and reissue decoders: they never panic, they read back every list of
  fields that the end-of-field computation frames correctly, the two copies of the field loop
  agree, and the alarm field, whose length is read from the wrong offset, ends the message.
\<close>

section \<open>Fields whose end is found\<close>

text \<open>
  The contract between \<^verbatim>\<open>findFieldEnd\<close>, which cuts a field out of the message, and the decoder of
  that field: the field ends where the layout of its value ends.
\<close>

locale framed_field = wire_field dec layout valid
  for dec :: "bytes \<Rightarrow> (go_error + 'a) option" and layout and valid +
  fixes fid :: byte
    and con :: "'a \<Rightarrow> decoded"
  assumes known: "HasDecoder fid"
    and dispatch: "DecodeField fid b = tag con dec b"
    and field_end: "valid x \<Longrightarrow>
      findFieldEnd fid (pre @ layout x @ r) (length pre) = Some (int (length pre + length (layout x)))"
begin

lemma decode_payload: "valid x \<Longrightarrow> DecodeField fid (layout x) = Some (Inr (con x))"
  using dec_layout [of x "[]"] by (simp add: dispatch tag_def)

lemma field_step:
  assumes "valid x"
  shows "realtime_loop (pre @ fid # layout x @ r) (length pre) msg =
     realtime_loop (pre @ fid # layout x @ r) (length (pre @ fid # layout x)) (realtime_switch fid (con x) msg)"
proof -
  let ?d = "(pre @ [fid]) @ layout x @ r"
  have "findFieldEnd fid ?d (length (pre @ [fid])) = Some (int (length (pre @ [fid]) + length (layout x)))"
    using assms by (rule field_end)
  moreover have "slice ?d (length (pre @ [fid])) (length (pre @ [fid]) + length (layout x)) = Some (layout x)"
    by (rule slice_append_mid) simp_all
  moreover have "idx ?d (length pre) = Some fid" by (simp add: wire)
  ultimately have "realtime_loop ?d (length pre) msg =
      realtime_loop ?d (length pre + 1 + length (layout x)) (realtime_switch fid (con x) msg)"
    by (subst realtime_loop.simps) (simp add: known decode_payload [OF assms] nat_add_distrib flip: of_nat_Suc)
  then show ?thesis by simp
qed

end

lemma length_motors_layout [simp]: "length (motors_layout ms) = 1 + length ms * 12"
  by (simp add: motors_layout_def length_concat comp_def sum_list_triv)

lemma length_fuelcell_layout [simp]: "length (fuelcell_layout f) = 8 + length (ProbeTemps_c f) + 13"
  by (simp add: fuelcell_layout_def)

lemma findFieldEnd_fuelcell:
  "findFieldEnd FieldFuelCell (pre @ fuelcell_layout f @ r) (length pre) =
     Some (int (length pre + 8 + unat (ProbeCount_c f) + 13))"
  by (simp add: findFieldEnd_def) (simp add: fuelcell_layout_def wire)

lemma voltage_end_loop_layout:
  "list_all subsys_valid ss \<Longrightarrow>
   voltage_end_loop (pre @ concat (map subsys_layout ss) @ r) (i + length ss) i (length pre) =
     Some (length (pre @ concat (map subsys_layout ss)))"
proof (induction ss arbitrary: pre i)
  case Nil
  then show ?case by (simp add: voltage_end_loop.simps)
next
  case (Cons s ss)
  let ?d = "pre @ concat (map subsys_layout (s # ss)) @ r"
  have d: "?d = (pre @ subsys_layout s) @ concat (map subsys_layout ss) @ r" by simp
  have "u16_at ?d (length pre + 5) = Some (CellCount_c s)"
    by (simp add: subsys_layout_def wire)
  then have rd: "u16_at ?d (5 + length pre) = Some (CellCount_c s)"
    by (simp only: add.commute [of 5])
  have v: "unat (CellCount_c s) = length (Cells_c s)" using Cons.prems by (simp add: subsys_valid_def)
  have "voltage_end_loop ?d (i + length (s # ss)) i (length pre) =
      voltage_end_loop ?d (Suc i + length ss) (Suc i) (length (pre @ subsys_layout s))"
    using rd by (subst voltage_end_loop.simps) (simp add: length_subsys_layout v mult.commute add.assoc)
  also have "\<dots> = Some (length ((pre @ subsys_layout s) @ concat (map subsys_layout ss)))"
    unfolding d using Cons.prems by (intro Cons.IH) simp
  finally show ?case by simp
qed

lemma temperature_end_loop_layout:
  "list_all subsys_temp_valid ss \<Longrightarrow>
   temperature_end_loop (pre @ concat (map subsys_temp_layout ss) @ r) (i + length ss) i (length pre) =
     Some (length (pre @ concat (map subsys_temp_layout ss)))"
proof (induction ss arbitrary: pre i)
  case Nil
  then show ?case by (simp add: temperature_end_loop.simps)
next
  case (Cons s ss)
  let ?d = "pre @ concat (map subsys_temp_layout (s # ss)) @ r"
  have d: "?d = (pre @ subsys_temp_layout s) @ concat (map subsys_temp_layout ss) @ r" by simp
  have rd: "u16_at ?d (length pre + 1) = Some (TProbeCount_c s)"
    by (simp add: subsys_temp_layout_def wire)
  have v: "unat (TProbeCount_c s) = length (ProbeTemperatures_c s)"
    using Cons.prems by (simp add: subsys_temp_valid_def)
  have "temperature_end_loop ?d (i + length (s # ss)) i (length pre) =
      temperature_end_loop ?d (Suc i + length ss) (Suc i) (length (pre @ subsys_temp_layout s))"
    using rd by (subst temperature_end_loop.simps) (simp add: length_subsys_temp_layout v add.assoc)
  also have "\<dots> = Some (length ((pre @ subsys_temp_layout s) @ concat (map subsys_temp_layout ss)))"
    unfolding d using Cons.prems by (intro Cons.IH) simp
  finally show ?case by simp
qed

lemma findFieldEnd_voltage:
  assumes "voltage_valid v"
  shows "findFieldEnd FieldVoltage (pre @ voltage_layout v @ r) (length pre) =
     Some (int (length pre + length (voltage_layout v)))"
proof -
  let ?ss = "SubsystemVoltages_c v" and ?p = "pre @ PutUint16 (SubsysCount_c v)"
  have "voltage_end_loop (?p @ concat (map subsys_layout ?ss) @ r) (0 + length ?ss) 0 (length ?p) =
      Some (length (?p @ concat (map subsys_layout ?ss)))"
    using assms by (intro voltage_end_loop_layout) (simp add: voltage_valid_def)
  then show ?thesis
    using assms by (simp add: findFieldEnd_def voltage_layout_def voltage_valid_def wire)
qed

lemma findFieldEnd_temperature:
  assumes "temperature_valid t"
  shows "findFieldEnd FieldTemperature (pre @ temperature_layout t @ r) (length pre) =
     Some (int (length pre + length (temperature_layout t)))"
proof -
  let ?ss = "SubsystemTemperatures_c t" and ?p = "pre @ PutUint16 (TSubsysCount_c t)"
  have "temperature_end_loop (?p @ concat (map subsys_temp_layout ?ss) @ r) (0 + length ?ss) 0 (length ?p) =
      Some (length (?p @ concat (map subsys_temp_layout ?ss)))"
    using assms by (intro temperature_end_loop_layout) (simp add: temperature_valid_def)
  then show ?thesis
    using assms by (simp add: findFieldEnd_def temperature_layout_def temperature_valid_def wire)
qed

lemmas framed_simps = HasDecoder_iff DecodeField_def decoders_def findFieldEnd_def

interpretation fvehicle: framed_field DecodeVehicleData vehicle_layout "\<lambda>_. True" FieldVehicle DVehicle
  by unfold_locales (simp_all add: framed_simps vehicle.length_layout)

interpretation fmotors: framed_field DecodeMotorData motors_layout motors_valid FieldMotor DMotor
proof unfold_locales
  fix x pre r
  assume "motors_valid x"
  then have "idx (pre @ motors_layout x @ r) (length pre) = Some (word_of_nat (length x))"
    "unat (word_of_nat (length x) :: byte) = length x"
    by (simp_all add: motors_layout_def wire motors_valid_def unat_of_nat_byte)
  then show "findFieldEnd FieldMotor (pre @ motors_layout x @ r) (length pre) =
      Some (int (length pre + length (motors_layout x)))"
    by (simp add: findFieldEnd_def del: of_nat_unat)
qed (simp_all add: framed_simps)

interpretation ffuelcell: framed_field DecodeFuelCellData fuelcell_layout fuelcell_valid FieldFuelCell DFuelCell
proof unfold_locales
  fix f pre r
  assume "fuelcell_valid f"
  then show "findFieldEnd FieldFuelCell (pre @ fuelcell_layout f @ r) (length pre) =
      Some (int (length pre + length (fuelcell_layout f)))"
    unfolding findFieldEnd_fuelcell by (simp add: fuelcell_valid_def)
qed (simp_all add: framed_simps)

interpretation fengine: framed_field DecodeEngineData engine_layout "\<lambda>_. True" FieldEngine DEngine
  by unfold_locales (simp_all add: framed_simps engine.length_layout)

interpretation fposition: framed_field DecodePositionData position_layout "\<lambda>_. True" FieldPosition DPosition
  by unfold_locales (simp_all add: framed_simps position.length_layout)

interpretation fextreme: framed_field DecodeExtremeData extreme_layout "\<lambda>_. True" FieldExtreme DExtreme
  by unfold_locales (simp_all add: framed_simps extreme.length_layout)

interpretation fvoltage: framed_field DecodeVoltageData voltage_layout voltage_valid FieldVoltage DVoltage
  by unfold_locales (use findFieldEnd_voltage in \<open>simp_all add: HasDecoder_iff DecodeField_def decoders_def\<close>)

interpretation ftemperature: framed_field
    DecodeTemperatureData temperature_layout temperature_valid FieldTemperature DTemperature
  by unfold_locales (use findFieldEnd_temperature in \<open>simp_all add: HasDecoder_iff DecodeField_def decoders_def\<close>)

section \<open>Lists of fields\<close>

text \<open>
  The wire form of a list of fields, the message such a list describes, and the fields that
  \<^verbatim>\<open>findFieldEnd\<close> frames: all but the alarm field.
\<close>

definition field_wire :: "decoded \<Rightarrow> bytes" where
  "field_wire x = decoded_id x # decoded_layout x"

definition fields_wire :: "decoded list \<Rightarrow> bytes" where
  "fields_wire xs = concat (map field_wire xs)"

definition framed :: "decoded \<Rightarrow> bool" where
  "framed x \<longleftrightarrow> decoded_valid x \<and> decoded_id x \<noteq> FieldAlarm"

fun put_field :: "decoded \<Rightarrow> RealtimeMessage \<Rightarrow> RealtimeMessage" where
  "put_field (DVehicle v) msg = msg\<lparr>VehicleData := Some (toVehicle v)\<rparr>"
| "put_field (DMotor ms) msg = msg\<lparr>MotorData := MotorData msg @ map toMotor ms\<rparr>"
| "put_field (DFuelCell f) msg = msg\<lparr>FuelCellData := Some (toFuelCell f)\<rparr>"
| "put_field (DEngine e) msg = msg\<lparr>EngineData := Some (toEngine e)\<rparr>"
| "put_field (DPosition p) msg = msg\<lparr>PositionData := Some (toPosition p)\<rparr>"
| "put_field (DExtreme e) msg = msg\<lparr>ExtremeData := Some (toExtreme e)\<rparr>"
| "put_field (DAlarm a) msg = msg\<lparr>AlarmData := Some (toAlarm a)\<rparr>"
| "put_field (DVoltage v) msg = msg\<lparr>VoltageData := Some (toVoltage v)\<rparr>"
| "put_field (DTemperature t) msg = msg"
| "put_field (DBytes b) msg = msg"

definition fields_message :: "Time \<Rightarrow> decoded list \<Rightarrow> RealtimeMessage" where
  "fields_message t xs = fold put_field xs (emptyMessage t)"

text \<open>The loop stops at the end of the data and before a byte that is no field identifier.\<close>

definition stops :: "bytes \<Rightarrow> bool" where
  "stops r \<longleftrightarrow> r = [] \<or> \<not> HasDecoder (hd r)"

lemma fields_wire_simps [simp]:
  "fields_wire [] = []" "fields_wire (x # xs) = decoded_id x # decoded_layout x @ fields_wire xs"
  by (simp_all add: fields_wire_def field_wire_def)

lemma realtime_switch_put_field: "realtime_switch (decoded_id x) x msg = put_field x msg"
  by (cases x) (simp_all add: realtime_switch_def)

lemma item_switch_eq: "item_switch = realtime_switch"
  by (intro ext) (simp add: item_switch_def realtime_switch_def)

lemmas framed_steps =
  fvehicle.field_step fmotors.field_step ffuelcell.field_step fengine.field_step
  fposition.field_step fextreme.field_step fvoltage.field_step ftemperature.field_step

lemma realtime_loop_field:
  assumes "framed x"
  shows "realtime_loop (pre @ field_wire x @ r) (length pre) msg =
     realtime_loop (pre @ field_wire x @ r) (length (pre @ field_wire x)) (put_field x msg)"
  using assms framed_steps [where pre = pre and r = r and msg = msg]
  by (cases x) (simp_all add: framed_def field_wire_def flip: realtime_switch_put_field)

lemma realtime_loop_fields:
  "list_all framed xs \<Longrightarrow>
   realtime_loop (pre @ fields_wire xs @ r) (length pre) msg =
     realtime_loop (pre @ fields_wire xs @ r) (length (pre @ fields_wire xs)) (fold put_field xs msg)"
proof (induction xs arbitrary: pre msg)
  case (Cons x xs)
  have d: "pre @ fields_wire (x # xs) @ r = (pre @ field_wire x) @ fields_wire xs @ r"
    by (simp add: field_wire_def)
  have "realtime_loop (pre @ field_wire x @ fields_wire xs @ r) (length pre) msg =
      realtime_loop ((pre @ field_wire x) @ fields_wire xs @ r) (length (pre @ field_wire x)) (put_field x msg)"
    using Cons.prems by (simp add: realtime_loop_field)
  also have "\<dots> = realtime_loop ((pre @ field_wire x) @ fields_wire xs @ r)
      (length ((pre @ field_wire x) @ fields_wire xs)) (fold put_field xs (put_field x msg))"
    using Cons.prems by (intro Cons.IH) simp
  finally show ?case by (simp add: field_wire_def)
qed simp

lemma realtime_loop_stops:
  assumes "stops r"
  shows "realtime_loop (pre @ r) (length pre) msg = Some (msg, length pre)"
  using assms by (cases r) (subst realtime_loop.simps; simp add: stops_def wire)+

text \<open>One turn of the loop over a field that fits, and the invariant rule that follows.\<close>

lemma realtime_loop_turn:
  assumes "p < length data" "HasDecoder (data ! p)"
    and "findFieldEnd (data ! p) data (p + 1) = Some e" "0 \<le> e" "e \<le> int (length data)"
  shows "p < nat e \<and> nat e \<le> length data \<and> (\<exists>fd.
     (\<exists>err. DecodeField (data ! p) fd = Some (Inl err) \<and>
        realtime_loop data p msg = realtime_loop data (nat e) msg) \<or>
     (\<exists>v. DecodeField (data ! p) fd = Some (Inr v) \<and>
        realtime_loop data p msg = realtime_loop data (nat e) (realtime_switch (data ! p) v msg)))"
proof -
  have bounds: "p + 1 \<le> nat e" "nat e \<le> length data"
    using findFieldEnd_ge [OF assms(3,4)] assms(5) by linarith+
  then obtain fd where fd: "slice data (p + 1) (nat e) = Some fd" by (simp add: slice_Some)
  obtain v where v: "DecodeField (data ! p) fd = Some v" using DecodeField_Some by blast
  have "realtime_loop data p msg = (case v of
      Inl err \<Rightarrow> realtime_loop data (nat e) msg
    | Inr x \<Rightarrow> realtime_loop data (nat e) (realtime_switch (data ! p) x msg))"
    using assms fd v by (subst realtime_loop.simps) (simp add: idx_Some split: sum.splits)
  then show ?thesis using v bounds by (cases v) auto
qed

lemma realtime_loop_halt:
  assumes "\<not> (p < length data \<and> HasDecoder (data ! p) \<and>
      (\<exists>e. findFieldEnd (data ! p) data (p + 1) = Some e \<and> 0 \<le> e \<and> e \<le> int (length data)))"
  shows "\<exists>p'. realtime_loop data p msg = Some (msg, p') \<and> p \<le> p' \<and>
      (p \<le> length data \<longrightarrow> p' \<le> length data)"
  using assms findFieldEnd_cases [of "data ! p" data "p + 1"]
  by (subst realtime_loop.simps) (auto simp: idx_def)

lemma realtime_loop_inv:
  assumes "P msg"
    and "\<And>p e fd v m. P m \<Longrightarrow> p < length data \<Longrightarrow> findFieldEnd (data ! p) data (p + 1) = Some e \<Longrightarrow>
      0 \<le> e \<Longrightarrow> e \<le> int (length data) \<Longrightarrow> DecodeField (data ! p) fd = Some (Inr v) \<Longrightarrow>
      P (realtime_switch (data ! p) v m)"
  shows "\<exists>msg' p'. realtime_loop data p msg = Some (msg', p') \<and> P msg' \<and> p \<le> p' \<and>
      (p \<le> length data \<longrightarrow> p' \<le> length data)"
  using assms(1)
proof (induction "length data - p" arbitrary: p msg rule: less_induct)
  case less
  show ?case
  proof (cases "p < length data \<and> HasDecoder (data ! p) \<and>
      (\<exists>e. findFieldEnd (data ! p) data (p + 1) = Some e \<and> 0 \<le> e \<and> e \<le> int (length data))")
    case False
    with realtime_loop_halt [OF False, of msg] less.prems show ?thesis by blast
  next
    case True
    then obtain e where e: "p < length data" "HasDecoder (data ! p)"
      "findFieldEnd (data ! p) data (p + 1) = Some e" "0 \<le> e" "e \<le> int (length data)" by blast
    from realtime_loop_turn [OF this, of msg]
    obtain m where m: "P m" "realtime_loop data p msg = realtime_loop data (nat e) m"
      and b: "p < nat e" "nat e \<le> length data"
      using less.prems assms(2) [OF less.prems e(1,3,4,5)] by blast
    from less.hyps [OF _ m(1), of "nat e"] b m(2) e(1) show ?thesis by fastforce
  qed
qed

lemma realtime_loop_Some:
  "\<exists>msg' p'. realtime_loop data p msg = Some (msg', p') \<and> p \<le> p' \<and> (p \<le> length data \<longrightarrow> p' \<le> length data)"
  using realtime_loop_inv [of "\<lambda>_. True" msg data p] by simp

lemma item_loop_eq: "item_loop data p msg = realtime_loop data p msg"
proof (induction data p msg rule: item_loop.induct)
  case (1 data p msg)
  show ?case
    by (subst item_loop.simps, subst realtime_loop.simps)
      (auto simp: item_switch_eq "1.IH" [unfolded item_switch_eq] intro!: Option.bind_cong split: sum.splits)
qed

lemma decodeRealtimeItem_fields:
  assumes t: "length tb = 6" "decodeTime6 d tb = Some t" and "list_all framed xs" "stops r"
  shows "decodeRealtimeItem d (tb @ fields_wire xs @ r) =
     Some (Inr (fields_message t xs, length (tb @ fields_wire xs)))"
proof -
  have "realtime_loop (tb @ fields_wire xs @ r) (length tb) (emptyMessage t) =
      Some (fields_message t xs, length (tb @ fields_wire xs))"
    using realtime_loop_fields [OF assms(3), of tb r "emptyMessage t"]
      realtime_loop_stops [OF assms(4), of "tb @ fields_wire xs"] by (simp add: fields_message_def)
  with t show ?thesis
    by (simp add: decodeRealtimeItem_def item_loop_eq slice_prefix)
qed

section \<open>The alarm field\<close>

lemma unat_be32_high: "unat (be32 b0 b1 b2 b3) div 2 ^ 24 = unat b0"
proof -
  have "drop_bit 24 (be32 b0 b1 b2 b3) = ucast b0"
    by (rule bit_eqI) (auto simp: be32_def bit_simps dest: bit_byte_less)
  then have "unat (drop_bit 24 (be32 b0 b1 b2 b3)) = unat b0" by simp
  then show ?thesis by (simp add: drop_bit_eq_div unat_div_distrib)
qed

lemma be32_large:
  assumes "b0 \<noteq> 0"
  shows "2 ^ 24 \<le> unat (be32 b0 b1 b2 b3)"
proof (rule ccontr)
  assume "\<not> ?thesis"
  then have "unat (be32 b0 b1 b2 b3) div 2 ^ 24 = 0" by simp
  then have "unat b0 = 0" by (simp only: unat_be32_high)
  with assms show False by (simp add: unat_eq_zero)
qed

lemma findFieldEnd_alarm:
  assumes "data ! 1 \<noteq> 0" "length data < 2 ^ 24" "findFieldEnd FieldAlarm data p = Some e"
  shows "e < 0 \<or> e > int (length data)"
proof -
  have u: "u32_at data 1 = Some (be32 (data ! 1) (data ! 2) (data ! 3) (data ! 4))" if "5 \<le> length data"
    using that by (subst u32_at_total) (simp_all add: eval_nat_numeral)
  show ?thesis
    using assms be32_large [OF assms(1), of "data ! 2" "data ! 3" "data ! 4"] u
    by (auto simp: findFieldEnd_def split: if_splits simp del: of_nat_unat)
qed

lemma realtime_loop_alarm:
  assumes "data ! 1 \<noteq> 0" "length data < 2 ^ 24" "p < length data" "data ! p = FieldAlarm"
  shows "realtime_loop data p msg = Some (msg, p + 1)"
proof -
  obtain e where e: "findFieldEnd FieldAlarm data (p + 1) = Some e" using findFieldEnd_cases by blast
  with findFieldEnd_alarm [OF assms(1,2) e] assms(3,4) show ?thesis
    by (subst realtime_loop.simps) (auto simp: idx_Some HasDecoder_iff)
qed

lemma realtime_switch_AlarmData:
  "fieldID \<noteq> FieldAlarm \<Longrightarrow> AlarmData (realtime_switch fieldID v msg) = AlarmData msg"
  by (cases v) (simp_all add: realtime_switch_def)

lemma realtime_loop_AlarmData:
  assumes "data ! 1 \<noteq> 0" "length data < 2 ^ 24"
  shows "realtime_loop data p msg = Some (msg', p') \<Longrightarrow> AlarmData msg' = AlarmData msg"
proof -
  have "\<exists>m q. realtime_loop data p msg = Some (m, q) \<and> AlarmData m = AlarmData msg \<and> p \<le> q \<and>
      (p \<le> length data \<longrightarrow> q \<le> length data)"
  proof (rule realtime_loop_inv, rule refl)
    fix p e fd v m
    assume "findFieldEnd (data ! p) data (p + 1) = Some e" "0 \<le> e" "e \<le> int (length data)"
    then have "data ! p \<noteq> FieldAlarm" using findFieldEnd_alarm [OF assms] by fastforce
    then show "AlarmData m = AlarmData msg \<Longrightarrow> AlarmData (realtime_switch (data ! p) v m) = AlarmData msg"
      using realtime_switch_AlarmData [of "data ! p" v m] by simp
  qed
  then show "realtime_loop data p msg = Some (msg', p') \<Longrightarrow> AlarmData msg' = AlarmData msg" by auto
qed

section \<open>Properties\<close>

lemma decodeTime6_default:
  assumes "2000 \<le> Year t" "Year t < 2160"
  shows "decodeTime6 defaultDecoder (encodeBCDTime t) = Some (wire_time t)"
  using parse_encode_BCD [OF assms, of "[]"]
  by (simp add: decodeTime6_def defaultDecoder_def)

lemma decode_both:
  assumes "6 \<le> length data"
  obtains msg n where "Decoder_DecodeRealtimeData d data = Some (Inr msg)"
    "decodeRealtimeItem d data = Some (Inr (msg, n))" "6 \<le> n" "n \<le> length data"
proof -
  from assms parse_time6_total [of "take 6 data" d] obtain t where t: "decodeTime6 d (take 6 data) = Some t"
    by auto
  obtain msg n where "realtime_loop data 6 (emptyMessage t) = Some (msg, n)" "6 \<le> n" "n \<le> length data"
    using realtime_loop_Some [of data 6 "emptyMessage t"] assms by blast
  with assms t show ?thesis
    by (intro that [of msg n])
      (simp_all add: Decoder_DecodeRealtimeData_def decodeRealtimeItem_def item_loop_eq slice_Some)
qed

lemma decode_short:
  "length data < 6 \<Longrightarrow> \<exists>e. Decoder_DecodeRealtimeData d data = Some (Inl e)"
  "length data < 6 \<Longrightarrow> \<exists>e. decodeRealtimeItem d data = Some (Inl e)"
  by (simp_all add: Decoder_DecodeRealtimeData_def decodeRealtimeItem_def)

lemma decodeRealtimeItem_realtime:
  assumes "decodeRealtimeItem d data = Some (Inr (msg, n))"
  shows "Decoder_DecodeRealtimeData d data = Some (Inr msg)" "6 \<le> n" "n \<le> length data" "6 \<le> length data"
proof -
  show len: "6 \<le> length data" using assms decode_short(2) [of data d] by fastforce
  show "Decoder_DecodeRealtimeData d data = Some (Inr msg)" "6 \<le> n" "n \<le> length data"
    using decode_both [OF len, of d] assms by (metis Inr_inject option.inject prod.inject)+
qed

text \<open>The time used in concrete instances.\<close>

lemma sample_time:
  "Year (Date 2026 6 15 18 48 30) = 2026" "Month (Date 2026 6 15 18 48 30) = 6"
  "wire_time (Date 2026 6 15 18 48 30) = Date 2026 6 15 18 48 30"
proof -
  show "Year (Date 2026 6 15 18 48 30) = 2026" "Month (Date 2026 6 15 18 48 30) = 6"
    by (rule accessors_Date; simp add: valid_civil_def month_lengths_def)+
  show "wire_time (Date 2026 6 15 18 48 30) = Date 2026 6 15 18 48 30"
    by (simp add: wire_time_def Date_def Let_def)
qed

text \<open>
  C2: a realtime message made of a BCD time and any list of well-formed fields (alarm excepted) is
  decoded to exactly the message that list describes, in order and whatever the fields are; bytes
  after the last field that do not start with a field identifier are ignored.
\<close>

theorem DecodeRealtimeData_fields:
  assumes "2000 \<le> Year t" "Year t < 2160" and "list_all framed xs" and "stops r"
  shows "DecodeRealtimeData (encodeBCDTime t @ fields_wire xs @ r) =
     Some (Inr (fields_message (wire_time t) xs))"
  using decodeRealtimeItem_fields [OF _ decodeTime6_default [OF assms(1,2)] assms(3,4)]
  by (simp add: DecodeRealtimeData_def decodeRealtimeItem_realtime(1))

theorem DecodeRealtimeData_fields_witness:
  "DecodeRealtimeData (encodeBCDTime (Date 2026 6 15 18 48 30)
      @ [0x04, 1, 0, 0xB4, 0, 5, 0x05, 0, 0, 0, 0x74, 0, 0, 0, 0x27] @ [0xFF]) =
     Some (Inr ((emptyMessage (Date 2026 6 15 18 48 30))
      \<lparr>EngineData := Some \<lparr>EngineStatus = 1, CrankSpeed = 180, FuelRate = 5\<rparr>,
       PositionData := Some \<lparr>Longitude = 116, Latitude = 39\<rparr>\<rparr>))"
  using DecodeRealtimeData_fields
    [of "Date 2026 6 15 18 48 30" "[DEngine \<lparr>EngineStatus_c = 1, CrankSpeed_c = 180, FuelRate_c = 5\<rparr>,
       DPosition \<lparr>Longitude_c = 116, Latitude_c = 39\<rparr>]" "[0xFF]"]
  by (simp add: sample_time framed_def stops_def HasDecoder_iff fields_message_def engine_layout_def
      position_layout_def PutUint16_def PutUint32_def toEngine_def toPosition_def)

lemma DecodeRealtimeData_Some: "\<exists>res. Decoder_DecodeRealtimeData d data = Some res"
  using decode_both [of data d] decode_short(1) [of data d] by (meson not_less)

text \<open>
  Decoding a realtime message never panics, and it is an error exactly when the six bytes of
  the time are not there: everything after the time is decoded as far as it goes.
\<close>

theorem DecodeRealtimeData_total:
  "\<exists>res. Decoder_DecodeRealtimeData d data = Some res \<and> ((\<exists>e. res = Inl e) \<longleftrightarrow> length data < 6)"
proof (cases "length data < 6")
  case False
  then obtain msg where "Decoder_DecodeRealtimeData d data = Some (Inr msg)"
    using decode_both [of data d] by (meson not_less)
  with False show ?thesis by simp
next
  case True
  with decode_short(1) [OF True, of d] show ?thesis by auto
qed

text \<open>
  The two copies of the field loop agree: an item of a reissue message is decoded to the same
  message as the same bytes in a realtime message, and the position it returns lies within them.
\<close>

theorem decodeRealtimeItem_agrees:
  assumes "decodeRealtimeItem d data = Some (Inr (msg, n))"
  shows "Decoder_DecodeRealtimeData d data = Some (Inr msg) \<and> 6 \<le> n \<and> n \<le> length data"
  using decodeRealtimeItem_realtime [OF assms] by blast

theorem decodeRealtimeItem_agrees_witness:
  "\<exists>msg. decodeRealtimeItem defaultDecoder [0x26, 6, 0x15, 0x18, 0x48, 0x30, 4, 1, 2, 3, 4, 5, 0x26] =
       Some (Inr (msg, 12)) \<and>
     Decoder_DecodeRealtimeData defaultDecoder [0x26, 6, 0x15, 0x18, 0x48, 0x30, 4, 1, 2, 3, 4, 5, 0x26] =
       Some (Inr msg)"
proof -
  obtain msg where "decodeRealtimeItem defaultDecoder
      [0x26, 6, 0x15, 0x18, 0x48, 0x30, 4, 1, 2, 3, 4, 5, 0x26] = Some (Inr (msg, 12))"
    by (simp add: decodeRealtimeItem_def slice_def decodeTime6_def defaultDecoder_def parseBCDTime6_def
        NewDecoder_def newDecoderWithConfig_def wire item_loop.simps findFieldEnd_def DecodeField_def
        decoders_def HasDecoder_iff tag_def DecodeEngineData_def)
  then show ?thesis using decodeRealtimeItem_agrees by blast
qed

text \<open>
  C30: the alarm field is not delivered. Its length is read from bytes 1 to 4 of the message, the
  month, day, hour and minute of the time: with a month byte other than 0 it exceeds every payload a
  frame can carry, so no message of fewer than 2 to the 24 bytes with such a month has alarm data.
  (A month byte of 0, which no time has, makes a short length, and the field can be decoded.)
\<close>

theorem alarm_never_decoded:
  assumes "Decoder_DecodeRealtimeData d data = Some (Inr msg)"
    and "data ! 1 \<noteq> 0" and "length data < 2 ^ 24"
  shows "AlarmData msg = None"
  using assms(1) realtime_loop_AlarmData [OF assms(2,3)]
  by (auto simp: Decoder_DecodeRealtimeData_def emptyMessage_def split: if_splits bind_splits)

theorem alarm_never_decoded_witness:
  "\<exists>msg. Decoder_DecodeRealtimeData defaultDecoder
       [0x26, 6, 0x15, 0x18, 0x48, 0x30, 7, 1, 0, 0, 0, 0] = Some (Inr msg) \<and> AlarmData msg = None"
proof -
  obtain msg where "Decoder_DecodeRealtimeData defaultDecoder
      [0x26, 6, 0x15, 0x18, 0x48, 0x30, 7, 1, 0, 0, 0, 0] = Some (Inr msg)"
    using decode_both [of "[0x26, 6, 0x15, 0x18, 0x48, 0x30, 7, 1, 0, 0, 0, 0]" defaultDecoder] by auto
  with alarm_never_decoded [OF this] show ?thesis by simp
qed

text \<open>
  And it takes the rest of the message with it: of a message with an alarm field, only the
  fields before the alarm field are delivered.
\<close>

theorem alarm_ends_message:
  assumes "2000 \<le> Year t" "Year t < 2160" and "list_all framed xs"
    and "length (encodeBCDTime t @ fields_wire xs @ FieldAlarm # rest) < 2 ^ 24"
  shows "DecodeRealtimeData (encodeBCDTime t @ fields_wire xs @ FieldAlarm # rest) =
     Some (Inr (fields_message (wire_time t) xs))"
proof -
  let ?tb = "encodeBCDTime t" let ?d = "?tb @ fields_wire xs @ FieldAlarm # rest"
  have "bcd_value (?tb ! 1) = Month t" by (simp add: encodeBCDTime_def Let_def bcd_bytes_accessors)
  then have "?tb ! 1 \<noteq> 0" using accessor_ranges [of t] by (auto simp: bcd_value_def)
  then have "?d ! 1 \<noteq> 0" by (simp add: nth_append)
  from realtime_loop_alarm [OF this assms(4), of "length (?tb @ fields_wire xs)"]
  have "realtime_loop ?d (length (?tb @ fields_wire xs)) msg = Some (msg, length (?tb @ fields_wire xs) + 1)" for msg
    by (simp add: nth_append)
  then have "realtime_loop ?d (length ?tb) (emptyMessage (wire_time t)) =
      Some (fields_message (wire_time t) xs, length (?tb @ fields_wire xs) + 1)"
    using realtime_loop_fields [OF assms(3), of ?tb "FieldAlarm # rest"]
    by (simp add: fields_message_def)
  then show ?thesis
    using decodeTime6_default [OF assms(1,2)]
    by (simp add: DecodeRealtimeData_def Decoder_DecodeRealtimeData_def slice_prefix)
qed

theorem alarm_ends_message_witness:
  "DecodeRealtimeData (encodeBCDTime (Date 2026 6 15 18 48 30)
      @ [0x04, 1, 0, 0xB4, 0, 5] @ 0x07 # [2, 0, 0, 0, 0, 0x04, 2, 0, 0, 0, 0]) =
     Some (Inr ((emptyMessage (Date 2026 6 15 18 48 30))
      \<lparr>EngineData := Some \<lparr>EngineStatus = 1, CrankSpeed = 180, FuelRate = 5\<rparr>\<rparr>))"
  using alarm_ends_message
    [of "Date 2026 6 15 18 48 30" "[DEngine \<lparr>EngineStatus_c = 1, CrankSpeed_c = 180, FuelRate_c = 5\<rparr>]"
      "[2, 0, 0, 0, 0, 0x04, 2, 0, 0, 0, 0]"]
  by (simp add: sample_time framed_def fields_message_def engine_layout_def PutUint16_def toEngine_def)

section \<open>Reissue messages\<close>

text \<open>
  An item is a time and a list of fields. The loop over the fields of one item runs on into the
  next one and stops only because the first byte of a time is no field identifier: true of the BCD
  years from 2010 on.
\<close>

type_synonym item = "Time \<times> decoded list"

definition item_wire :: "item \<Rightarrow> bytes" where
  "item_wire it = encodeBCDTime (fst it) @ fields_wire (snd it)"

definition item_ok :: "item \<Rightarrow> bool" where
  "item_ok it \<longleftrightarrow> 2010 \<le> Year (fst it) \<and> Year (fst it) < 2160 \<and> list_all framed (snd it)"

definition item_message :: "item \<Rightarrow> RealtimeMessage" where
  "item_message it = fields_message (wire_time (fst it)) (snd it)"

definition items_wire :: "item list \<Rightarrow> bytes" where
  "items_wire its = concat (map item_wire its)"

lemma stops_time:
  assumes "2010 \<le> Year t" "Year t < 2160"
  shows "stops (encodeBCDTime t @ r)"
proof -
  have "bcd_value (bcd_byte (Year t - 2000)) = Year t - 2000"
    using assms by (intro bcd_byte_eq) simp_all
  then have "10 \<le> bcd_value (bcd_byte (Year t - 2000))" using assms by simp
  moreover have "bcd_value b < 10" if "HasDecoder b" for b
    using that by (auto simp: HasDecoder_iff bcd_value_def)
  ultimately show ?thesis by (fastforce simp: stops_def encodeBCDTime_def Let_def)
qed

lemma stops_items: "list_all item_ok its \<Longrightarrow> stops r \<Longrightarrow> stops (items_wire its @ r)"
  by (cases its) (auto simp: items_wire_def item_wire_def item_ok_def stops_time)

lemma decodeRealtimeItem_item:
  assumes "item_ok it" "stops r"
  shows "decodeRealtimeItem defaultDecoder (item_wire it @ r) =
     Some (Inr (item_message it, length (item_wire it)))"
  using decodeRealtimeItem_fields [OF length_time6(1) decodeTime6_default, of "fst it" "snd it" r] assms
  by (simp add: item_ok_def item_wire_def item_message_def)

lemma length_item_wire: "6 \<le> length (item_wire it)"
  by (simp add: item_wire_def)

lemma reissue_loop_items:
  "list_all item_ok its \<Longrightarrow> stops r \<Longrightarrow>
   reissue_loop defaultDecoder (pre @ items_wire its @ r) (i + length its) i (length pre) acc =
     Some (acc @ map item_message its)"
proof (induction its arbitrary: pre i acc)
  case Nil
  then show ?case by (simp add: reissue_loop.simps)
next
  case (Cons it its)
  let ?r = "items_wire its @ r" let ?d = "pre @ items_wire (it # its) @ r"
  have d: "?d = (pre @ item_wire it) @ ?r" by (simp add: items_wire_def)
  have ok: "item_ok it" "stops ?r" using Cons.prems by (simp_all add: stops_items)
  have sl: "slice ?d (length pre) (length ?d) = Some (item_wire it @ ?r)"
    unfolding d by (simp add: slice_def)
  have "item_wire it \<noteq> []" using length_item_wire [of it] by auto
  then have lt: "length pre < length ?d" unfolding d by simp
  have "reissue_loop defaultDecoder ?d (i + length (it # its)) i (length pre) acc =
      reissue_loop defaultDecoder ?d (Suc i + length its) (Suc i) (length (pre @ item_wire it))
        (acc @ [item_message it])"
    by (subst reissue_loop.simps, subst sl) (use lt in \<open>simp add: decodeRealtimeItem_item [OF ok]\<close>)
  also have "\<dots> = Some ((acc @ [item_message it]) @ map item_message its)"
    using Cons.IH [of "pre @ item_wire it" "Suc i" "acc @ [item_message it]"] Cons.prems
    by (simp add: items_wire_def)
  finally show ?case by simp
qed

lemma reissue_loop_Some:
  "\<exists>items. reissue_loop d data totalItems i p acc = Some items \<and> length items \<le> length acc + (totalItems - i)"
proof (induction d data totalItems i p acc rule: reissue_loop.induct)
  case (1 d data n i p acc)
  show ?case
  proof (cases "i < n \<and> p < length data")
    case False
    then show ?thesis by (subst reissue_loop.simps) auto
  next
    case True
    then have sl: "slice data p (length data) = Some (drop p data)" by (simp add: slice_def)
    consider (err) e where "decodeRealtimeItem d (drop p data) = Some (Inl e)"
      | (item) msg c where "decodeRealtimeItem d (drop p data) = Some (Inr (msg, c))"
      using decode_short(2) [of "drop p data" d] decode_both [of "drop p data" d] by (meson not_less)
    then show ?thesis
    proof cases
      case err
      with True sl show ?thesis by (subst reissue_loop.simps) auto
    next
      case (item msg c)
      then show ?thesis
        using "1.IH" [OF True sl item refl refl] True sl
        by (subst reissue_loop.simps) (auto simp: add.commute [of 1])
    qed
  qed
qed

text \<open>
  C17: a reissue message with its own time, the number of items and the items one after the other is
  decoded to exactly those items in order, for every number of items up to 65535, every list of
  well-formed fields in each (alarm excepted) and times of the years 2010 to 2159.
\<close>

theorem DecodeReissueData_items:
  assumes "2000 \<le> Year t" "Year t < 2160"
    and "list_all item_ok its" and "length its < 65536" and "stops r"
  shows "DecodeReissueData (encodeBCDTime t @ PutUint16 (word_of_nat (length its)) @ items_wire its @ r) =
     Some (Inr \<lparr>ReissueTime = wire_time t, DataItems = map item_message its\<rparr>)"
proof -
  let ?h = "encodeBCDTime t @ PutUint16 (word_of_nat (length its))"
  have n: "unat (word_of_nat (length its) :: uint16) = length its"
    using assms(4) by (simp add: unat_of_nat take_bit_nat_eq_self)
  have "reissue_loop defaultDecoder (?h @ items_wire its @ r) (0 + length its) 0 (length ?h) [] =
      Some ([] @ map item_message its)"
    using assms(3,5) by (rule reissue_loop_items)
  then show ?thesis
    using decodeTime6_default [OF assms(1,2)]
    by (simp add: DecodeReissueData_def Decoder_DecodeReissueData_def slice_prefix u16_at_append n)
qed

theorem DecodeReissueData_items_witness:
  "DecodeReissueData (encodeBCDTime (Date 2026 6 15 18 48 30) @ [0, 2]
      @ (encodeBCDTime (Date 2026 6 15 18 48 30) @ [0x04, 1, 0, 0xB4, 0, 5])
      @ (encodeBCDTime (Date 2026 6 15 18 48 30) @ [])) =
     Some (Inr \<lparr>ReissueTime = Date 2026 6 15 18 48 30, DataItems =
      [(emptyMessage (Date 2026 6 15 18 48 30))
         \<lparr>EngineData := Some \<lparr>EngineStatus = 1, CrankSpeed = 180, FuelRate = 5\<rparr>\<rparr>,
       emptyMessage (Date 2026 6 15 18 48 30)]\<rparr>)"
  using DecodeReissueData_items
    [of "Date 2026 6 15 18 48 30" "[(Date 2026 6 15 18 48 30,
        [DEngine \<lparr>EngineStatus_c = 1, CrankSpeed_c = 180, FuelRate_c = 5\<rparr>]), (Date 2026 6 15 18 48 30, [])]"
      "[]"]
  by (simp add: sample_time framed_def stops_def item_ok_def items_wire_def item_wire_def item_message_def
      fields_message_def engine_layout_def PutUint16_def toEngine_def)

lemma DecodeReissueData_result:
  "\<exists>res. Decoder_DecodeReissueData d data = Some res \<and>
     (case res of Inl e \<Rightarrow> length data < 8
      | Inr msg \<Rightarrow> 8 \<le> length data \<and> length (DataItems msg) \<le> unat (be16 (data ! 6) (data ! 7)))"
proof (cases "length data < 8")
  case False
  moreover have "\<exists>t. decodeTime6 d (take 6 data) = Some t"
    using False by (intro parse_time6_total) simp
  moreover have "u16_at data 6 = Some (be16 (data ! 6) (data ! 7))"
    using False by (simp add: u16_at_total)
  ultimately show ?thesis
    using reissue_loop_Some [of d data "unat (be16 (data ! 6) (data ! 7))" 0 8 "[]"]
    by (auto simp: Decoder_DecodeReissueData_def slice_Some)
qed (simp add: Decoder_DecodeReissueData_def)

text \<open>
  Decoding a reissue message never panics, is an error exactly below eight bytes, and never
  returns more items than the message announces.
\<close>

theorem DecodeReissueData_total:
  "\<exists>res. Decoder_DecodeReissueData d data = Some res \<and>
     (case res of Inl e \<Rightarrow> length data < 8
      | Inr msg \<Rightarrow> 8 \<le> length data \<and> length (DataItems msg) \<le> unat (be16 (data ! 6) (data ! 7)))"
  by (rule DecodeReissueData_result)

end
