(* ===== verification/Payload.thy ===== *)
theory Payload
  imports Messages
begin

text \<open>
  The other payloads of \<^verbatim>\<open>decoder.go\<close>: vehicle login and logout, the login response, platform login
  and logout, parameter query and setting, length-prefixed strings, and the check of a VIN.
  Field names that several structures of \<^verbatim>\<open>packet.go\<close> share carry a prefix here.
\<close>

section \<open>Structures (packet.go)\<close>

record ConfigField =
  ConfigID :: byte
  ConfigLength :: byte
  ConfigValue :: bytes

record VehicleLoginData =
  LoginTime :: Time
  Sequence :: uint16
  ICCID :: gostring
  ConfigDataCnt :: byte
  ConfigData :: "ConfigField list"

record VehicleLogoutData =
  LogoutTime :: Time
  LogoutSequence :: uint16

record LoginResponse =
  RespLoginTime :: Time
  RespSequence :: uint16
  Result :: byte
  Token :: bytes

record PlatformLoginData =
  PlatLoginTime :: Time
  PlatSequence :: uint16
  Username :: gostring
  Password :: gostring

record PlatformLogoutData =
  PlatLogoutTime :: Time
  PlatLogoutSequence :: uint16

record ParamItem =
  ParamID :: uint32
  ParamValue :: bytes

record ParamQueryData =
  QueryTime :: Time
  QueryCount :: byte
  ParamIDs :: "uint32 list"

record ParamSettingData =
  SettingTime :: Time
  SettingCount :: byte
  Params :: "ParamItem list"

section \<open>The VIN check\<close>

text \<open>
  \<^verbatim>\<open>range\<close> over a string yields code points: the UTF-8 decoding of the language, an invalid byte
  giving the replacement character 0xFFFD and a width of 1. The bounds on the second byte exclude
  overlong forms, surrogates and values above 0x10FFFF.
\<close>

definition cont :: "byte \<Rightarrow> bool" where
  "cont b \<longleftrightarrow> 0x80 \<le> b \<and> b \<le> 0xBF"

definition second_ok :: "byte \<Rightarrow> byte \<Rightarrow> bool" where
  "second_ok b0 b1 \<longleftrightarrow>
     (if b0 = 0xE0 then 0xA0 \<le> b1 \<and> b1 \<le> 0xBF
      else if b0 = 0xED then 0x80 \<le> b1 \<and> b1 \<le> 0x9F
      else if b0 = 0xF0 then 0x90 \<le> b1 \<and> b1 \<le> 0xBF
      else if b0 = 0xF4 then 0x80 \<le> b1 \<and> b1 \<le> 0x8F
      else cont b1)"

definition DecodeRune :: "gostring \<Rightarrow> nat \<times> nat" where
  "DecodeRune s = (case s of
      [] \<Rightarrow> (0xFFFD, 0)
    | b0 # s1 \<Rightarrow>
        if b0 < 0x80 then (unat b0, 1)
        else if 0xC2 \<le> b0 \<and> b0 \<le> 0xDF then
          (case s1 of
             b1 # _ \<Rightarrow> if second_ok b0 b1 then ((unat b0 mod 32) * 64 + unat b1 mod 64, 2) else (0xFFFD, 1)
           | [] \<Rightarrow> (0xFFFD, 1))
        else if 0xE0 \<le> b0 \<and> b0 \<le> 0xEF then
          (case s1 of
             b1 # b2 # _ \<Rightarrow>
               if second_ok b0 b1 \<and> cont b2
               then ((unat b0 mod 16) * 4096 + (unat b1 mod 64) * 64 + unat b2 mod 64, 3) else (0xFFFD, 1)
           | _ \<Rightarrow> (0xFFFD, 1))
        else if 0xF0 \<le> b0 \<and> b0 \<le> 0xF4 then
          (case s1 of
             b1 # b2 # b3 # _ \<Rightarrow>
               if second_ok b0 b1 \<and> cont b2 \<and> cont b3
               then ((unat b0 mod 8) * 262144 + (unat b1 mod 64) * 4096 + (unat b2 mod 64) * 64
                 + unat b3 mod 64, 4) else (0xFFFD, 1)
           | _ \<Rightarrow> (0xFFFD, 1))
        else (0xFFFD, 1))"

lemma DecodeRune_width: "s \<noteq> [] \<Longrightarrow> 0 < snd (DecodeRune s)"
  by (cases s) (auto simp: DecodeRune_def split: list.splits)

function range_runes :: "gostring \<Rightarrow> nat list" where
  "range_runes s =
     (if s = [] then [] else fst (DecodeRune s) # range_runes (drop (snd (DecodeRune s)) s))"
  by pat_completeness auto
termination
  by (relation "measure length") (use DecodeRune_width in auto)

declare range_runes.simps [simp del]

definition VerifyVIN :: "gostring \<Rightarrow> bool" where
  "VerifyVIN vin =
     (if length vin \<noteq> VINLength then False
      else \<not> list_ex (\<lambda>c. \<not> ((0x30 \<le> c \<and> c \<le> 0x39) \<or> (0x41 \<le> c \<and> c \<le> 0x5A) \<or> (0x61 \<le> c \<and> c \<le> 0x7A)))
              (range_runes vin))"

section \<open>Login and logout\<close>

function config_loop :: "bytes \<Rightarrow> nat \<Rightarrow> nat \<Rightarrow> nat \<Rightarrow> ConfigField list \<Rightarrow> ConfigField list option" where
  "config_loop data configCnt i p configData =
     (if i < configCnt \<and> p + 2 \<le> length data then do {
        fid \<leftarrow> idx data p;
        len \<leftarrow> idx data (p + 1);
        if p + 2 + unat len > length data then Some configData
        else do {
          v \<leftarrow> slice data (p + 2) (p + 2 + unat len);
          config_loop data configCnt (i + 1) (p + 2 + unat len)
            (configData @ [\<lparr>ConfigID = fid, ConfigLength = len, ConfigValue = v\<rparr>])
        }
      } else Some configData)"
  by pat_completeness auto
termination
  by (relation "measure (\<lambda>(data, configCnt, i, p, configData). configCnt - i)") auto

declare config_loop.simps [simp del]

definition Decoder_DecodeLoginData :: "Decoder \<Rightarrow> bytes \<Rightarrow> (go_error + VehicleLoginData) option" where
  "Decoder_DecodeLoginData d data =
     (if length data < 9 then Some (Inl (Errorf ''login data too short: %d bytes'' [length data]))
      else do {
        b \<leftarrow> slice data 0 6;
        loginTime \<leftarrow> decodeTime6 d b;
        sq \<leftarrow> u16_at data 6;
        iccidLen \<leftarrow> idx data 8;
        if 9 + unat iccidLen > length data then
          Some (Inl (Errorf ''ICCID length exceeds data: %d > %d'' [9 + unat iccidLen, length data]))
        else do {
          iccid \<leftarrow> slice data 9 (9 + unat iccidLen);
          let p = 9 + unat iccidLen;
          (configCnt, configData) \<leftarrow>
            (if p < length data then do {
               configCnt \<leftarrow> idx data p;
               configData \<leftarrow> config_loop data (unat configCnt) 0 (p + 1) [];
               Some (configCnt, configData)
             } else Some (0, []));
          Some (Inr \<lparr>LoginTime = loginTime, Sequence = sq, ICCID = iccid,
            ConfigDataCnt = configCnt, ConfigData = configData\<rparr>)
        }
      })"

definition DecodeLoginData :: "bytes \<Rightarrow> (go_error + VehicleLoginData) option" where
  "DecodeLoginData data = Decoder_DecodeLoginData defaultDecoder data"

definition EncodeLoginResponse :: "LoginResponse \<Rightarrow> bytes" where
  "EncodeLoginResponse r =
     encodeTime6 (RespLoginTime r) @ PutUint16 (RespSequence r) @ [Result r] @ Token r"

definition Decoder_DecodeLogoutData :: "Decoder \<Rightarrow> bytes \<Rightarrow> (go_error + VehicleLogoutData) option" where
  "Decoder_DecodeLogoutData d data =
     (if length data < 8 then Some (Inl (Errorf ''logout data too short: %d bytes'' [length data]))
      else do {
        b \<leftarrow> slice data 0 6;
        logoutTime \<leftarrow> decodeTime6 d b;
        sq \<leftarrow> u16_at data 6;
        Some (Inr \<lparr>LogoutTime = logoutTime, LogoutSequence = sq\<rparr>)
      })"

definition DecodeLogoutData :: "bytes \<Rightarrow> (go_error + VehicleLogoutData) option" where
  "DecodeLogoutData data = Decoder_DecodeLogoutData defaultDecoder data"

section \<open>Platform login\<close>

definition EncodeParamString :: "gostring \<Rightarrow> bytes" where
  "EncodeParamString s = word_of_nat (length s) # s"

definition decodeParamString :: "bytes \<Rightarrow> (gostring \<times> nat) option" where
  "decodeParamString data =
     (if length data < 1 then Some ([], 0)
      else do {
        len \<leftarrow> idx data 0;
        if 1 + unat len > length data then Some ([], 0)
        else do {
          s \<leftarrow> slice data 1 (1 + unat len);
          Some (s, 1 + unat len)
        }
      })"

definition Decoder_DecodePlatLoginResponse ::
    "Decoder \<Rightarrow> bytes \<Rightarrow> (go_error + PlatformLoginData) option" where
  "Decoder_DecodePlatLoginResponse d data =
     (if length data < 8 then Some (Inl (Errorf ''platform login data too short: %d bytes'' [length data]))
      else do {
        b \<leftarrow> slice data 0 6;
        loginTime \<leftarrow> decodeTime6 d b;
        sq \<leftarrow> u16_at data 6;
        rest \<leftarrow> slice data 8 (length data);
        (username, n) \<leftarrow> decodeParamString rest;
        rest' \<leftarrow> slice data (8 + n) (length data);
        (password, n') \<leftarrow> decodeParamString rest';
        Some (Inr \<lparr>PlatLoginTime = loginTime, PlatSequence = sq, Username = username, Password = password\<rparr>)
      })"

definition DecodePlatLoginResponse :: "bytes \<Rightarrow> (go_error + PlatformLoginData) option" where
  "DecodePlatLoginResponse data = Decoder_DecodePlatLoginResponse defaultDecoder data"

definition Decoder_DecodePlatLogoutResponse ::
    "Decoder \<Rightarrow> bytes \<Rightarrow> (go_error + PlatformLogoutData) option" where
  "Decoder_DecodePlatLogoutResponse d data =
     (if length data < 8 then Some (Inl (Errorf ''platform logout data too short: %d bytes'' [length data]))
      else do {
        b \<leftarrow> slice data 0 6;
        logoutTime \<leftarrow> decodeTime6 d b;
        sq \<leftarrow> u16_at data 6;
        Some (Inr \<lparr>PlatLogoutTime = logoutTime, PlatLogoutSequence = sq\<rparr>)
      })"

definition DecodePlatLogoutResponse :: "bytes \<Rightarrow> (go_error + PlatformLogoutData) option" where
  "DecodePlatLogoutResponse data = Decoder_DecodePlatLogoutResponse defaultDecoder data"

section \<open>Parameters\<close>

definition binaryPutUint32 :: "uint32 \<Rightarrow> bytes" where
  "binaryPutUint32 v = PutUint32 v"

definition binaryUint32 :: "bytes \<Rightarrow> uint32 option" where
  "binaryUint32 b = Uint32 b"

function query_loop :: "bytes \<Rightarrow> nat \<Rightarrow> nat \<Rightarrow> nat \<Rightarrow> uint32 list \<Rightarrow> uint32 list option" where
  "query_loop data count i p paramIDs =
     (if i < count \<and> p + 4 \<le> length data then do {
        b \<leftarrow> slice data p (p + 4);
        v \<leftarrow> binaryUint32 b;
        query_loop data count (i + 1) (p + 4) (paramIDs @ [v])
      } else Some paramIDs)"
  by pat_completeness auto
termination
  by (relation "measure (\<lambda>(data, count, i, p, paramIDs). count - i)") auto

declare query_loop.simps [simp del]

definition Decoder_DecodeParamQueryData :: "Decoder \<Rightarrow> bytes \<Rightarrow> (go_error + ParamQueryData) option" where
  "Decoder_DecodeParamQueryData d data =
     (if length data < 7 then Some (Inl (Errorf ''param query data too short: %d bytes'' [length data]))
      else do {
        b \<leftarrow> slice data 0 6;
        queryTime \<leftarrow> decodeTime6 d b;
        count \<leftarrow> idx data 6;
        paramIDs \<leftarrow> query_loop data (unat count) 0 7 [];
        Some (Inr \<lparr>QueryTime = queryTime, QueryCount = count, ParamIDs = paramIDs\<rparr>)
      })"

definition DecodeParamQueryData :: "bytes \<Rightarrow> (go_error + ParamQueryData) option" where
  "DecodeParamQueryData data = Decoder_DecodeParamQueryData defaultDecoder data"

function setting_loop :: "bytes \<Rightarrow> nat \<Rightarrow> nat \<Rightarrow> nat \<Rightarrow> ParamItem list \<Rightarrow> ParamItem list option" where
  "setting_loop data count i p params =
     (if i < count \<and> p + 5 \<le> length data then do {
        b \<leftarrow> slice data p (p + 4);
        pid \<leftarrow> binaryUint32 b;
        valLen \<leftarrow> idx data (p + 4);
        if p + 5 + unat valLen > length data then Some params
        else do {
          v \<leftarrow> slice data (p + 5) (p + 5 + unat valLen);
          setting_loop data count (i + 1) (p + 5 + unat valLen)
            (params @ [\<lparr>ParamID = pid, ParamValue = v\<rparr>])
        }
      } else Some params)"
  by pat_completeness auto
termination
  by (relation "measure (\<lambda>(data, count, i, p, params). count - i)") auto

declare setting_loop.simps [simp del]

definition Decoder_DecodeParamSettingData :: "Decoder \<Rightarrow> bytes \<Rightarrow> (go_error + ParamSettingData) option" where
  "Decoder_DecodeParamSettingData d data =
     (if length data < 7 then Some (Inl (Errorf ''param setting data too short: %d bytes'' [length data]))
      else do {
        b \<leftarrow> slice data 0 6;
        settingTime \<leftarrow> decodeTime6 d b;
        count \<leftarrow> idx data 6;
        params \<leftarrow> setting_loop data (unat count) 0 7 [];
        Some (Inr \<lparr>SettingTime = settingTime, SettingCount = count, Params = params\<rparr>)
      })"

definition DecodeParamSettingData :: "bytes \<Rightarrow> (go_error + ParamSettingData) option" where
  "DecodeParamSettingData data = Decoder_DecodeParamSettingData defaultDecoder data"

end
