(* ===== verification/Payload_Props.thy ===== *)
theory Payload_Props
  imports Payload Message_Props
begin

text \<open>
  Properties of the payload decoders of \<^verbatim>\<open>decoder.go\<close>: round trips against the wire form of each
  payload, totality (no panic), the lengths that wrap, and the VIN check as a check of bytes.
\<close>

section \<open>The VIN check\<close>

definition alnum :: "byte \<Rightarrow> bool" where
  "alnum b \<longleftrightarrow> (0x30 \<le> b \<and> b \<le> 0x39) \<or> (0x41 \<le> b \<and> b \<le> 0x5A) \<or> (0x61 \<le> b \<and> b \<le> 0x7A)"

definition alnum_rune :: "nat \<Rightarrow> bool" where
  "alnum_rune c \<longleftrightarrow> (0x30 \<le> c \<and> c \<le> 0x39) \<or> (0x41 \<le> c \<and> c \<le> 0x5A) \<or> (0x61 \<le> c \<and> c \<le> 0x7A)"

lemma DecodeRune_ascii: "b < 0x80 \<Longrightarrow> DecodeRune (b # s) = (unat b, 1)"
  by (simp add: DecodeRune_def)

lemma alnum_iff: "alnum b \<longleftrightarrow> alnum_rune (unat b)"
  by (simp add: alnum_def alnum_rune_def word_le_nat_alt)

lemma mod_block: "q * m \<le> n \<Longrightarrow> n < q * m + m \<Longrightarrow> n mod m = n - q * (m :: nat)"
proof -
  assume n: "q * m \<le> n" "n < q * m + m"
  then have "n mod m = (n - q * m + q * m) mod m" by simp
  also have "\<dots> = (n - q * m) mod m" by (rule mod_mult_self1)
  also have "\<dots> = n - q * m" using n by (intro mod_less) linarith
  finally show ?thesis .
qed

lemma rune2_high: "0xC2 \<le> b0 \<Longrightarrow> b0 \<le> 0xDF \<Longrightarrow> 128 \<le> (unat (b0 :: byte) mod 32) * 64"
  using mod_block [of 6 32 "unat b0"] by (simp add: word_le_nat_alt)

lemma rune3_high:
  assumes "0xE0 \<le> b0" "b0 \<le> 0xEF" "second_ok b0 b1"
  shows "128 \<le> (unat b0 mod 16) * 4096 + (unat b1 mod 64) * 64"
proof (cases "b0 = 0xE0")
  case True
  then show ?thesis using assms(3) mod_block [of 2 64 "unat b1"] by (auto simp: second_ok_def word_le_nat_alt)
next
  case False
  then have "unat b0 \<noteq> unat (0xE0 :: byte)" by (simp only: word_unat_eq_iff [symmetric] not_False_eq_True)
  then have "224 < unat b0" "unat b0 \<le> 239" using assms(1,2) by (simp_all add: word_le_nat_alt)
  then show ?thesis using mod_block [of 14 16 "unat b0"] by simp
qed

lemma rune4_high:
  assumes "0xF0 \<le> b0" "b0 \<le> 0xF4" "second_ok b0 b1"
  shows "128 \<le> (unat b0 mod 8) * 262144 + (unat b1 mod 64) * 4096"
proof (cases "b0 = 0xF0")
  case True
  then show ?thesis using assms(3) mod_block [of 2 64 "unat b1"] by (auto simp: second_ok_def word_le_nat_alt)
next
  case False
  then have "unat b0 \<noteq> unat (0xF0 :: byte)" by (simp only: word_unat_eq_iff [symmetric] not_False_eq_True)
  then have "240 < unat b0" "unat b0 \<le> 244" using assms(1,2) by (simp_all add: word_le_nat_alt)
  then show ?thesis using mod_block [of 30 8 "unat b0"] by simp
qed

lemma DecodeRune_high:
  assumes "\<not> b < 0x80"
  shows "128 \<le> fst (DecodeRune (b # s))"
proof -
  have "128 \<le> unat b" using assms by (simp add: word_less_nat_alt)
  then show ?thesis
    using assms
    by (auto simp: DecodeRune_def dest: rune2_high rune3_high rune4_high split: list.split
        intro: trans_le_add1)
qed

lemma runes_alnum: "list_all alnum_rune (range_runes s) \<longleftrightarrow> list_all alnum s"
proof (induction s)
  case Nil
  then show ?case by (simp add: range_runes.simps)
next
  case (Cons b s)
  show ?case
  proof (cases "b < 0x80")
    case True
    then show ?thesis using Cons by (subst range_runes.simps) (simp add: DecodeRune_ascii alnum_iff [of b])
  next
    case False
    then have "\<not> alnum b" by (auto simp: alnum_def word_le_nat_alt word_less_nat_alt)
    moreover have "\<not> alnum_rune (fst (DecodeRune (b # s)))"
      using DecodeRune_high [OF False, of s] by (auto simp: alnum_rune_def)
    ultimately show ?thesis by (subst range_runes.simps) simp
  qed
qed

text \<open>
  Although it loops over code points, the VIN check is a check of bytes: it accepts exactly the
  strings of 17 bytes that are all ASCII digits or letters, so an accepted VIN has 17 characters
  and fills the VIN field of a frame exactly.
\<close>

theorem VerifyVIN_iff: "VerifyVIN vin \<longleftrightarrow> length vin = 17 \<and> list_all alnum vin"
  using runes_alnum [of vin]
  by (simp add: VerifyVIN_def alnum_rune_def [abs_def] Bex_set [symmetric] Ball_set [symmetric])

section \<open>Counted lists\<close>

definition config_wire :: "ConfigField \<Rightarrow> bytes" where
  "config_wire c = [ConfigID c, ConfigLength c] @ ConfigValue c"

definition config_ok :: "ConfigField \<Rightarrow> bool" where
  "config_ok c \<longleftrightarrow> unat (ConfigLength c) = length (ConfigValue c)"

definition setting_wire :: "ParamItem \<Rightarrow> bytes" where
  "setting_wire p = PutUint32 (ParamID p) @ [word_of_nat (length (ParamValue p))] @ ParamValue p"

definition setting_ok :: "ParamItem \<Rightarrow> bool" where
  "setting_ok p \<longleftrightarrow> length (ParamValue p) < 256"

interpretation config: counted_loop config_loop config_wire config_ok
proof
  show "config_loop data n n p acc = Some acc" for data n p acc by (simp add: config_loop.simps)
next
  fix x i n pre r acc
  assume x: "config_ok x" and i: "i < (n :: nat)"
  let ?d = "pre @ config_wire x @ r" let ?n = "unat (ConfigLength x)"
  have rd: "idx ?d (length pre) = Some (ConfigID x)" "idx ?d (length pre + 1) = Some (ConfigLength x)"
    by (simp_all add: config_wire_def wire)
  have sl: "slice ?d (length pre + 2) (length pre + 2 + ?n) = Some (ConfigValue x)"
    using x slice_append_mid [of "pre @ [ConfigID x, ConfigLength x]" "length pre + 2" "ConfigValue x"
      "length pre + 2 + ?n" r] by (simp add: config_wire_def config_ok_def)
  have eta: "\<lparr>ConfigID = ConfigID x, ConfigLength = ConfigLength x, ConfigValue = ConfigValue x\<rparr> = x" by simp
  have len: "length (config_wire x) = 2 + ?n" using x by (simp add: config_wire_def config_ok_def)
  show "config_loop ?d n i (length pre) acc = config_loop ?d n (i + 1) (length (pre @ config_wire x)) (acc @ [x])"
    using i rd sl by (subst config_loop.simps) (simp add: len eta add.assoc del: unsigned_less)
qed

interpretation query: counted_loop query_loop PutUint32 "\<lambda>_. True"
proof
  show "query_loop data n n p acc = Some acc" for data n p acc by (simp add: query_loop.simps)
next
  fix x i n pre r acc
  assume i: "i < (n :: nat)"
  let ?d = "pre @ PutUint32 x @ r"
  have "slice ?d (length pre) (length pre + 4) = Some (PutUint32 x)" by (rule slice_append_mid) simp_all
  then show "query_loop ?d n i (length pre) acc = query_loop ?d n (i + 1) (length (pre @ PutUint32 x)) (acc @ [x])"
    using i by (subst query_loop.simps) (simp add: binaryUint32_def wire)
qed

interpretation setting: counted_loop setting_loop setting_wire setting_ok
proof
  show "setting_loop data n n p acc = Some acc" for data n p acc by (simp add: setting_loop.simps)
next
  fix x i n pre r acc
  assume x: "setting_ok x" and i: "i < (n :: nat)"
  let ?d = "pre @ setting_wire x @ r" let ?n = "length (ParamValue x)"
  have n: "unat (word_of_nat ?n :: byte) = ?n" using x by (simp add: setting_ok_def unat_of_nat_byte)
  have rd: "idx ?d (length pre + 4) = Some (word_of_nat ?n)" by (simp add: setting_wire_def wire)
  have sl: "slice ?d (length pre) (length pre + 4) = Some (PutUint32 (ParamID x))"
    "slice ?d (length pre + 5) (length pre + 5 + ?n) = Some (ParamValue x)"
    using slice_append_mid [of pre "length pre" "PutUint32 (ParamID x)" "length pre + 4"]
      slice_append_mid [of "pre @ PutUint32 (ParamID x) @ [word_of_nat ?n]" "length pre + 5"
        "ParamValue x" "length pre + 5 + ?n" r] by (simp_all add: setting_wire_def)
  have len: "length (setting_wire x) = 5 + ?n" by (simp add: setting_wire_def)
  have eta: "\<lparr>ParamID = ParamID x, ParamValue = ParamValue x\<rparr> = x" by simp
  show "setting_loop ?d n i (length pre) acc = setting_loop ?d n (i + 1) (length (pre @ setting_wire x)) (acc @ [x])"
    using i rd sl n by (subst setting_loop.simps) (simp add: len eta binaryUint32_def wire add.assoc)
qed

section \<open>Round trips\<close>

text \<open>
  C19: vehicle login. A payload with a BCD time, a sequence number, an ICCID of up to 255 bytes and up
  to 255 configuration fields is decoded to exactly these values, whatever bytes follow.
\<close>

theorem DecodeLoginData_roundtrip:
  assumes "2000 \<le> Year t" "Year t < 2160" and "length iccid < 256"
    and "length cs < 256" and "list_all config_ok cs"
  shows "DecodeLoginData (encodeBCDTime t @ PutUint16 sq @ [word_of_nat (length iccid)] @ iccid
       @ [word_of_nat (length cs)] @ concat (map config_wire cs) @ r) =
     Some (Inr \<lparr>LoginTime = wire_time t, Sequence = sq, ICCID = iccid,
       ConfigDataCnt = word_of_nat (length cs), ConfigData = cs\<rparr>)"
proof -
  let ?h = "encodeBCDTime t @ PutUint16 sq @ [word_of_nat (length iccid)]" and ?m = "word_of_nat (length cs) :: byte"
  let ?c = "concat (map config_wire cs)" let ?d = "?h @ iccid @ [?m] @ ?c @ r"
  have h: "length ?h = 9" by simp
  have n: "unat (word_of_nat (length iccid) :: byte) = length iccid" "unat ?m = length cs"
    using assms(3,4) by (simp_all add: unat_of_nat_byte)
  have "config_loop ((?h @ iccid @ [?m]) @ ?c @ r) (0 + length cs) 0 (length (?h @ iccid @ [?m])) [] =
      Some ([] @ cs)"
    using assms(5) by (rule config.loop_items)
  then have loop: "config_loop ?d (length cs) 0 (Suc (9 + length iccid)) [] = Some cs" by simp
  have rd: "slice ?d 0 6 = Some (encodeBCDTime t)" "u16_at ?d 6 = Some sq"
    "idx ?d 8 = Some (word_of_nat (length iccid))" "idx ?d (9 + length iccid) = Some ?m"
    using idx_append_length [of "?h @ iccid" "[?m] @ ?c @ r"] by (simp_all add: slice_prefix wire)
  have "slice ?d 9 (9 + length iccid) = Some iccid" by (rule slice_append_mid) simp_all
  with rd loop n decodeTime6_default [OF assms(1,2)] have "DecodeLoginData ?d =
     Some (Inr \<lparr>LoginTime = wire_time t, Sequence = sq, ICCID = iccid,
       ConfigDataCnt = ?m, ConfigData = cs\<rparr>)"
    unfolding DecodeLoginData_def Decoder_DecodeLoginData_def by (simp add: Let_def)
  then show ?thesis by simp
qed

theorem DecodeLoginData_roundtrip_witness:
  "DecodeLoginData (encodeBCDTime (Date 2026 6 15 18 48 30) @ [0, 7, 3, 0x38, 0x39, 0x38, 1, 5, 2, 9, 9]) =
     Some (Inr \<lparr>LoginTime = Date 2026 6 15 18 48 30, Sequence = 7, ICCID = [0x38, 0x39, 0x38],
       ConfigDataCnt = 1, ConfigData = [\<lparr>ConfigID = 5, ConfigLength = 2, ConfigValue = [9, 9]\<rparr>]\<rparr>)"
  using DecodeLoginData_roundtrip [of "Date 2026 6 15 18 48 30" "[0x38, 0x39, 0x38]"
      "[\<lparr>ConfigID = 5, ConfigLength = 2, ConfigValue = [9, 9]\<rparr>]" 7 "[]"]
  by (simp add: sample_time config_ok_def config_wire_def PutUint16_def)

lemma decodeParamString_encode:
  assumes "length s < 256"
  shows "decodeParamString (EncodeParamString s @ r) = Some (s, length (EncodeParamString s))"
  using assms slice_append_mid [of "[word_of_nat (length s)]" 1 s "1 + length s" r]
  by (simp add: decodeParamString_def EncodeParamString_def unat_of_nat_byte wire)

text \<open>
  Length-prefixed strings are read back exactly up to 255 bytes; of a longer string the length
  byte keeps the length modulo 256, and the decoder takes that prefix and leaves the rest behind.
\<close>

theorem decodeParamString_wraps:
  "decodeParamString (EncodeParamString s @ r) =
     Some (take (length s mod 256) s, 1 + length s mod 256)"
proof -
  have n: "unat (word_of_nat (length s) :: byte) = length s mod 256"
    by (simp add: unat_of_nat take_bit_eq_mod)
  have "length s mod 256 \<le> length s" by (rule mod_less_eq_dividend)
  then have "slice (word_of_nat (length s) # s @ r) 1 (Suc (length s mod 256)) = Some (take (length s mod 256) s)"
    by (simp add: slice_def)
  with n \<open>length s mod 256 \<le> length s\<close> show ?thesis
    by (simp add: decodeParamString_def EncodeParamString_def wire)
qed

text \<open>
  Platform login. Time, sequence number, user name and password, each string of up to 255 bytes,
  are read back from the payload that \<^verbatim>\<open>EncodeParamString\<close> builds.
\<close>

theorem DecodePlatLoginResponse_roundtrip:
  assumes "2000 \<le> Year t" "Year t < 2160" and "length user < 256" and "length pass < 256"
  shows "DecodePlatLoginResponse (encodeBCDTime t @ PutUint16 sq
       @ EncodeParamString user @ EncodeParamString pass) =
     Some (Inr \<lparr>PlatLoginTime = wire_time t, PlatSequence = sq, Username = user, Password = pass\<rparr>)"
proof -
  let ?d = "encodeBCDTime t @ PutUint16 sq @ EncodeParamString user @ EncodeParamString pass"
  have rd: "slice ?d 0 6 = Some (encodeBCDTime t)" "u16_at ?d 6 = Some sq" by (simp_all add: slice_prefix wire)
  have s1: "slice ?d 8 (length ?d) = Some (EncodeParamString user @ EncodeParamString pass)"
    by (simp add: slice_def)
  have s2: "slice ?d (8 + length (EncodeParamString user)) (length ?d) = Some (EncodeParamString pass)"
    by (simp add: slice_def)
  show ?thesis
    unfolding DecodePlatLoginResponse_def Decoder_DecodePlatLoginResponse_def rd s1
    using s2 rd decodeTime6_default [OF assms(1,2)] decodeParamString_encode [OF assms(3)]
      decodeParamString_encode [OF assms(4), of "[]"]
    by simp
qed

theorem DecodePlatLoginResponse_roundtrip_witness:
  "DecodePlatLoginResponse (encodeBCDTime (Date 2026 6 15 18 48 30) @ [0, 1]
       @ EncodeParamString (str ''admin'') @ EncodeParamString (str ''x'')) =
     Some (Inr \<lparr>PlatLoginTime = Date 2026 6 15 18 48 30, PlatSequence = 1,
       Username = str ''admin'', Password = str ''x''\<rparr>)"
  using DecodePlatLoginResponse_roundtrip [of "Date 2026 6 15 18 48 30" "str ''admin''" "str ''x''" 1]
  by (simp add: sample_time PutUint16_def str_def)

text \<open>
  Parameter query and parameter setting. Up to 255 identifiers, and up to 255 parameters with
  values of up to 255 bytes, are read back exactly, whatever bytes follow.
\<close>

theorem Param_roundtrip:
  assumes "2000 \<le> Year t" "Year t < 2160" and "length ids < 256"
    and "length ps < 256" and "list_all setting_ok ps"
  shows "DecodeParamQueryData (encodeBCDTime t @ [word_of_nat (length ids)] @ concat (map PutUint32 ids) @ r) =
      Some (Inr \<lparr>QueryTime = wire_time t, QueryCount = word_of_nat (length ids), ParamIDs = ids\<rparr>) \<and>
    DecodeParamSettingData (encodeBCDTime t @ [word_of_nat (length ps)] @ concat (map setting_wire ps) @ r) =
      Some (Inr \<lparr>SettingTime = wire_time t, SettingCount = word_of_nat (length ps), Params = ps\<rparr>)"
proof -
  let ?t = "encodeBCDTime t"
  have n: "unat (word_of_nat (length ids) :: byte) = length ids" "unat (word_of_nat (length ps) :: byte) = length ps"
    using assms(3,4) by (simp_all add: unat_of_nat_byte)
  have q: "query_loop ((?t @ [word_of_nat (length ids)]) @ concat (map PutUint32 ids) @ r) (0 + length ids) 0
      (length (?t @ [word_of_nat (length ids)])) [] = Some ([] @ ids)"
    by (rule query.loop_items) (simp add: list_all_iff)
  have s: "setting_loop ((?t @ [word_of_nat (length ps)]) @ concat (map setting_wire ps) @ r) (0 + length ps) 0
      (length (?t @ [word_of_nat (length ps)])) [] = Some ([] @ ps)"
    using assms(5) by (rule setting.loop_items)
  note time = decodeTime6_default [OF assms(1,2)]
  have "DecodeParamQueryData (?t @ [word_of_nat (length ids)] @ concat (map PutUint32 ids) @ r) =
      Some (Inr \<lparr>QueryTime = wire_time t, QueryCount = word_of_nat (length ids), ParamIDs = ids\<rparr>)"
    using q time n
    by (simp add: DecodeParamQueryData_def Decoder_DecodeParamQueryData_def slice_prefix wire)
  moreover have "DecodeParamSettingData (?t @ [word_of_nat (length ps)] @ concat (map setting_wire ps) @ r) =
      Some (Inr \<lparr>SettingTime = wire_time t, SettingCount = word_of_nat (length ps), Params = ps\<rparr>)"
    using s time n
    by (simp add: DecodeParamSettingData_def Decoder_DecodeParamSettingData_def slice_prefix wire)
  ultimately show ?thesis by blast
qed

theorem Param_roundtrip_witness:
  "DecodeParamQueryData (encodeBCDTime (Date 2026 6 15 18 48 30) @ [2, 0, 0, 0, 1, 0, 0, 0, 2]) =
      Some (Inr \<lparr>QueryTime = Date 2026 6 15 18 48 30, QueryCount = 2, ParamIDs = [1, 2]\<rparr>) \<and>
   DecodeParamSettingData (encodeBCDTime (Date 2026 6 15 18 48 30) @ [1, 0, 0, 0, 3, 2, 8, 9]) =
      Some (Inr \<lparr>SettingTime = Date 2026 6 15 18 48 30, SettingCount = 1,
        Params = [\<lparr>ParamID = 3, ParamValue = [8, 9]\<rparr>]\<rparr>)"
  using Param_roundtrip [of "Date 2026 6 15 18 48 30" "[1, 2]" "[\<lparr>ParamID = 3, ParamValue = [8, 9]\<rparr>]" "[]"]
  by (simp add: sample_time setting_ok_def setting_wire_def PutUint32_def)

section \<open>Totality\<close>

lemma config_loop_Some: "\<exists>cs. config_loop data n i p acc = Some cs"
proof (induction data n i p acc rule: config_loop.induct)
  case (1 data n i p acc)
  show ?case
  proof (cases "i < n \<and> p + 2 \<le> length data \<and> p + 2 + unat (data ! (p + 1)) \<le> length data")
    case True
    then have g: "i < n \<and> p + 2 \<le> length data" "idx data p = Some (data ! p)"
      "idx data (p + 1) = Some (data ! (p + 1))" "\<not> p + 2 + unat (data ! (p + 1)) > length data"
      by (simp_all add: idx_Some)
    obtain v where v: "slice data (p + 2) (p + 2 + unat (data ! (p + 1))) = Some v"
      using True by (simp add: slice_Some)
    show ?thesis using "1.IH" [OF g v] g v by (subst config_loop.simps) simp
  next
    case False
    then show ?thesis by (subst config_loop.simps) (auto simp: idx_Some)
  qed
qed

lemma uint32_slice:
  "p + 4 \<le> length data \<Longrightarrow> \<exists>b v. slice data p (p + 4) = Some b \<and> binaryUint32 b = Some v"
  by (simp add: slice_Some binaryUint32_def Uint32_total)

lemma query_loop_Some: "\<exists>ids. query_loop data n i p acc = Some ids"
proof (induction data n i p acc rule: query_loop.induct)
  case (1 data n i p acc)
  show ?case
  proof (cases "i < n \<and> p + 4 \<le> length data")
    case True
    then obtain b v where b: "slice data p (p + 4) = Some b" "binaryUint32 b = Some v"
      using uint32_slice [of p data] by blast
    show ?thesis using "1.IH" [OF True b] True b by (subst query_loop.simps) simp
  qed (subst query_loop.simps, auto)
qed

lemma setting_loop_Some: "\<exists>ps. setting_loop data n i p acc = Some ps"
proof (induction data n i p acc rule: setting_loop.induct)
  case (1 data n i p acc)
  show ?case
  proof (cases "i < n \<and> p + 5 \<le> length data")
    case True
    then obtain b pid where b: "slice data p (p + 4) = Some b" "binaryUint32 b = Some pid"
      "idx data (p + 4) = Some (data ! (p + 4))"
      using uint32_slice [of p data] by (fastforce simp: idx_Some)
    show ?thesis
    proof (cases "p + 5 + unat (data ! (p + 4)) > length data")
      case False
      then obtain v where v: "slice data (p + 5) (p + 5 + unat (data ! (p + 4))) = Some v"
        by (simp add: slice_Some)
      show ?thesis using "1.IH" [OF True b False v] True b False v by (subst setting_loop.simps) simp
    qed (use True b in \<open>subst setting_loop.simps, simp\<close>)
  qed (subst setting_loop.simps, auto)
qed

lemma decodeParamString_Some:
  "\<exists>s n. decodeParamString data = Some (s, n) \<and> n \<le> length data"
  by (cases data) (auto simp: decodeParamString_def wire slice_Some)

lemma time_slice: "6 \<le> length data \<Longrightarrow> \<exists>b t. slice data 0 6 = Some b \<and> decodeTime6 d b = Some t"
  using parse_time6_total [of "take 6 data" d] by (simp add: slice_Some)

lemma DecodeLoginData_Some: "\<exists>res. Decoder_DecodeLoginData d data = Some res"
proof (cases "length data < 9")
  case False
  then obtain b t where t: "slice data 0 6 = Some b" "decodeTime6 d b = Some t"
    using time_slice [of data d] by auto
  have n: "idx data 8 = Some (data ! 8)" "u16_at data 6 = Some (be16 (data ! 6) (data ! 7))"
    using False by (simp_all add: idx_Some u16_at_total)
  show ?thesis
    using False t n config_loop_Some
      [of data "unat (data ! (9 + unat (data ! 8)))" 0 "10 + unat (data ! 8)" "[]"]
    by (auto simp: Decoder_DecodeLoginData_def slice_Some Let_def idx_Some)
qed (simp add: Decoder_DecodeLoginData_def)

lemma DecodePlatLogin_Some: "\<exists>res. Decoder_DecodePlatLoginResponse d data = Some res"
proof (cases "length data < 8")
  case False
  then obtain b t where t: "slice data 0 6 = Some b" "decodeTime6 d b = Some t"
    using time_slice [of data d] by auto
  obtain s n where s: "decodeParamString (drop 8 data) = Some (s, n)" "n \<le> length (drop 8 data)"
    using decodeParamString_Some by blast
  obtain s' n' where "decodeParamString (drop (8 + n) data) = Some (s', n')"
    using decodeParamString_Some by blast
  with False t s show ?thesis by (simp add: Decoder_DecodePlatLoginResponse_def slice_Some u16_at_total)
qed (simp add: Decoder_DecodePlatLoginResponse_def)

lemma payload_total:
  "(\<exists>res. Decoder_DecodeLoginData d data = Some res) \<and>
   (\<exists>res. Decoder_DecodeLogoutData d data = Some res) \<and>
   (\<exists>res. Decoder_DecodePlatLoginResponse d data = Some res) \<and>
   (\<exists>res. Decoder_DecodePlatLogoutResponse d data = Some res) \<and>
   (\<exists>res. Decoder_DecodeParamQueryData d data = Some res) \<and>
   (\<exists>res. Decoder_DecodeParamSettingData d data = Some res)"
proof -
  note t = time_slice [of data d]
  have "\<exists>res. Decoder_DecodeLogoutData d data = Some res"
    using t by (cases "length data < 8") (auto simp: Decoder_DecodeLogoutData_def u16_at_total)
  moreover have "\<exists>res. Decoder_DecodePlatLogoutResponse d data = Some res"
    using t by (cases "length data < 8") (auto simp: Decoder_DecodePlatLogoutResponse_def u16_at_total)
  moreover have "\<exists>res. Decoder_DecodeParamQueryData d data = Some res"
    using t query_loop_Some [of data "unat (data ! 6)" 0 7 "[]"]
    by (cases "length data < 7") (auto simp: Decoder_DecodeParamQueryData_def idx_Some)
  moreover have "\<exists>res. Decoder_DecodeParamSettingData d data = Some res"
    using t setting_loop_Some [of data "unat (data ! 6)" 0 7 "[]"]
    by (cases "length data < 7") (auto simp: Decoder_DecodeParamSettingData_def idx_Some)
  ultimately show ?thesis using DecodeLoginData_Some DecodePlatLogin_Some by blast
qed

text \<open>
  No payload decoder panics, whatever bytes arrive: login, logout, platform login and logout,
  parameter query and parameter setting all return a value or an error.
\<close>

theorem payload_decoders_total:
  "(\<exists>res. Decoder_DecodeLoginData d data = Some res) \<and>
   (\<exists>res. Decoder_DecodeLogoutData d data = Some res) \<and>
   (\<exists>res. Decoder_DecodePlatLoginResponse d data = Some res) \<and>
   (\<exists>res. Decoder_DecodePlatLogoutResponse d data = Some res) \<and>
   (\<exists>res. Decoder_DecodeParamQueryData d data = Some res) \<and>
   (\<exists>res. Decoder_DecodeParamSettingData d data = Some res)"
  by (rule payload_total)

end
