(* ===== verification/AES.thy ===== *)
theory AES
  imports Prelude
begin

text \<open>
  AES with a 128-bit key (FIPS 197) and cipher block chaining: what \<^verbatim>\<open>crypto.go\<close> uses of the Go
  packages \<^verbatim>\<open>crypto/aes\<close> and \<^verbatim>\<open>crypto/cipher\<close>. A block is a list of 16 bytes in column order.
  The cipher is executable, checked against the example of FIPS 197, and inverted by the inverse
  cipher; chaining is a locale over any block cipher, interpreted on AES.
\<close>

section \<open>The round transformations\<close>

definition sbox_table :: "byte list" where
  "sbox_table =
    [0x63, 0x7C, 0x77, 0x7B, 0xF2, 0x6B, 0x6F, 0xC5, 0x30, 0x01, 0x67, 0x2B, 0xFE, 0xD7, 0xAB, 0x76,
     0xCA, 0x82, 0xC9, 0x7D, 0xFA, 0x59, 0x47, 0xF0, 0xAD, 0xD4, 0xA2, 0xAF, 0x9C, 0xA4, 0x72, 0xC0,
     0xB7, 0xFD, 0x93, 0x26, 0x36, 0x3F, 0xF7, 0xCC, 0x34, 0xA5, 0xE5, 0xF1, 0x71, 0xD8, 0x31, 0x15,
     0x04, 0xC7, 0x23, 0xC3, 0x18, 0x96, 0x05, 0x9A, 0x07, 0x12, 0x80, 0xE2, 0xEB, 0x27, 0xB2, 0x75,
     0x09, 0x83, 0x2C, 0x1A, 0x1B, 0x6E, 0x5A, 0xA0, 0x52, 0x3B, 0xD6, 0xB3, 0x29, 0xE3, 0x2F, 0x84,
     0x53, 0xD1, 0x00, 0xED, 0x20, 0xFC, 0xB1, 0x5B, 0x6A, 0xCB, 0xBE, 0x39, 0x4A, 0x4C, 0x58, 0xCF,
     0xD0, 0xEF, 0xAA, 0xFB, 0x43, 0x4D, 0x33, 0x85, 0x45, 0xF9, 0x02, 0x7F, 0x50, 0x3C, 0x9F, 0xA8,
     0x51, 0xA3, 0x40, 0x8F, 0x92, 0x9D, 0x38, 0xF5, 0xBC, 0xB6, 0xDA, 0x21, 0x10, 0xFF, 0xF3, 0xD2,
     0xCD, 0x0C, 0x13, 0xEC, 0x5F, 0x97, 0x44, 0x17, 0xC4, 0xA7, 0x7E, 0x3D, 0x64, 0x5D, 0x19, 0x73,
     0x60, 0x81, 0x4F, 0xDC, 0x22, 0x2A, 0x90, 0x88, 0x46, 0xEE, 0xB8, 0x14, 0xDE, 0x5E, 0x0B, 0xDB,
     0xE0, 0x32, 0x3A, 0x0A, 0x49, 0x06, 0x24, 0x5C, 0xC2, 0xD3, 0xAC, 0x62, 0x91, 0x95, 0xE4, 0x79,
     0xE7, 0xC8, 0x37, 0x6D, 0x8D, 0xD5, 0x4E, 0xA9, 0x6C, 0x56, 0xF4, 0xEA, 0x65, 0x7A, 0xAE, 0x08,
     0xBA, 0x78, 0x25, 0x2E, 0x1C, 0xA6, 0xB4, 0xC6, 0xE8, 0xDD, 0x74, 0x1F, 0x4B, 0xBD, 0x8B, 0x8A,
     0x70, 0x3E, 0xB5, 0x66, 0x48, 0x03, 0xF6, 0x0E, 0x61, 0x35, 0x57, 0xB9, 0x86, 0xC1, 0x1D, 0x9E,
     0xE1, 0xF8, 0x98, 0x11, 0x69, 0xD9, 0x8E, 0x94, 0x9B, 0x1E, 0x87, 0xE9, 0xCE, 0x55, 0x28, 0xDF,
     0x8C, 0xA1, 0x89, 0x0D, 0xBF, 0xE6, 0x42, 0x68, 0x41, 0x99, 0x2D, 0x0F, 0xB0, 0x54, 0xBB, 0x16]"

definition inv_sbox_table :: "byte list" where
  "inv_sbox_table =
    [0x52, 0x09, 0x6A, 0xD5, 0x30, 0x36, 0xA5, 0x38, 0xBF, 0x40, 0xA3, 0x9E, 0x81, 0xF3, 0xD7, 0xFB,
     0x7C, 0xE3, 0x39, 0x82, 0x9B, 0x2F, 0xFF, 0x87, 0x34, 0x8E, 0x43, 0x44, 0xC4, 0xDE, 0xE9, 0xCB,
     0x54, 0x7B, 0x94, 0x32, 0xA6, 0xC2, 0x23, 0x3D, 0xEE, 0x4C, 0x95, 0x0B, 0x42, 0xFA, 0xC3, 0x4E,
     0x08, 0x2E, 0xA1, 0x66, 0x28, 0xD9, 0x24, 0xB2, 0x76, 0x5B, 0xA2, 0x49, 0x6D, 0x8B, 0xD1, 0x25,
     0x72, 0xF8, 0xF6, 0x64, 0x86, 0x68, 0x98, 0x16, 0xD4, 0xA4, 0x5C, 0xCC, 0x5D, 0x65, 0xB6, 0x92,
     0x6C, 0x70, 0x48, 0x50, 0xFD, 0xED, 0xB9, 0xDA, 0x5E, 0x15, 0x46, 0x57, 0xA7, 0x8D, 0x9D, 0x84,
     0x90, 0xD8, 0xAB, 0x00, 0x8C, 0xBC, 0xD3, 0x0A, 0xF7, 0xE4, 0x58, 0x05, 0xB8, 0xB3, 0x45, 0x06,
     0xD0, 0x2C, 0x1E, 0x8F, 0xCA, 0x3F, 0x0F, 0x02, 0xC1, 0xAF, 0xBD, 0x03, 0x01, 0x13, 0x8A, 0x6B,
     0x3A, 0x91, 0x11, 0x41, 0x4F, 0x67, 0xDC, 0xEA, 0x97, 0xF2, 0xCF, 0xCE, 0xF0, 0xB4, 0xE6, 0x73,
     0x96, 0xAC, 0x74, 0x22, 0xE7, 0xAD, 0x35, 0x85, 0xE2, 0xF9, 0x37, 0xE8, 0x1C, 0x75, 0xDF, 0x6E,
     0x47, 0xF1, 0x1A, 0x71, 0x1D, 0x29, 0xC5, 0x89, 0x6F, 0xB7, 0x62, 0x0E, 0xAA, 0x18, 0xBE, 0x1B,
     0xFC, 0x56, 0x3E, 0x4B, 0xC6, 0xD2, 0x79, 0x20, 0x9A, 0xDB, 0xC0, 0xFE, 0x78, 0xCD, 0x5A, 0xF4,
     0x1F, 0xDD, 0xA8, 0x33, 0x88, 0x07, 0xC7, 0x31, 0xB1, 0x12, 0x10, 0x59, 0x27, 0x80, 0xEC, 0x5F,
     0x60, 0x51, 0x7F, 0xA9, 0x19, 0xB5, 0x4A, 0x0D, 0x2D, 0xE5, 0x7A, 0x9F, 0x93, 0xC9, 0x9C, 0xEF,
     0xA0, 0xE0, 0x3B, 0x4D, 0xAE, 0x2A, 0xF5, 0xB0, 0xC8, 0xEB, 0xBB, 0x3C, 0x83, 0x53, 0x99, 0x61,
     0x17, 0x2B, 0x04, 0x7E, 0xBA, 0x77, 0xD6, 0x26, 0xE1, 0x69, 0x14, 0x63, 0x55, 0x21, 0x0C, 0x7D]"

definition sbox :: "byte \<Rightarrow> byte" where
  "sbox b = sbox_table ! unat b"

definition inv_sbox :: "byte \<Rightarrow> byte" where
  "inv_sbox b = inv_sbox_table ! unat b"

text \<open>Multiplication by \<open>x\<close> in the field of 256 elements, and by the constants of the mixing step.\<close>

definition xtime :: "byte \<Rightarrow> byte" where
  "xtime b = push_bit 1 b XOR (if bit b 7 then 0x1B else 0)"

definition mul9 :: "byte \<Rightarrow> byte" where
  "mul9 b = xtime (xtime (xtime b)) XOR b"

definition mul11 :: "byte \<Rightarrow> byte" where
  "mul11 b = xtime (xtime (xtime b)) XOR xtime b XOR b"

definition mul13 :: "byte \<Rightarrow> byte" where
  "mul13 b = xtime (xtime (xtime b)) XOR xtime (xtime b) XOR b"

definition mul14 :: "byte \<Rightarrow> byte" where
  "mul14 b = xtime (xtime (xtime b)) XOR xtime (xtime b) XOR xtime b"

definition xor_bytes :: "bytes \<Rightarrow> bytes \<Rightarrow> bytes" where
  "xor_bytes = map2 (XOR)"

definition shift_rows :: "bytes \<Rightarrow> bytes" where
  "shift_rows s = map (\<lambda>i. s ! i) [0, 5, 10, 15, 4, 9, 14, 3, 8, 13, 2, 7, 12, 1, 6, 11]"

definition inv_shift_rows :: "bytes \<Rightarrow> bytes" where
  "inv_shift_rows s = map (\<lambda>i. s ! i) [0, 13, 10, 7, 4, 1, 14, 11, 8, 5, 2, 15, 12, 9, 6, 3]"

fun mix_columns :: "bytes \<Rightarrow> bytes" where
  "mix_columns (a # b # c # d # s) =
     (xtime a XOR xtime b XOR b XOR c XOR d) #
     (a XOR xtime b XOR xtime c XOR c XOR d) #
     (a XOR b XOR xtime c XOR xtime d XOR d) #
     (xtime a XOR a XOR b XOR c XOR xtime d) # mix_columns s"
| "mix_columns _ = []"

fun inv_mix_columns :: "bytes \<Rightarrow> bytes" where
  "inv_mix_columns (a # b # c # d # s) =
     (mul14 a XOR mul11 b XOR mul13 c XOR mul9 d) #
     (mul9 a XOR mul14 b XOR mul11 c XOR mul13 d) #
     (mul13 a XOR mul9 b XOR mul14 c XOR mul11 d) #
     (mul11 a XOR mul13 b XOR mul9 c XOR mul14 d) # inv_mix_columns s"
| "inv_mix_columns _ = []"

section \<open>Key schedule and cipher\<close>

text \<open>The round key after \<open>k\<close>: four words, each the previous word mixed with the one four before.\<close>

definition next_key :: "byte \<Rightarrow> bytes \<Rightarrow> bytes" where
  "next_key rcon k = (let
     t = [sbox (k ! 13) XOR rcon, sbox (k ! 14), sbox (k ! 15), sbox (k ! 12)];
     w0 = xor_bytes (take 4 k) t;
     w1 = xor_bytes (take 4 (drop 4 k)) w0;
     w2 = xor_bytes (take 4 (drop 8 k)) w1;
     w3 = xor_bytes (take 4 (drop 12 k)) w2
   in w0 @ w1 @ w2 @ w3)"

fun round_keys :: "byte list \<Rightarrow> bytes \<Rightarrow> bytes list" where
  "round_keys [] k = [k]"
| "round_keys (rcon # rcons) k = k # round_keys rcons (next_key rcon k)"

definition expand_key :: "bytes \<Rightarrow> bytes list" where
  "expand_key k = round_keys [0x01, 0x02, 0x04, 0x08, 0x10, 0x20, 0x40, 0x80, 0x1B, 0x36] k"

text \<open>The rounds after the first key: nine full rounds, the last one without mixing.\<close>

fun rounds :: "bytes list \<Rightarrow> bytes \<Rightarrow> bytes" where
  "rounds [] s = s"
| "rounds [k] s = xor_bytes (shift_rows (map sbox s)) k"
| "rounds (k # ks) s = rounds ks (xor_bytes (mix_columns (shift_rows (map sbox s))) k)"

fun inv_rounds :: "bytes list \<Rightarrow> bytes \<Rightarrow> bytes" where
  "inv_rounds [] s = s"
| "inv_rounds [k] s = map inv_sbox (inv_shift_rows (xor_bytes s k))"
| "inv_rounds (k # ks) s =
     map inv_sbox (inv_shift_rows (inv_mix_columns (xor_bytes (inv_rounds ks s) k)))"

definition aes_encrypt :: "bytes \<Rightarrow> bytes \<Rightarrow> bytes" where
  "aes_encrypt key block =
     (case expand_key key of k # ks \<Rightarrow> rounds ks (xor_bytes block k) | [] \<Rightarrow> block)"

definition aes_decrypt :: "bytes \<Rightarrow> bytes \<Rightarrow> bytes" where
  "aes_decrypt key block =
     (case expand_key key of k # ks \<Rightarrow> xor_bytes (inv_rounds ks block) k | [] \<Rightarrow> block)"

section \<open>The inverse cipher inverts the cipher\<close>

lemma sbox_inverse_all:
  "list_all (\<lambda>b. inv_sbox (sbox b) = b) (map word_of_nat [0..<256])"
  by code_simp

lemma inv_sbox_sbox [simp]: "inv_sbox (sbox b) = b"
proof -
  have "b = word_of_nat (unat b)" by simp
  moreover have "unat b \<in> set [0..<256]" using unat_byte_less [of b] by simp
  ultimately have "b \<in> set (map word_of_nat [0..<256])" by (metis image_eqI set_map)
  with sbox_inverse_all show ?thesis unfolding list_all_iff by blast
qed

lemma inv_sbox_comp [simp]: "inv_sbox \<circ> sbox = id"
  by (simp add: fun_eq_iff)

lemma length_xor_bytes [simp]: "length (xor_bytes a b) = min (length a) (length b)"
  by (simp add: xor_bytes_def)

lemma xor_bytes_cancel [simp]: "length s \<le> length k \<Longrightarrow> xor_bytes (xor_bytes s k) k = s"
proof (induction s arbitrary: k)
  case (Cons a s)
  then show ?case by (cases k) (auto simp: xor_bytes_def xor.assoc)
qed (simp add: xor_bytes_def)

lemma xtime_xor [simp]: "xtime (a XOR b) = xtime a XOR xtime b"
  by (rule bit_eqI) (auto simp: xtime_def bit_simps)

lemmas mul_defs = mul9_def mul11_def mul13_def mul14_def

lemmas xor_ac = xor.assoc xor.commute xor.left_commute

lemma xor_left_cancel [simp]: "a XOR (a XOR b) = (b :: byte)"
  by (simp flip: xor.assoc)

lemma inv_mix_columns_mix [simp]: "length s mod 4 = 0 \<Longrightarrow> inv_mix_columns (mix_columns s) = s"
proof (induction s rule: mix_columns.induct)
  case (1 a b c d s)
  then have "inv_mix_columns (mix_columns s) = s" by simp
  then show ?case by (simp add: mul_defs xor_ac)
qed simp_all

lemma length_mix_columns [simp]: "length s mod 4 = 0 \<Longrightarrow> length (mix_columns s) = length s"
  by (induction s rule: mix_columns.induct) simp_all

lemma length_shift_rows [simp]: "length (shift_rows s) = 16" "length (inv_shift_rows s) = 16"
  by (simp_all add: shift_rows_def inv_shift_rows_def)

lemma list16_nth: "length s = 16 \<Longrightarrow> map (\<lambda>i. s ! i) [0..<16] = s"
  using map_nth [of s] by simp

lemma inv_shift_rows_shift [simp]: "length s = 16 \<Longrightarrow> inv_shift_rows (shift_rows s) = s"
  using list16_nth [of s] by (simp add: shift_rows_def inv_shift_rows_def upt_rec eval_nat_numeral)

lemma length_rounds: "list_all (\<lambda>k. length k = 16) ks \<Longrightarrow> length s = 16 \<Longrightarrow> length (rounds ks s) = 16"
  by (induction ks s rule: rounds.induct) simp_all

lemma inv_rounds_rounds:
  "list_all (\<lambda>k. length k = 16) ks \<Longrightarrow> length s = 16 \<Longrightarrow> inv_rounds ks (rounds ks s) = s"
  by (induction ks s rule: rounds.induct) simp_all

lemma length_next_key [simp]: "length k = 16 \<Longrightarrow> length (next_key rcon k) = 16"
  by (simp add: next_key_def Let_def)

lemma round_keys_length: "length k = 16 \<Longrightarrow> list_all (\<lambda>k. length k = 16) (round_keys rcons k)"
  by (induction rcons arbitrary: k) simp_all

lemma round_keys_Cons: "\<exists>ks. round_keys rcons k = k # ks"
  by (cases rcons) simp_all

lemma aes_expand:
  assumes "length key = 16"
  obtains ks where "expand_key key = key # ks" "list_all (\<lambda>k. length k = 16) ks"
  using round_keys_length [OF assms] round_keys_Cons that unfolding expand_key_def
  by (metis list.pred_inject(2))

lemma length_inv_rounds: "ks \<noteq> [] \<or> length s = 16 \<Longrightarrow> length (inv_rounds ks s) = 16"
  by (induction ks s rule: inv_rounds.induct) simp_all

lemma aes_decrypt_encrypt:
  assumes "length key = 16" "length block = 16"
  shows "aes_decrypt key (aes_encrypt key block) = block" "length (aes_encrypt key block) = 16"
    "length (aes_decrypt key block) = 16"
proof -
  obtain ks where ks: "expand_key key = key # ks" "list_all (\<lambda>k. length k = 16) ks"
    using aes_expand [OF assms(1)] by blast
  show "aes_decrypt key (aes_encrypt key block) = block"
    using ks assms inv_rounds_rounds [OF ks(2), of "xor_bytes block key"]
    by (simp add: aes_decrypt_def aes_encrypt_def)
  show "length (aes_encrypt key block) = 16"
    using ks assms length_rounds [OF ks(2), of "xor_bytes block key"] by (simp add: aes_encrypt_def)
  show "length (aes_decrypt key block) = 16"
    using ks assms by (simp add: aes_decrypt_def length_inv_rounds)
qed

text \<open>The example of FIPS 197, appendix C.1.\<close>

lemma aes_fips197:
  "aes_encrypt
     [0x00, 0x01, 0x02, 0x03, 0x04, 0x05, 0x06, 0x07, 0x08, 0x09, 0x0A, 0x0B, 0x0C, 0x0D, 0x0E, 0x0F]
     [0x00, 0x11, 0x22, 0x33, 0x44, 0x55, 0x66, 0x77, 0x88, 0x99, 0xAA, 0xBB, 0xCC, 0xDD, 0xEE, 0xFF] =
   [0x69, 0xC4, 0xE0, 0xD8, 0x6A, 0x7B, 0x04, 0x30, 0xD8, 0xCD, 0xB7, 0x80, 0x70, 0xB4, 0xC5, 0x5A]"
  by code_simp

section \<open>Cipher block chaining\<close>

text \<open>
  \<^verbatim>\<open>CryptBlocks\<close> of the CBC modes of \<^verbatim>\<open>crypto/cipher\<close>, block by block, over the functions of a
  \<^verbatim>\<open>cipher.Block\<close>; it panics on a partial block.
\<close>

function blocks :: "nat \<Rightarrow> bytes \<Rightarrow> bytes list" where
  "blocks n s = (if s = [] \<or> n = 0 then [] else take n s # blocks n (drop n s))"
  by pat_completeness auto
termination
  by (relation "measure (\<lambda>(n, s). length s)") auto

declare blocks.simps [simp del]

fun cbc_encrypt :: "(bytes \<Rightarrow> bytes) \<Rightarrow> bytes \<Rightarrow> bytes list \<Rightarrow> bytes" where
  "cbc_encrypt enc iv [] = []"
| "cbc_encrypt enc iv (b # bs) = (let c = enc (xor_bytes b iv) in c @ cbc_encrypt enc c bs)"

fun cbc_decrypt :: "(bytes \<Rightarrow> bytes) \<Rightarrow> bytes \<Rightarrow> bytes list \<Rightarrow> bytes" where
  "cbc_decrypt dec iv [] = []"
| "cbc_decrypt dec iv (c # cs) = xor_bytes (dec c) iv @ cbc_decrypt dec c cs"

definition CBCEncrypter_CryptBlocks :: "(bytes \<Rightarrow> bytes) \<Rightarrow> bytes \<Rightarrow> bytes \<Rightarrow> bytes option" where
  "CBCEncrypter_CryptBlocks enc iv src =
     (if length src mod length iv \<noteq> 0 then None else Some (cbc_encrypt enc iv (blocks (length iv) src)))"

definition CBCDecrypter_CryptBlocks :: "(bytes \<Rightarrow> bytes) \<Rightarrow> bytes \<Rightarrow> bytes \<Rightarrow> bytes option" where
  "CBCDecrypter_CryptBlocks dec iv src =
     (if length src mod length iv \<noteq> 0 then None else Some (cbc_decrypt dec iv (blocks (length iv) src)))"

lemma blocks_Nil [simp]: "blocks n [] = []"
  by (simp add: blocks.simps)

lemma blocks_append: "length b = n \<Longrightarrow> 0 < n \<Longrightarrow> blocks n (b @ s) = b # blocks n s"
  by (subst blocks.simps) auto

lemma blocks_induct [consumes 2, case_names Nil block]:
  assumes "n dvd length s" and "0 < n" and "P []"
    and "\<And>b s. length b = n \<Longrightarrow> n dvd length s \<Longrightarrow> P s \<Longrightarrow> P (b @ s)"
  shows "P s"
  using assms(1)
proof (induction s rule: length_induct)
  case (1 s)
  show ?case
  proof (cases "s = []")
    case False
    then have "n \<le> length s" using "1.prems" by (simp add: dvd_imp_le)
    then have "length (take n s) = n" "n dvd length (drop n s)" "length (drop n s) < length s"
      using "1.prems" assms(2) by (simp_all add: dvd_diff_nat)
    then show ?thesis using assms(4) [of "take n s" "drop n s"] "1.IH" by simp
  qed (simp add: assms(3))
qed

text \<open>
  The interface of a block cipher: \<open>enc\<close> and \<open>dec\<close> map blocks to blocks and decryption inverts
  encryption. Chaining then inverts too, for any number of blocks and any initial vector.
\<close>

locale block_cipher =
  fixes enc dec :: "'key \<Rightarrow> bytes \<Rightarrow> bytes"
    and key_ok :: "'key \<Rightarrow> bool"
    and n :: nat
  assumes dec_enc: "key_ok k \<Longrightarrow> length b = n \<Longrightarrow> dec k (enc k b) = b"
    and length_enc: "key_ok k \<Longrightarrow> length b = n \<Longrightarrow> length (enc k b) = n"
    and length_dec: "key_ok k \<Longrightarrow> length b = n \<Longrightarrow> length (dec k b) = n"
    and block_pos: "0 < n"
begin

lemma cbc_inverts:
  assumes "key_ok k" "n dvd length s" "length iv = n"
  shows "cbc_decrypt (dec k) iv (blocks n (cbc_encrypt (enc k) iv (blocks n s))) = s \<and>
    length (cbc_encrypt (enc k) iv (blocks n s)) = length s"
  using assms(2) block_pos assms(3)
proof (induction s arbitrary: iv rule: blocks_induct)
  case (block b s)
  let ?c = "enc k (xor_bytes b iv)"
  have "length ?c = n" "dec k ?c = xor_bytes b iv"
    using block.prems block.hyps assms(1) by (simp_all add: length_enc dec_enc)
  then show ?case using block block_pos by (simp add: blocks_append Let_def)
qed simp

lemma length_cbc_decrypt:
  assumes "key_ok k" "n dvd length s" "length iv = n"
  shows "length (cbc_decrypt (dec k) iv (blocks n s)) = length s"
  using assms(2) block_pos assms(3)
proof (induction s arbitrary: iv rule: blocks_induct)
  case (block b s)
  then show ?case using assms(1) block_pos by (simp add: blocks_append length_dec)
qed simp

end

interpretation aes128: block_cipher aes_encrypt aes_decrypt "\<lambda>k. length k = 16" 16
  by unfold_locales (simp_all add: aes_decrypt_encrypt)

end
