(* ===== verification/Crypto.thy ===== *)
theory Crypto
  imports AES Framing
begin

text \<open>
  \<^verbatim>\<open>crypto.go\<close>: key derivation, PKCS 7 padding, and encryption and decryption of data units with
  AES-128 in CBC mode, the key itself being the initial vector.
\<close>

definition BlockSize :: nat where
  [simp]: "BlockSize = 16"

text \<open>\<open>for i := n; i < aes.BlockSize; i++\<close> with \<open>n\<close> the number of bytes copied.\<close>

definition DeriveAESKey :: "bytes \<Rightarrow> bytes" where
  "DeriveAESKey token =
     (let key = copy (replicate BlockSize 0) token;
          n = min BlockSize (length token)
      in fold (\<lambda>i k. k[i := 0]) [n..<BlockSize] key)"

text \<open>
  \<^verbatim>\<open>aes.NewCipher\<close> for 16-byte keys, the only size the source passes; the other sizes of AES are
  an error here. A cipher is its key.
\<close>

definition NewCipher :: "bytes \<Rightarrow> go_error + bytes" where
  "NewCipher key =
     (if length key = 16 then Inr key else Inl (Errorf ''crypto/aes: invalid key size %d'' [length key]))"

definition pkcs7Pad :: "bytes \<Rightarrow> nat \<Rightarrow> bytes" where
  "pkcs7Pad data blockSize =
     (let padLen = blockSize - length data mod blockSize
      in data @ replicate padLen (word_of_nat padLen))"

definition pkcs7Unpad :: "bytes \<Rightarrow> (go_error + bytes) option" where
  "pkcs7Unpad data =
     (if length data = 0 then Some (Inl (Errorf ''empty data'' []))
      else do {
        padByte \<leftarrow> idx data (length data - 1);
        let padLen = unat padByte;
        if padLen > length data \<or> padLen = 0 \<or> padLen > BlockSize
        then Some (Inl (Errorf ''invalid padding'' []))
        else do { r \<leftarrow> slice data 0 (length data - padLen); Some (Inr r) }
      })"

definition EncryptAES128 :: "bytes \<Rightarrow> bytes \<Rightarrow> (go_error + bytes) option" where
  "EncryptAES128 data key =
     (if length key < BlockSize then Some (Inl ErrKeyTooShort)
      else do {
        k \<leftarrow> slice key 0 BlockSize;
        (case NewCipher k of
           Inl err \<Rightarrow> Some (Inl err)
         | Inr block \<Rightarrow> do {
             let padded = pkcs7Pad data BlockSize;
             iv \<leftarrow> slice key 0 BlockSize;
             encrypted \<leftarrow> CBCEncrypter_CryptBlocks (aes_encrypt block) iv padded;
             Some (Inr encrypted)
           })
      })"

definition DecryptAES128 :: "bytes \<Rightarrow> bytes \<Rightarrow> (go_error + bytes) option" where
  "DecryptAES128 data key =
     (if length key < BlockSize then Some (Inl ErrKeyTooShort)
      else if length data mod BlockSize \<noteq> 0 then Some (Inl ErrDecrypt)
      else do {
        k \<leftarrow> slice key 0 BlockSize;
        (case NewCipher k of
           Inl err \<Rightarrow> Some (Inl err)
         | Inr block \<Rightarrow> do {
             iv \<leftarrow> slice key 0 BlockSize;
             decrypted \<leftarrow> CBCDecrypter_CryptBlocks (aes_decrypt block) iv data;
             r \<leftarrow> pkcs7Unpad decrypted;
             (case r of
                Inl err \<Rightarrow> Some (Inl ErrDecrypt)
              | Inr unpadded \<Rightarrow> Some (Inr unpadded))
           })
      })"

section \<open>Lemmas\<close>

lemma fold_zero_suffix:
  "n \<le> length k \<Longrightarrow> fold (\<lambda>i k. k[i := 0]) [n..<length k] (k :: bytes) = take n k @ replicate (length k - n) 0"
proof (induction "length k - n" arbitrary: n k)
  case (Suc m)
  then have n: "n < length k" by linarith
  have "fold (\<lambda>i k. k[i := 0]) [n..<length k] k = fold (\<lambda>i k. k[i := 0]) [Suc n..<length (k[n := 0])] (k[n := 0])"
    using n by (simp add: upt_conv_Cons)
  also have "\<dots> = take (Suc n) (k[n := 0]) @ replicate (length k - Suc n) 0"
    using Suc.hyps(1) [of "k[n := 0]" "Suc n"] Suc.hyps(2) n by simp
  also have "\<dots> = take n k @ replicate (length k - n) 0"
    using n by (simp add: take_Suc_conv_app_nth replicate_app_Cons_same [symmetric] Suc_diff_Suc [symmetric])
  finally show ?case .
qed simp

lemma DeriveAESKey_eq: "DeriveAESKey token = take 16 (token @ replicate 16 0)"
proof -
  have l: "length (copy (replicate 16 0) token) = 16" by (simp add: copy_def)
  have "DeriveAESKey token = take (min 16 (length token)) (copy (replicate 16 0) token)
      @ replicate (16 - min 16 (length token)) 0"
    using fold_zero_suffix [of "min 16 (length token)" "copy (replicate 16 0) token"] l
    by (simp add: DeriveAESKey_def Let_def)
  then show ?thesis by (simp add: copy_def min_def)
qed

lemma pkcs7Pad_length: "length (pkcs7Pad data 16) = 16 * (length data div 16 + 1)"
proof -
  have "length data mod 16 < 16" by simp
  moreover have "16 * (length data div 16) + length data mod 16 = length data" by (rule mult_div_mod_eq)
  ultimately have "length data + (16 - length data mod 16) = 16 * (length data div 16) + 16" by linarith
  then show ?thesis by (simp add: pkcs7Pad_def Let_def)
qed

lemma pkcs7Unpad_Pad: "pkcs7Unpad (pkcs7Pad data 16) = Some (Inr data)"
proof -
  define p where "p = 16 - length data mod 16"
  have p: "0 < p" "p \<le> 16" by (simp_all add: p_def)
  then have u: "unat (word_of_nat p :: byte) = p" by (simp add: unat_of_nat_byte)
  have pad: "pkcs7Pad data 16 = data @ replicate p (word_of_nat p)" by (simp add: pkcs7Pad_def p_def Let_def)
  have "length data + p - 1 = length data + (p - 1)" using p by simp
  then have "idx (data @ replicate p (word_of_nat p)) (length data + p - 1) = Some (word_of_nat p :: byte)"
    using p by (simp only: idx_append_add) (simp add: idx_def)
  then show ?thesis using p u by (simp add: pad pkcs7Unpad_def Let_def slice_def)
qed

lemma pkcs7Unpad_Some: "\<exists>r. pkcs7Unpad data = Some r"
  by (cases "data = []") (auto simp: pkcs7Unpad_def idx_Some slice_Some Let_def)

lemma EncryptAES128_eq:
  assumes "16 \<le> length key"
  shows "EncryptAES128 data key =
     Some (Inr (cbc_encrypt (aes_encrypt (take 16 key)) (take 16 key) (blocks 16 (pkcs7Pad data 16))))"
  using assms by (simp add: EncryptAES128_def NewCipher_def slice_Some Let_def CBCEncrypter_CryptBlocks_def
      pkcs7Pad_length min_def)

lemma DecryptAES128_eq:
  assumes "16 \<le> length key" "length data mod 16 = 0"
  shows "DecryptAES128 data key = do {
     r \<leftarrow> pkcs7Unpad (cbc_decrypt (aes_decrypt (take 16 key)) (take 16 key) (blocks 16 data));
     Some (case r of Inl err \<Rightarrow> Inl ErrDecrypt | Inr u \<Rightarrow> Inr u)}"
  using assms by (simp add: DecryptAES128_def NewCipher_def slice_Some CBCDecrypter_CryptBlocks_def min_def
      cong: sum.case_cong) (auto intro!: Option.bind_cong split: sum.split)

lemma encrypt_decrypt:
  assumes "16 \<le> length key"
  shows "\<exists>c. EncryptAES128 data key = Some (Inr c) \<and> length c = 16 * (length data div 16 + 1) \<and>
     DecryptAES128 c key = Some (Inr data)"
proof -
  let ?k = "take 16 key" and ?p = "pkcs7Pad data 16"
  let ?c = "cbc_encrypt (aes_encrypt ?k) ?k (blocks 16 ?p)"
  have k: "length ?k = 16" using assms by simp
  have "16 dvd length ?p" by (simp add: pkcs7Pad_length)
  note inv = aes128.cbc_inverts [OF k this k]
  then have "length ?c mod 16 = 0" "length ?c = 16 * (length data div 16 + 1)"
    by (simp_all add: pkcs7Pad_length)
  moreover from this have "DecryptAES128 ?c key = Some (Inr data)"
    using inv by (simp add: DecryptAES128_eq [OF assms] pkcs7Unpad_Pad)
  ultimately show ?thesis using EncryptAES128_eq [OF assms, of data] by blast
qed

section \<open>Properties\<close>

text \<open>
  C11: encryption and decryption with the same key of at least 16 bytes are inverse for every data
  unit; the ciphertext is the padded length, one to sixteen bytes longer than the data.
\<close>

theorem AES_roundtrip:
  assumes "16 \<le> length key"
  shows "\<exists>c. EncryptAES128 data key = Some (Inr c) \<and> length c = 16 * (length data div 16 + 1) \<and>
     DecryptAES128 c key = Some (Inr data)"
  using assms by (rule encrypt_decrypt)

theorem AES_roundtrip_witness:
  "\<exists>c. EncryptAES128 (str ''hello'') (replicate 16 7) = Some (Inr c) \<and> length c = 16 \<and>
     DecryptAES128 c (replicate 16 7) = Some (Inr (str ''hello''))"
  using AES_roundtrip [of "replicate 16 7" "str ''hello''"] by (simp add: str_def)

text \<open>
  C38: decryption never panics, and its result is exactly this: a key below 16 bytes is
  \<^verbatim>\<open>ErrKeyTooShort\<close>; an input that is empty or no whole number of blocks, and one whose decrypted last
  byte is 0 or above 16 and so no padding length, is \<^verbatim>\<open>ErrDecrypt\<close>; every other input is its
  decryption without as many bytes at the end as the last byte says, whatever those bytes are.
\<close>

theorem DecryptAES128_errors:
  fixes data key :: bytes
  defines "plain \<equiv> cbc_decrypt (aes_decrypt (take 16 key)) (take 16 key) (blocks 16 data)"
  shows "DecryptAES128 data key = Some
    (if length key < 16 then Inl ErrKeyTooShort
     else if data = [] \<or> length data mod 16 \<noteq> 0 \<or> last plain = 0 \<or> 16 < last plain then Inl ErrDecrypt
     else Inr (take (length data - unat (last plain)) plain))"
proof (cases "length key < 16 \<or> length data mod 16 \<noteq> 0")
  case True
  then show ?thesis by (auto simp: DecryptAES128_def)
next
  case False
  have l: "length plain = length data"
    unfolding plain_def using False by (intro aes128.length_cbc_decrypt) (auto simp: dvd_eq_mod_eq_0)
  have u: "unat (last plain) = 0 \<longleftrightarrow> last plain = 0" "16 < unat (last plain) \<longleftrightarrow> 16 < last plain"
    by (simp_all add: unat_eq_0 word_less_nat_alt)
  have "DecryptAES128 data key = do { r \<leftarrow> pkcs7Unpad plain; Some (case r of Inl err \<Rightarrow> Inl ErrDecrypt | Inr u \<Rightarrow> Inr u) }"
    using False by (simp add: DecryptAES128_eq plain_def)
  also have "\<dots> = Some (if data = [] \<or> last plain = 0 \<or> 16 < last plain then Inl ErrDecrypt
      else Inr (take (length data - unat (last plain)) plain))"
  proof (cases "data = []")
    case True
    then show ?thesis using l by (simp add: pkcs7Unpad_def)
  next
    case ne: False
    then have "16 \<le> length data" using False by (metis dvd_eq_mod_eq_0 dvd_imp_le length_greater_0_conv)
    moreover have p: "plain \<noteq> []" using ne l by auto
    moreover have "idx plain (length plain - 1) = Some (last plain)"
      using p last_conv_nth [OF p] by (simp add: idx_def)
    ultimately show ?thesis using ne l u by (auto simp: pkcs7Unpad_def Let_def slice_def)
  qed
  finally show ?thesis using False by simp
qed

theorem DecryptAES128_errors_witness:
  "DecryptAES128 [1, 2, 3] (replicate 16 7) = Some (Inl ErrDecrypt) \<and>
   DecryptAES128 [] (replicate 3 7) = Some (Inl ErrKeyTooShort)"
  using DecryptAES128_errors [of "[1, 2, 3]" "replicate 16 7"] DecryptAES128_errors [of "[]" "replicate 3 7"] by simp

text \<open>
  The key derived from a token has 16 bytes, the token's first ones and zeros after them, so
  encryption with a derived key never fails.
\<close>

theorem DeriveAESKey_encrypts:
  "DeriveAESKey token = take 16 (token @ replicate 16 0) \<and> length (DeriveAESKey token) = 16 \<and>
   (\<exists>c. EncryptAES128 data (DeriveAESKey token) = Some (Inr c))"
  using EncryptAES128_eq [of "DeriveAESKey token" data] by (simp add: DeriveAESKey_eq)

end
