(* ===== verification/Registry.thy ===== *)
theory Registry
  imports Prelude
begin

text \<open>
  \<^verbatim>\<open>vin_registry.go\<close>: which connections are logged in under which VIN, and \<^verbatim>\<open>auth/auth.go\<close>, the VIN
  whitelist and the authenticator that accepts everyone. Every registry operation runs under the
  registry's lock, so each is one atomic function of the registry.
\<close>

section \<open>The registry\<close>

record 'c vinRegistry =
  vins :: "gostring \<rightharpoonup> 'c list"

definition newVinRegistry :: "'c vinRegistry" where
  "newVinRegistry = \<lparr>vins = Map.empty\<rparr>"

text \<open>Indexing a Go map with an absent key gives the zero value, here the nil slice.\<close>

definition vin_conns :: "'c vinRegistry \<Rightarrow> gostring \<Rightarrow> 'c list" where
  "vin_conns r vin = (case vins r vin of Some conns \<Rightarrow> conns | None \<Rightarrow> [])"

definition add :: "'c vinRegistry \<Rightarrow> gostring \<Rightarrow> 'c \<Rightarrow> 'c vinRegistry" where
  "add r vin c = r\<lparr>vins := (vins r)(vin \<mapsto> vin_conns r vin @ [c])\<rparr>"

text \<open>The loop of \<^verbatim>\<open>remove\<close>: cut out the first element equal to \<open>c\<close>.\<close>

function remove_loop :: "'c list \<Rightarrow> 'c \<Rightarrow> nat \<Rightarrow> 'c list" where
  "remove_loop conns c i =
     (if i < length conns then
        if conns ! i = c then take i conns @ drop (i + 1) conns
        else remove_loop conns c (i + 1)
      else conns)"
  by pat_completeness auto
termination
  by (relation "measure (\<lambda>(conns, c, i). length conns - i)") auto

declare remove_loop.simps [simp del]

definition remove :: "'c vinRegistry \<Rightarrow> gostring \<Rightarrow> 'c \<Rightarrow> 'c vinRegistry" where
  "remove r vin c =
     (case vins r vin of
        None \<Rightarrow> r
      | Some conns \<Rightarrow>
          let r = r\<lparr>vins := (vins r)(vin \<mapsto> remove_loop conns c 0)\<rparr>
          in if length (vin_conns r vin) = 0 then r\<lparr>vins := (vins r)(vin := None)\<rparr> else r)"

definition get :: "'c vinRegistry \<Rightarrow> gostring \<Rightarrow> 'c option" where
  "get r vin =
     (case vins r vin of
        None \<Rightarrow> None
      | Some conns \<Rightarrow> if length conns = 0 then None else Some (conns ! 0))"

definition getAll :: "'c vinRegistry \<Rightarrow> gostring \<Rightarrow> 'c list" where
  "getAll r vin = (case vins r vin of Some conns \<Rightarrow> [] @ conns | None \<Rightarrow> [])"

definition count :: "'c vinRegistry \<Rightarrow> nat" where
  "count r = card (dom (vins r))"

text \<open>No VIN is kept with an empty list.\<close>

definition registry_inv :: "'c vinRegistry \<Rightarrow> bool" where
  "registry_inv r \<longleftrightarrow> finite (dom (vins r)) \<and> (\<forall>vin. vins r vin \<noteq> Some [])"

section \<open>The contract of a registry\<close>

text \<open>
  What the server relies on: a registry is a list of connections per VIN, to which login appends
  and from which closing removes one occurrence.
\<close>

locale vin_index =
  fixes new :: 'r
    and add :: "'r \<Rightarrow> gostring \<Rightarrow> 'c \<Rightarrow> 'r"
    and remove :: "'r \<Rightarrow> gostring \<Rightarrow> 'c \<Rightarrow> 'r"
    and get :: "'r \<Rightarrow> gostring \<Rightarrow> 'c option"
    and getAll :: "'r \<Rightarrow> gostring \<Rightarrow> 'c list"
    and count :: "'r \<Rightarrow> nat"
    and inv :: "'r \<Rightarrow> bool"
  assumes inv_new: "inv new"
    and inv_add: "inv r \<Longrightarrow> inv (add r v c)"
    and inv_remove: "inv r \<Longrightarrow> inv (remove r v c)"
    and getAll_new: "getAll new v = []"
    and getAll_add: "getAll (add r v c) v' = (if v' = v then getAll r v @ [c] else getAll r v')"
    and getAll_remove: "getAll (remove r v c) v' = (if v' = v then remove1 c (getAll r v) else getAll r v')"
    and get_first: "get r v = (case getAll r v of [] \<Rightarrow> None | c # _ \<Rightarrow> Some c)"
    and count_vins: "inv r \<Longrightarrow> count r = card {v. getAll r v \<noteq> []} \<and> finite {v. getAll r v \<noteq> []}"
begin

text \<open>Removing undoes adding, as long as the connection is not registered twice.\<close>

lemma remove_add:
  "c \<notin> set (getAll r v) \<Longrightarrow> getAll (remove (add r v c) v c) v' = getAll r v'"
  by (simp add: getAll_add getAll_remove remove1_append)

lemma remove_add_twice:
  "c \<notin> set (getAll r v) \<Longrightarrow> getAll (remove (add (add r v c) v c) v c) v = getAll r v @ [c]"
  by (simp add: getAll_add getAll_remove remove1_append)

lemma remove_other_vin:
  "v' \<noteq> v \<Longrightarrow> getAll (remove (add r v c) v' c) v = getAll r v @ [c]"
  by (simp add: getAll_add getAll_remove)

lemma get_add: "get (add r v c) v = (case get r v of None \<Rightarrow> Some c | Some c' \<Rightarrow> Some c')"
  by (auto simp: get_first getAll_add split: list.splits)

lemma count_le_add: "inv r \<Longrightarrow> count (add r v c) \<le> count r + 1"
proof -
  assume r: "inv r"
  have "{v'. getAll (add r v c) v' \<noteq> []} = insert v {v'. getAll r v' \<noteq> []}"
    by (auto simp: getAll_add)
  then show ?thesis
    using count_vins [OF r] count_vins [OF inv_add [OF r, of v c]] by (simp add: card_insert_if)
qed

end

lemma remove_loop_remove1: "remove_loop conns c i = take i conns @ remove1 c (drop i conns)"
proof (induction conns c i rule: remove_loop.induct)
  case (1 conns c i)
  show ?case
  proof (cases "i < length conns")
    case True
    then show ?thesis
      using "1.IH" by (subst remove_loop.simps) (auto simp: Cons_nth_drop_Suc [symmetric] take_Suc_conv_app_nth)
  qed (simp add: remove_loop.simps)
qed

lemma getAll_vin_conns: "getAll r vin = vin_conns r vin"
  by (simp add: getAll_def vin_conns_def split: option.splits)

lemma getAll_add_vin: "getAll (add r v c) v' = (if v' = v then getAll r v @ [c] else getAll r v')"
  by (simp add: getAll_vin_conns) (simp add: vin_conns_def add_def)

lemma getAll_remove_vin:
  "getAll (remove r v c) v' = (if v' = v then remove1 c (getAll r v) else getAll r v')"
  by (cases "vins r v")
    (auto simp: getAll_vin_conns remove_def vin_conns_def Let_def remove_loop_remove1)

interpretation reg: vin_index
    newVinRegistry add remove get getAll count registry_inv
proof unfold_locales
  show "registry_inv newVinRegistry" by (simp add: registry_inv_def newVinRegistry_def)
  show "registry_inv r \<Longrightarrow> registry_inv (add r v c)" for r :: "'a vinRegistry" and v c
    by (simp add: registry_inv_def add_def)
  show "registry_inv r \<Longrightarrow> registry_inv (remove r v c)" for r :: "'a vinRegistry" and v c
    by (auto simp: registry_inv_def remove_def vin_conns_def Let_def split: option.splits
        intro: finite_subset [of _ "dom (vins r)"])
  show "getAll newVinRegistry v = []" for v by (simp add: getAll_def newVinRegistry_def)
  show "getAll (add r v c) v' = (if v' = v then getAll r v @ [c] else getAll r v')"
    for r :: "'a vinRegistry" and v c v' by (rule getAll_add_vin)
  show "getAll (remove r v c) v' = (if v' = v then remove1 c (getAll r v) else getAll r v')"
    for r :: "'a vinRegistry" and v c v' by (rule getAll_remove_vin)
  show "get r v = (case getAll r v of [] \<Rightarrow> None | c # _ \<Rightarrow> Some c)" for r :: "'a vinRegistry" and v
    by (auto simp: get_def getAll_def split: option.splits list.splits)
  show "count r = card {v. getAll r v \<noteq> []} \<and> finite {v. getAll r v \<noteq> []}"
    if "registry_inv r" for r :: "'a vinRegistry"
  proof -
    have "{v. getAll r v \<noteq> []} = dom (vins r)"
      using that by (auto simp: registry_inv_def getAll_def split: option.splits)
    then show ?thesis using that by (simp add: count_def registry_inv_def)
  qed
qed

section \<open>Authenticators (auth.go)\<close>

text \<open>A Go map with empty values is a set; \<^verbatim>\<open>Authenticate\<close> never returns an error here.\<close>

record VINWhitelist =
  set_of :: "gostring set"

definition Whitelist_Add :: "VINWhitelist \<Rightarrow> gostring \<Rightarrow> VINWhitelist" where
  "Whitelist_Add w vin = w\<lparr>set_of := insert vin (set_of w)\<rparr>"

definition Whitelist_Remove :: "VINWhitelist \<Rightarrow> gostring \<Rightarrow> VINWhitelist" where
  "Whitelist_Remove w vin = w\<lparr>set_of := set_of w - {vin}\<rparr>"

definition NewVINWhitelist :: "gostring list \<Rightarrow> VINWhitelist" where
  "NewVINWhitelist xs = fold (\<lambda>v w. w\<lparr>set_of := insert v (set_of w)\<rparr>) xs \<lparr>set_of = {}\<rparr>"

definition Whitelist_Authenticate :: "VINWhitelist \<Rightarrow> gostring \<Rightarrow> go_error + bool" where
  "Whitelist_Authenticate w vin = Inr (vin \<in> set_of w)"

definition AllowAll_Authenticate :: "gostring \<Rightarrow> go_error + bool" where
  "AllowAll_Authenticate vin = Inr True"

lemma set_of_NewVINWhitelist: "set_of (NewVINWhitelist xs) = set xs"
proof -
  have "set_of (fold (\<lambda>v w. w\<lparr>set_of := insert v (set_of w)\<rparr>) xs w) = set xs \<union> set_of w" for w :: VINWhitelist
    by (induction xs arbitrary: w) auto
  then show ?thesis by (simp add: NewVINWhitelist_def)
qed

section \<open>Properties\<close>

text \<open>
  C35: the registry per VIN. A lookup by VIN returns the connection that logged in first and is still
  registered; the count is the number of VINs for which a lookup finds a connection, so a login
  counts a VIN once; and removing a connection that logged in once under its VIN restores every
  list and the count.
\<close>

theorem registry_login_close:
  assumes "registry_inv r" and "c \<notin> set (getAll r vin)"
  shows "get (add r vin c) vin = (case get r vin of None \<Rightarrow> Some c | Some c' \<Rightarrow> Some c') \<and>
    count r = card {v. get r v \<noteq> None} \<and>
    count (add r vin c) = (if get r vin = None then count r + 1 else count r) \<and>
    registry_inv (add r vin c) \<and> registry_inv (remove (add r vin c) vin c) \<and>
    getAll (remove (add r vin c) vin c) v' = getAll r v' \<and>
    count (remove (add r vin c) vin c) = count r"
proof -
  have eq: "getAll (remove (add r vin c) vin c) = getAll r"
    using reg.remove_add [OF assms(2)] by (intro ext)
  have inv: "registry_inv (add r vin c)" "registry_inv (remove (add r vin c) vin c)"
    by (intro reg.inv_remove reg.inv_add assms(1))+
  note n = reg.count_vins [OF assms(1)] and n1 = reg.count_vins [OF inv(1)] and n2 = reg.count_vins [OF inv(2)]
  have g: "get q v \<noteq> None \<longleftrightarrow> getAll q v \<noteq> []" for q :: "'a vinRegistry" and v
    by (simp add: reg.get_first split: list.split)
  have "{v. getAll (add r vin c) v \<noteq> []} = insert vin {v. getAll r v \<noteq> []}"
    by (auto simp: reg.getAll_add)
  then have "count (add r vin c) = (if get r vin = None then count r + 1 else count r)"
    using n n1 g [of r vin] by (simp add: card_insert_if)
  then show ?thesis using eq reg.get_add [of r vin c] inv n n2 g by simp
qed

theorem registry_login_close_witness:
  "get (add newVinRegistry (str ''V'') (3 :: nat)) (str ''V'') = Some 3 \<and>
   count (add newVinRegistry (str ''V'') (3 :: nat)) = 1 \<and>
   getAll (remove (add newVinRegistry (str ''V'') (3 :: nat)) (str ''V'') 3) (str ''V'') = []"
  using registry_login_close [of newVinRegistry "3 :: nat" "str ''V''" "str ''V''"]
  by (simp add: reg.inv_new reg.getAll_new reg.get_first)

text \<open>
  A connection that logs in twice under one VIN stays in the registry after it is removed once.
\<close>

theorem registry_double_login_stale:
  assumes "c \<notin> set (getAll r vin)"
  shows "c \<in> set (getAll (remove (add (add r vin c) vin c) vin c) vin)"
  using reg.remove_add_twice [OF assms] by simp

theorem registry_double_login_stale_witness:
  "(3 :: nat) \<in> set (getAll (remove (add (add newVinRegistry (str ''V'') 3) (str ''V'') 3) (str ''V'') 3) (str ''V''))"
  using registry_double_login_stale [of "3 :: nat" newVinRegistry "str ''V''"] by (simp add: reg.getAll_new)

text \<open>
  The whitelist accepts exactly the VINs it was built from, plus those added and minus those
  removed since, and never reports an error.
\<close>

theorem whitelist_members:
  "Whitelist_Authenticate (NewVINWhitelist xs) v = Inr (v \<in> set xs) \<and>
   Whitelist_Authenticate (Whitelist_Add w vin) v =
     (if v = vin then Inr True else Whitelist_Authenticate w v) \<and>
   Whitelist_Authenticate (Whitelist_Remove w vin) v =
     (if v = vin then Inr False else Whitelist_Authenticate w v)"
  by (simp add: Whitelist_Authenticate_def set_of_NewVINWhitelist Whitelist_Add_def Whitelist_Remove_def)

end
