(* ===== verification/Server_State.thy ===== *)
theory Server_State
  imports Registry Crypto Payload
begin

text \<open>
  The state of the server (\<^verbatim>\<open>server.go\<close>, \<^verbatim>\<open>conn.go\<close>), its interfaces to the application
  (\<^verbatim>\<open>events.go\<close>, \<^verbatim>\<open>interfaces.go\<close>) and its options (\<^verbatim>\<open>options.go\<close>).
  Connections live in a heap, a list indexed by references; maps and registries hold references, so
  that two names of one connection see the same state, as pointers do.
  The fields of the Go structure \<^verbatim>\<open>Server\<close> that no operation changes after \<^verbatim>\<open>NewServer\<close> are the record
  \<open>Server\<close>, those that change are the record \<open>World\<close>, with the clock and the state \<open>app\<close> of the
  application's own code.
  A callback of the application is a function of the world: it may send, close connections or
  change \<open>app\<close>, and what it may not do is a contract stated where it is needed.
  Log output, socket deadlines and keep-alive settings have no effect on this state and are left
  out; a callback is assumed not to panic.
\<close>

section \<open>Connections\<close>

datatype ConnectionState = ConnNew | ConnLoggedIn | ConnClosed

text \<open>
  \<^verbatim>\<open>ConnectionState\<close> is an integer type, ordered by its constants.
\<close>

instantiation ConnectionState :: linorder
begin

definition less_eq_ConnectionState :: "ConnectionState \<Rightarrow> ConnectionState \<Rightarrow> bool" where
  "less_eq_ConnectionState a b \<longleftrightarrow> a = b \<or> a = ConnNew \<or> b = ConnClosed"

definition less_ConnectionState :: "ConnectionState \<Rightarrow> ConnectionState \<Rightarrow> bool" where
  "less_ConnectionState a b \<longleftrightarrow> a \<noteq> b \<and> (a = ConnNew \<or> b = ConnClosed)"

instance
proof
  fix x y z :: ConnectionState
  show "(x < y) = (x \<le> y \<and> \<not> y \<le> x)" "x \<le> x" "x \<le> y \<Longrightarrow> y \<le> z \<Longrightarrow> x \<le> z"
    "x \<le> y \<Longrightarrow> y \<le> x \<Longrightarrow> x = y" "x \<le> y \<or> y \<le> x"
    by (cases x; cases y; cases z; simp add: less_eq_ConnectionState_def less_ConnectionState_def)+
qed

end

text \<open>
  A connection. \<open>encryptKey\<close> is \<open>None\<close> for nil; \<open>ctx_done\<close> says that its context was cancelled,
  \<open>sock_closed\<close> that its socket was closed, \<open>written\<close> what was written to the socket, one packet
  (or, after an error, the part of it that was written) per \<^verbatim>\<open>Write\<close>. The decoder is used by the connection's own goroutine only and is passed
  separately.
\<close>

record Connection =
  conn_id :: gostring
  conn_state :: ConnectionState
  conn_vin :: gostring
  conn_iccid :: gostring
  createdAt :: Time
  lastSeen :: int
  encryptKey :: "bytes option"
  ctx_done :: bool
  sock_closed :: bool
  written :: "bytes list"

text \<open>\<^verbatim>\<open>t.Unix()\<close>, and \<^verbatim>\<open>time.Unix(sec, 0)\<close> in UTC.\<close>

definition unix_epoch :: int where
  "unix_epoch = 62135596800"

definition Unix :: "Time \<Rightarrow> int" where
  "Unix t = tsec t - unix_epoch"

definition time_Unix :: "int \<Rightarrow> Time" where
  "time_Unix s = \<lparr>tsec = s + unix_epoch, tnsec = 0, toff = 0\<rparr>"

section \<open>Messages to forwarders (packet.go)\<close>

datatype fwd_data =
    FLogin VehicleLoginData
  | FLogout VehicleLogoutData
  | FRealtime RealtimeMessage
  | FReissue ReissueMessage

record ForwardMsg =
  FType :: string
  FVIN :: gostring
  FData :: fwd_data

definition newForwardMsg :: "string \<Rightarrow> gostring \<Rightarrow> fwd_data \<Rightarrow> ForwardMsg" where
  "newForwardMsg msgType v data = \<lparr>FType = msgType, FVIN = v, FData = data\<rparr>"

section \<open>The world\<close>

text \<open>
  \<open>forwarded\<close> lists the goroutines that \<^verbatim>\<open>forward\<close> started, one per forwarder and message.
  \<open>listener\<close> is \<open>None\<close> for nil and otherwise says whether the listener was closed.
  \<^verbatim>\<open>atomic.Int64\<close> counters are \<open>int\<close>: no run reaches 2 to the 63 connections.
\<close>

record 'a World =
  heap :: "Connection list"
  connections :: "gostring \<rightharpoonup> nat"
  connCount :: int
  vinReg :: "nat vinRegistry"
  forwarded :: "(nat \<times> ForwardMsg) list"
  forwarders_closed :: "nat list"
  now :: Time
  server_done :: bool
  listener :: "bool option"
  app :: 'a

abbreviation conn :: "'a World \<Rightarrow> nat \<Rightarrow> Connection" where
  "conn w c \<equiv> heap w ! c"

definition modc :: "nat \<Rightarrow> (Connection \<Rightarrow> Connection) \<Rightarrow> 'a World \<Rightarrow> 'a World" where
  "modc c f w = w\<lparr>heap := (heap w)[c := f (heap w ! c)]\<rparr>"

section \<open>Interfaces to the application (events.go, interfaces.go)\<close>

record ParamQueryResponse =
  PQRCount :: byte
  PQRParams :: "ParamItem list"

record 'a Handler =
  OnVehicleLogin :: "'a World \<Rightarrow> nat \<Rightarrow> VehicleLoginData \<Rightarrow> 'a World \<times> (go_error + LoginResponse option)"
  OnVehicleLogout :: "'a World \<Rightarrow> nat \<Rightarrow> VehicleLogoutData \<Rightarrow> 'a World \<times> go_error option"
  OnRealtimeData :: "'a World \<Rightarrow> nat \<Rightarrow> RealtimeMessage \<Rightarrow> 'a World \<times> go_error option"
  OnReissueData :: "'a World \<Rightarrow> nat \<Rightarrow> ReissueMessage \<Rightarrow> 'a World \<times> go_error option"
  OnHeartbeat :: "'a World \<Rightarrow> nat \<Rightarrow> 'a World \<times> go_error option"

record 'a TimeProvider =
  OnTimeCalibration :: "'a World \<Rightarrow> nat \<Rightarrow> 'a World \<times> (go_error + Time)"

record 'a PlatformHandler =
  OnPlatformLoginRequest :: "'a World \<Rightarrow> nat \<Rightarrow> PlatformLoginData \<Rightarrow> 'a World \<times> go_error option"
  OnPlatLoginResponse :: "'a World \<Rightarrow> nat \<Rightarrow> PlatformLoginData \<Rightarrow> 'a World \<times> go_error option"
  OnPlatLogoutResponse :: "'a World \<Rightarrow> nat \<Rightarrow> PlatformLogoutData \<Rightarrow> 'a World \<times> go_error option"

record 'a ParamHandler =
  OnParamQuery :: "'a World \<Rightarrow> nat \<Rightarrow> ParamQueryData \<Rightarrow> 'a World \<times> (go_error + ParamQueryResponse option)"
  OnParamQueryAck :: "'a World \<Rightarrow> nat \<Rightarrow> ParamQueryData \<Rightarrow> 'a World \<times> go_error option"
  OnParamSettingAck :: "'a World \<Rightarrow> nat \<Rightarrow> ParamSettingData \<Rightarrow> 'a World \<times> go_error option"

text \<open>\<^verbatim>\<open>Authenticate\<close> returns \<^verbatim>\<open>(bool, error)\<close>.\<close>

type_synonym 'a Authenticator = "'a World \<Rightarrow> gostring \<Rightarrow> 'a World \<times> (go_error + bool)"

record CryptoProvider =
  DecryptRSA :: "bytes \<Rightarrow> go_error + bytes"
  EncryptRSA :: "bytes \<Rightarrow> go_error + bytes"

section \<open>The server and its options (server.go, options.go)\<close>

text \<open>
  A \<^verbatim>\<open>time.Duration\<close> is a number of nanoseconds. A forwarder is a number; its code runs outside
  the server. \<open>socket\<close> is no field of the structure but the outside of a connection: the error,
  if any, of writing a packet to its socket, with the number of bytes written before it.
\<close>

type_synonym 'a Socket = "'a World \<Rightarrow> nat \<Rightarrow> bytes \<Rightarrow> (nat \<times> go_error) option"

record 'a Server =
  addr :: gostring
  handler :: "'a Handler option"
  auth :: "'a Authenticator option"
  forwarders :: "nat list"
  timeProvider :: "'a TimeProvider option"
  cryptoProvider :: "CryptoProvider option"
  platformHandler :: "'a PlatformHandler option"
  paramHandler :: "'a ParamHandler option"
  srv_timeCodec :: TimeCodec
  srv_bccIncludeStart :: bool
  maxConns :: int
  readTimeout :: int
  writeTimeout :: int
  idleTimeout :: int
  socket :: "'a Socket"

definition second_ns :: int where
  "second_ns = 1000000000"

type_synonym 'a Option = "'a Server \<Rightarrow> 'a Server"

definition WithListenAddr :: "gostring \<Rightarrow> 'a Option" where
  "WithListenAddr a s = s\<lparr>addr := a\<rparr>"

definition WithMaxConnections :: "int \<Rightarrow> 'a Option" where
  "WithMaxConnections n s = s\<lparr>maxConns := n\<rparr>"

definition WithReadTimeout :: "int \<Rightarrow> 'a Option" where
  "WithReadTimeout d s = s\<lparr>readTimeout := d\<rparr>"

definition WithWriteTimeout :: "int \<Rightarrow> 'a Option" where
  "WithWriteTimeout d s = s\<lparr>writeTimeout := d\<rparr>"

definition WithIdleTimeout :: "int \<Rightarrow> 'a Option" where
  "WithIdleTimeout d s = s\<lparr>idleTimeout := d\<rparr>"

definition WithHandler :: "'a Handler option \<Rightarrow> 'a Option" where
  "WithHandler h s = s\<lparr>handler := h\<rparr>"

definition WithAuthenticator :: "'a Authenticator option \<Rightarrow> 'a Option" where
  "WithAuthenticator a s = s\<lparr>auth := a\<rparr>"

definition WithForwarder :: "nat list \<Rightarrow> 'a Option" where
  "WithForwarder f s = s\<lparr>forwarders := forwarders s @ f\<rparr>"

definition WithTimeProvider :: "'a TimeProvider option \<Rightarrow> 'a Option" where
  "WithTimeProvider tp s = s\<lparr>timeProvider := tp\<rparr>"

definition WithCryptoProvider :: "CryptoProvider option \<Rightarrow> 'a Option" where
  "WithCryptoProvider cp s = s\<lparr>cryptoProvider := cp\<rparr>"

definition WithPlatformHandler :: "'a PlatformHandler option \<Rightarrow> 'a Option" where
  "WithPlatformHandler ph s = s\<lparr>platformHandler := ph\<rparr>"

definition WithParamHandler :: "'a ParamHandler option \<Rightarrow> 'a Option" where
  "WithParamHandler pmh s = s\<lparr>paramHandler := pmh\<rparr>"

definition WithTimeCodec :: "TimeCodec \<Rightarrow> 'a Option" where
  "WithTimeCodec tc s = s\<lparr>srv_timeCodec := tc\<rparr>"

definition WithBCCIncludeStart :: "bool \<Rightarrow> 'a Option" where
  "WithBCCIncludeStart b s = s\<lparr>srv_bccIncludeStart := b\<rparr>"

text \<open>\<^verbatim>\<open>NewServer\<close>: the immutable part, for a given outside, and the initial world.\<close>

definition NewServer :: "'a Socket \<Rightarrow> 'a Option list \<Rightarrow> 'a Server" where
  "NewServer sock opts = fold (\<lambda>o' s. o' s) opts
     \<lparr>addr = str '':32960'', handler = None, auth = None, forwarders = [], timeProvider = None,
      cryptoProvider = None, platformHandler = None, paramHandler = None,
      srv_timeCodec = TimeCodecBCD, srv_bccIncludeStart = False,
      maxConns = 10000, readTimeout = 5 * 60 * second_ns, writeTimeout = 10 * second_ns,
      idleTimeout = 10 * 60 * second_ns, socket = sock\<rparr>"

definition NewWorld :: "Time \<Rightarrow> 'a \<Rightarrow> 'a World" where
  "NewWorld t a =
     \<lparr>heap = [], connections = Map.empty, connCount = 0, vinReg = newVinRegistry, forwarded = [],
      forwarders_closed = [], now = t, server_done = False, listener = None, app = a\<rparr>"

section \<open>Server operations (server.go)\<close>

definition ConnCount :: "'a World \<Rightarrow> int" where
  "ConnCount w = connCount w"

definition GetConnectionByVIN :: "'a World \<Rightarrow> gostring \<Rightarrow> nat option" where
  "GetConnectionByVIN w v = get (vinReg w) v"

definition GetConnection :: "'a World \<Rightarrow> gostring \<Rightarrow> nat option" where
  "GetConnection w i = (case connections w i of None \<Rightarrow> None | Some v \<Rightarrow> Some v)"

definition unregister :: "nat \<Rightarrow> 'a World \<Rightarrow> 'a World" where
  "unregister c w =
     (let w = w\<lparr>connections := (connections w)(conn_id (conn w c) := None)\<rparr>;
          w = w\<lparr>connCount := connCount w - 1\<rparr>
      in if conn_vin (conn w c) \<noteq> [] then w\<lparr>vinReg := remove (vinReg w) (conn_vin (conn w c)) c\<rparr> else w)"

definition forward :: "'a Server \<Rightarrow> ForwardMsg \<Rightarrow> 'a World \<Rightarrow> 'a World" where
  "forward s msg w = w\<lparr>forwarded := forwarded w @ map (\<lambda>f. (f, msg)) (forwarders s)\<rparr>"

end
