(* ===== verification/Conn.thy ===== *)
theory Conn
  imports Server_State
begin

text \<open>
  \<^verbatim>\<open>conn.go\<close>: sending, closing, the dispatch of one packet, and the loop over the packets of a
  read. Operations take the server, the reference of the connection and the world; \<open>None\<close> is a
  run-time panic.
\<close>

section \<open>Accessors\<close>

definition ID :: "'a World \<Rightarrow> nat \<Rightarrow> gostring" where
  "ID w c = conn_id (conn w c)"

definition Conn_VIN :: "'a World \<Rightarrow> nat \<Rightarrow> gostring" where
  "Conn_VIN w c = conn_vin (conn w c)"

definition Conn_ICCID :: "'a World \<Rightarrow> nat \<Rightarrow> gostring" where
  "Conn_ICCID w c = conn_iccid (conn w c)"

definition State :: "'a World \<Rightarrow> nat \<Rightarrow> ConnectionState" where
  "State w c = conn_state (conn w c)"

definition CreatedAt :: "'a World \<Rightarrow> nat \<Rightarrow> Time" where
  "CreatedAt w c = createdAt (conn w c)"

definition LastSeen :: "'a World \<Rightarrow> nat \<Rightarrow> Time" where
  "LastSeen w c = time_Unix (lastSeen (conn w c))"

text \<open>\<^verbatim>\<open>newConnection\<close>: a new cell of the heap; the decoder is returned beside it.\<close>

definition newConnection :: "gostring \<Rightarrow> 'a Server \<Rightarrow> 'a World \<Rightarrow> nat \<times> Decoder \<times> 'a World" where
  "newConnection i s w =
     (length (heap w),
      newDecoderWithConfig (srv_timeCodec s) (srv_bccIncludeStart s),
      w\<lparr>heap := heap w @
        [\<lparr>conn_id = i, conn_state = ConnNew, conn_vin = [], conn_iccid = [], createdAt = now w,
          lastSeen = Unix (now w), encryptKey = None, ctx_done = False, sock_closed = False,
          written = []\<rparr>]\<rparr>)"

section \<open>Sending\<close>

text \<open>
  \<^verbatim>\<open>c.conn.Write(pkt)\<close>: an error on a closed socket or where the outside reports one, after a part
  of the packet may have been written; otherwise the packet is written as a whole.
\<close>

definition Write :: "'a Server \<Rightarrow> nat \<Rightarrow> bytes \<Rightarrow> 'a World \<Rightarrow> 'a World \<times> go_error option" where
  "Write s c pkt w =
     (if sock_closed (conn w c) then (w, Some ErrClosed)
      else case socket s w c pkt of
        Some (n, e) \<Rightarrow> (modc c (\<lambda>cn. cn\<lparr>written := written cn @ [take n pkt]\<rparr>) w, Some e)
      | None \<Rightarrow> (modc c (\<lambda>cn. cn\<lparr>written := written cn @ [pkt]\<rparr>) w, None))"

definition Send :: "'a Server \<Rightarrow> nat \<Rightarrow> byte \<Rightarrow> bytes \<Rightarrow> 'a World \<Rightarrow> ('a World \<times> go_error option) option" where
  "Send s c command data w =
     (if State w c = ConnClosed then Some (w, Some ErrClosed)
      else do {
        r \<leftarrow> (case encryptKey (conn w c) of
                Some key \<Rightarrow>
                  if length data > 0
                  then map_option (map_sum id (\<lambda>e. (e, EncAES128))) (EncryptAES128 data key)
                  else Some (Inr (data, EncNone))
              | None \<Rightarrow> Some (Inr (data, EncNone)));
        (case r of
           Inl err \<Rightarrow> Some (w, Some err)
         | Inr (data, encType) \<Rightarrow>
             (case EncodeResponse command (conn_vin (conn w c)) encType data of
                Inl err \<Rightarrow> Some (w, Some err)
              | Inr pkt \<Rightarrow> Some (Write s c pkt w)))
      })"

definition sendLoginResponse :: "'a Server \<Rightarrow> nat \<Rightarrow> LoginResponse \<Rightarrow> 'a World \<Rightarrow> ('a World \<times> go_error option) option" where
  "sendLoginResponse s c resp w = Send s c CmdLogin (EncodeLoginResponse resp) w"

definition SendPlatLogin ::
    "'a Server \<Rightarrow> nat \<Rightarrow> Time \<Rightarrow> gostring \<Rightarrow> gostring \<Rightarrow> 'a World \<Rightarrow> ('a World \<times> go_error option) option" where
  "SendPlatLogin s c loginTime username password w =
     Send s c CmdPlatLogin
       (encodeTime6 loginTime @ [0, 0] @ EncodeParamString username @ EncodeParamString password) w"

definition SendPlatLogout :: "'a Server \<Rightarrow> nat \<Rightarrow> Time \<Rightarrow> 'a World \<Rightarrow> ('a World \<times> go_error option) option" where
  "SendPlatLogout s c logoutTime w = Send s c CmdPlatLogout (encodeTime6 logoutTime @ [0, 0]) w"

definition SendParamQuery :: "'a Server \<Rightarrow> nat \<Rightarrow> uint32 list \<Rightarrow> 'a World \<Rightarrow> ('a World \<times> go_error option) option" where
  "SendParamQuery s c paramIDs w =
     Send s c CmdParamQuery
       (encodeTime6 (now w) @ [word_of_nat (length paramIDs)] @ concat (map binaryPutUint32 paramIDs)) w"

text \<open>The bytes of one parameter, as both \<^verbatim>\<open>SendParamSetting\<close> and \<^verbatim>\<open>sendParamQueryResponse\<close> append them.\<close>

definition param_bytes :: "ParamItem \<Rightarrow> bytes" where
  "param_bytes p = binaryPutUint32 (ParamID p) @ [word_of_nat (length (ParamValue p))] @ ParamValue p"

definition SendParamSetting :: "'a Server \<Rightarrow> nat \<Rightarrow> ParamItem list \<Rightarrow> 'a World \<Rightarrow> ('a World \<times> go_error option) option" where
  "SendParamSetting s c params w =
     Send s c CmdParamSetting
       (encodeTime6 (now w) @ [word_of_nat (length params)] @ concat (map param_bytes params)) w"

definition sendParamQueryResponse ::
    "'a Server \<Rightarrow> nat \<Rightarrow> ParamQueryResponse \<Rightarrow> 'a World \<Rightarrow> ('a World \<times> go_error option) option" where
  "sendParamQueryResponse s c resp w =
     Send s c CmdParamQueryResp ([PQRCount resp] @ concat (map param_bytes (PQRParams resp))) w"

section \<open>Closing\<close>

definition Close :: "nat \<Rightarrow> 'a World \<Rightarrow> 'a World" where
  "Close c w =
     (if State w c = ConnClosed then w
      else unregister c
        (modc c (\<lambda>cn. cn\<lparr>conn_state := ConnClosed, ctx_done := True, sock_closed := True\<rparr>) w))"

section \<open>One packet\<close>

text \<open>
  The cases of the \<^verbatim>\<open>switch\<close> in \<^verbatim>\<open>handlePacket\<close>, each a function of the packet with its data already
  decrypted.
\<close>

definition login_auth :: "'a Server \<Rightarrow> Packet \<Rightarrow> 'a World \<Rightarrow> 'a World \<times> bool" where
  "login_auth s pkt w =
     (case auth s of
        None \<Rightarrow> (w, True)
      | Some authenticate \<Rightarrow> (case authenticate w (VIN pkt) of (w, r) \<Rightarrow> (w, r = Inr True)))"

text \<open>
  The part of the login case that calls the handler and answers; the result says whether the case
  goes on to forward the message (a handler error returns).
\<close>

definition login_reply :: "'a Server \<Rightarrow> nat \<Rightarrow> VehicleLoginData \<Rightarrow> 'a World \<Rightarrow> ('a World \<times> bool) option" where
  "login_reply s c loginData w =
     (case handler s of
        None \<Rightarrow> Some (w, True)
      | Some h \<Rightarrow>
          (case OnVehicleLogin h w c loginData of
             (w, Inl err) \<Rightarrow> Some (w, False)
           | (w, Inr None) \<Rightarrow> Some (w, True)
           | (w, Inr (Some resp)) \<Rightarrow>
               let resp = (if IsZero (RespLoginTime resp)
                     then resp\<lparr>RespLoginTime := LoginTime loginData\<rparr> else resp)
               in do {
                 (w, err) \<leftarrow> sendLoginResponse s c resp w;
                 let w = (if length (Token resp) > 0
                     then modc c (\<lambda>cn. cn\<lparr>encryptKey := Some (DeriveAESKey (Token resp))\<rparr>) w
                     else w);
                 Some (w, True)
               }))"

definition handle_login :: "'a Server \<Rightarrow> nat \<Rightarrow> Packet \<Rightarrow> 'a World \<Rightarrow> 'a World option" where
  "handle_login s c pkt w =
     (let (w, accepted) = login_auth s pkt w
      in if \<not> accepted then Some (Close c w)
      else do {
        r \<leftarrow> DecodeLoginData (Data pkt);
        (case r of
           Inl err \<Rightarrow> Some w
         | Inr loginData \<Rightarrow> do {
             let w = modc c (\<lambda>cn. cn\<lparr>conn_vin := VIN pkt, conn_iccid := ICCID loginData,
                   conn_state := ConnLoggedIn\<rparr>) w;
             let w = w\<lparr>vinReg := add (vinReg w) (VIN pkt) c\<rparr>;
             (w, go_on) \<leftarrow> login_reply s c loginData w;
             Some (if go_on then forward s (newForwardMsg ''login'' (VIN pkt) (FLogin loginData)) w else w)
           })
      })"

text \<open>Run a callback of the handler if there is one; its error is only logged.\<close>

definition notify :: "'h option \<Rightarrow> ('h \<Rightarrow> 'a World \<Rightarrow> nat \<Rightarrow> 'm \<Rightarrow> 'a World \<times> go_error option) \<Rightarrow> nat \<Rightarrow> 'm \<Rightarrow> 'a World \<Rightarrow> 'a World" where
  "notify h call c msg w = (case h of None \<Rightarrow> w | Some h \<Rightarrow> fst (call h w c msg))"

definition handle_logout :: "'a Server \<Rightarrow> nat \<Rightarrow> Packet \<Rightarrow> 'a World \<Rightarrow> 'a World option" where
  "handle_logout s c pkt w = do {
     r \<leftarrow> DecodeLogoutData (Data pkt);
     (case r of
        Inl err \<Rightarrow> Some w
      | Inr logoutData \<Rightarrow>
          let w = notify (handler s) OnVehicleLogout c logoutData w;
              w = modc c (\<lambda>cn. cn\<lparr>encryptKey := None\<rparr>) w
          in Some (forward s (newForwardMsg ''logout'' (VIN pkt) (FLogout logoutData)) w))
   }"

definition handle_realtime :: "'a Server \<Rightarrow> nat \<Rightarrow> Packet \<Rightarrow> 'a World \<Rightarrow> 'a World option" where
  "handle_realtime s c pkt w = do {
     r \<leftarrow> DecodeRealtimeData (Data pkt);
     (case r of
        Inl err \<Rightarrow> Some w
      | Inr msg \<Rightarrow>
          let w = notify (handler s) OnRealtimeData c msg w
          in Some (forward s (newForwardMsg ''realtime'' (VIN pkt) (FRealtime msg)) w))
   }"

definition handle_reissue :: "'a Server \<Rightarrow> nat \<Rightarrow> Packet \<Rightarrow> 'a World \<Rightarrow> 'a World option" where
  "handle_reissue s c pkt w = do {
     r \<leftarrow> DecodeReissueData (Data pkt);
     (case r of
        Inl err \<Rightarrow> Some w
      | Inr msg \<Rightarrow>
          let w = notify (handler s) OnReissueData c msg w
          in Some (forward s (newForwardMsg ''reissue'' (VIN pkt) (FReissue msg)) w))
   }"

definition handle_heartbeat :: "'a Server \<Rightarrow> nat \<Rightarrow> 'a World \<Rightarrow> 'a World option" where
  "handle_heartbeat s c w =
     (let w = notify (handler s) (\<lambda>h w c msg. OnHeartbeat h w c) c () w
      in map_option fst (Send s c CmdHeartbeat (encodeBCDTime (in_UTC (now w))) w))"

definition handle_time_calibration :: "'a Server \<Rightarrow> nat \<Rightarrow> 'a World \<Rightarrow> 'a World option" where
  "handle_time_calibration s c w =
     (let (w, tp) =
        (case timeProvider s of
           None \<Rightarrow> (w, in_UTC (now w))
         | Some p \<Rightarrow>
             (case OnTimeCalibration p w c of
                (w, Inl err) \<Rightarrow> (w, in_UTC (now w))
              | (w, Inr t) \<Rightarrow> (w, t)))
      in map_option fst (Send s c CmdTimeCalibr (encodeTime6 tp) w))"

definition handle_plat_login :: "'a Server \<Rightarrow> nat \<Rightarrow> Packet \<Rightarrow> 'a World \<Rightarrow> 'a World option" where
  "handle_plat_login s c pkt w =
     (case platformHandler s of
        None \<Rightarrow> Some w
      | Some ph \<Rightarrow> do {
          r \<leftarrow> DecodePlatLoginResponse (Data pkt);
          (case r of
             Inl err \<Rightarrow> Some w
           | Inr msg \<Rightarrow>
               if Response pkt = ReqRequest then Some (fst (OnPlatformLoginRequest ph w c msg))
               else Some (fst (OnPlatLoginResponse ph w c msg)))
        })"

definition handle_plat_logout :: "'a Server \<Rightarrow> nat \<Rightarrow> Packet \<Rightarrow> 'a World \<Rightarrow> 'a World option" where
  "handle_plat_logout s c pkt w =
     (case platformHandler s of
        None \<Rightarrow> Some w
      | Some ph \<Rightarrow> do {
          r \<leftarrow> DecodePlatLogoutResponse (Data pkt);
          (case r of
             Inl err \<Rightarrow> Some w
           | Inr msg \<Rightarrow> Some (fst (OnPlatLogoutResponse ph w c msg)))
        })"

definition handle_param_query :: "'a Server \<Rightarrow> nat \<Rightarrow> Packet \<Rightarrow> 'a World \<Rightarrow> 'a World option" where
  "handle_param_query s c pkt w =
     (case paramHandler s of
        None \<Rightarrow> Some w
      | Some pmh \<Rightarrow> do {
          r \<leftarrow> DecodeParamQueryData (Data pkt);
          (case r of
             Inl err \<Rightarrow> Some w
           | Inr msg \<Rightarrow>
               (case OnParamQuery pmh w c msg of
                  (w, Inl err) \<Rightarrow> Some w
                | (w, Inr None) \<Rightarrow> Some w
                | (w, Inr (Some resp)) \<Rightarrow> map_option fst (sendParamQueryResponse s c resp w)))
        })"

definition handle_param_query_resp :: "'a Server \<Rightarrow> nat \<Rightarrow> Packet \<Rightarrow> 'a World \<Rightarrow> 'a World option" where
  "handle_param_query_resp s c pkt w =
     (case paramHandler s of
        None \<Rightarrow> Some w
      | Some pmh \<Rightarrow> do {
          r \<leftarrow> DecodeParamQueryData (Data pkt);
          (case r of
             Inl err \<Rightarrow> Some w
           | Inr msg \<Rightarrow> Some (fst (OnParamQueryAck pmh w c msg)))
        })"

definition handle_param_setting :: "'a Server \<Rightarrow> nat \<Rightarrow> Packet \<Rightarrow> 'a World \<Rightarrow> 'a World option" where
  "handle_param_setting s c pkt w =
     (case paramHandler s of
        None \<Rightarrow> Some w
      | Some pmh \<Rightarrow> do {
          r \<leftarrow> DecodeParamSettingData (Data pkt);
          (case r of
             Inl err \<Rightarrow> Some w
           | Inr msg \<Rightarrow> Some (fst (OnParamSettingAck pmh w c msg)))
        })"

definition dispatch :: "'a Server \<Rightarrow> nat \<Rightarrow> Packet \<Rightarrow> 'a World \<Rightarrow> 'a World option" where
  "dispatch s c pkt w =
     (if Command pkt = CmdLogin then handle_login s c pkt w
      else if Command pkt = CmdLogout then handle_logout s c pkt w
      else if Command pkt = CmdRealtime then handle_realtime s c pkt w
      else if Command pkt = CmdReissue then handle_reissue s c pkt w
      else if Command pkt = CmdHeartbeat then handle_heartbeat s c w
      else if Command pkt = CmdTimeCalibr then handle_time_calibration s c w
      else if Command pkt = CmdPlatLogin then handle_plat_login s c pkt w
      else if Command pkt = CmdPlatLogout then handle_plat_logout s c pkt w
      else if Command pkt = CmdParamQuery then handle_param_query s c pkt w
      else if Command pkt = CmdParamQueryResp then handle_param_query_resp s c pkt w
      else if Command pkt = CmdParamSetting then handle_param_setting s c pkt w
      else Some w)"

definition handlePacket :: "'a Server \<Rightarrow> nat \<Rightarrow> Packet \<Rightarrow> 'a World \<Rightarrow> 'a World option" where
  "handlePacket s c pkt w =
     (case encryptKey (conn w c) of
        Some key \<Rightarrow>
          if EncryptType pkt = EncAES128 then do {
            r \<leftarrow> DecryptAES128 (Data pkt) key;
            (case r of
               Inl err \<Rightarrow> Some w
             | Inr data \<Rightarrow> dispatch s c (pkt\<lparr>Data := data\<rparr>) w)
          } else dispatch s c pkt w
      | None \<Rightarrow> dispatch s c pkt w)"

section \<open>The packets of one read\<close>

lemma decode_iter_Return_less:
  "decode_iter d = Some (Return (Inr (Some pkt)) d') \<Longrightarrow> limit d' - pos d' < limit d - pos d"
  by (auto simp: decode_iter_def Let_def findStartMarker_def
      dest!: marker_loop_range split: bind_splits if_splits)

lemma Decode_packet_less:
  "Decode d = Some (Inr (Some pkt), d') \<Longrightarrow> limit d' - pos d' < limit d - pos d"
proof (induction d rule: Decode.induct)
  case (1 d)
  show ?case
    using "1.prems"
    by (subst (asm) Decode.simps)
      (auto dest: decode_iter_Return_less split: option.splits loop.splits
        intro: order.strict_trans [OF "1.IH" decode_iter_Continue_less])
qed

function processPackets :: "'a Server \<Rightarrow> nat \<Rightarrow> Decoder \<Rightarrow> 'a World \<Rightarrow> (Decoder \<times> 'a World) option" where
  "processPackets s c d w =
     (case Decode d of
        None \<Rightarrow> None
      | Some (Inl err, d) \<Rightarrow> Some (d, w)
      | Some (Inr None, d) \<Rightarrow> Some (d, w)
      | Some (Inr (Some pkt), d) \<Rightarrow>
          (case handlePacket s c pkt w of None \<Rightarrow> None | Some w \<Rightarrow> processPackets s c d w))"
  by pat_completeness auto
termination
  by (relation "measure (\<lambda>(s, c, d, w). limit d - pos d)") (auto dest: Decode_packet_less)

declare processPackets.simps [simp del]

text \<open>
  One turn of the loop of \<^verbatim>\<open>run\<close>: the outcome of \<^verbatim>\<open>Read\<close> is the event. A chunk of bytes is fed and its
  packets are processed; a read error or a cancelled context ends the loop, and the deferred
  \<^verbatim>\<open>Close\<close> runs. The result says whether the loop goes on.
\<close>

datatype read_event = ReadBytes bytes | ReadError

definition run_turn :: "'a Server \<Rightarrow> nat \<Rightarrow> read_event \<Rightarrow> Decoder \<Rightarrow> 'a World \<Rightarrow> (bool \<times> Decoder \<times> 'a World) option" where
  "run_turn s c ev d w =
     (if ctx_done (conn w c) then Some (False, d, Close c w)
      else case ev of
        ReadError \<Rightarrow> Some (False, d, Close c w)
      | ReadBytes bs \<Rightarrow>
          if bs = [] then Some (True, d, w)
          else do {
            let w = modc c (\<lambda>cn. cn\<lparr>lastSeen := Unix (now w)\<rparr>) w;
            d \<leftarrow> Feed d bs;
            (d, w) \<leftarrow> processPackets s c d w;
            Some (True, d, w)
          })"

fun run :: "'a Server \<Rightarrow> nat \<Rightarrow> read_event list \<Rightarrow> Decoder \<Rightarrow> 'a World \<Rightarrow> (bool \<times> Decoder \<times> 'a World) option" where
  "run s c [] d w = Some (True, d, w)"
| "run s c (ev # evs) d w =
     (case run_turn s c ev d w of
        None \<Rightarrow> None
      | Some (False, d, w) \<Rightarrow> Some (False, d, w)
      | Some (True, d, w) \<Rightarrow> run s c evs d w)"

section \<open>Connection identifiers\<close>

text \<open>
  \<^verbatim>\<open>generateConnID\<close>: \<open>rnd\<close> is what \<^verbatim>\<open>rand.Read\<close> puts into the eight bytes, or \<open>None\<close> for its error;
  \<open>nano\<close> is the clock, after 1970.
\<close>

definition generateConnID :: "bytes option \<Rightarrow> nat \<Rightarrow> gostring" where
  "generateConnID rnd nano =
     (case rnd of
        None \<Rightarrow> hex_EncodeToString (decimal nano)
      | Some b \<Rightarrow> hex_EncodeToString b)"

end
