(* ===== verification/Conn_Props.thy ===== *)
theory Conn_Props
  imports Conn Message_Props Payload_Props Framing_Props
begin

text \<open>
  Properties of one connection: what it sends can be decoded and decrypted by the other side, no
  packet makes the dispatch panic, a rejected login closes the connection and does nothing else,
  encrypted packets are handled like their plain text, and the packets of a read are handled in
  order however the bytes were cut.
\<close>

section \<open>Simplification\<close>

lemma modc_simps [simp]:
  "connections (modc c f w) = connections w" "connCount (modc c f w) = connCount w"
  "vinReg (modc c f w) = vinReg w" "forwarded (modc c f w) = forwarded w" "now (modc c f w) = now w"
  "app (modc c f w) = app w" "length (heap (modc c f w)) = length (heap w)"
  "server_done (modc c f w) = server_done w"
  by (simp_all add: modc_def)

lemma conn_modc: "conn (modc c f w) c' = (if c' = c \<and> c < length (heap w) then f (conn w c) else conn w c')"
  by (cases "c < length (heap w)") (auto simp: modc_def nth_list_update_neq list_update_beyond)

lemma conn_modc_same [simp]: "c < length (heap w) \<Longrightarrow> conn (modc c f w) c = f (conn w c)"
  by (simp add: conn_modc)

lemma conn_modc_other [simp]: "c' \<noteq> c \<Longrightarrow> conn (modc c f w) c' = conn w c'"
  by (simp add: conn_modc)

lemma forward_simps [simp]:
  "heap (forward s m w) = heap w" "connections (forward s m w) = connections w"
  "connCount (forward s m w) = connCount w" "vinReg (forward s m w) = vinReg w"
  "now (forward s m w) = now w" "app (forward s m w) = app w"
  "server_done (forward s m w) = server_done w"
  by (simp_all add: forward_def)

lemma unregister_simps [simp]:
  "heap (unregister c w) = heap w" "connCount (unregister c w) = connCount w - 1"
  "connections (unregister c w) = (connections w)(conn_id (conn w c) := None)"
  "forwarded (unregister c w) = forwarded w" "now (unregister c w) = now w" "app (unregister c w) = app w"
  "server_done (unregister c w) = server_done w"
  by (simp_all add: unregister_def Let_def)

lemma vinReg_unregister:
  "vinReg (unregister c w) =
     (if conn_vin (conn w c) = [] then vinReg w else remove (vinReg w) (conn_vin (conn w c)) c)"
  by (simp add: unregister_def Let_def)

section \<open>Sending\<close>

text \<open>Every key of a connection comes from \<^verbatim>\<open>DeriveAESKey\<close> and has 16 bytes.\<close>

definition key_ok :: "Connection \<Rightarrow> bool" where
  "key_ok cn \<longleftrightarrow> (\<forall>key. encryptKey cn = Some key \<longrightarrow> length key = 16)"

text \<open>
  What the receiver of a packet reads: the data of a packet that is not encrypted, the decrypted
  data of one that is.
\<close>

definition opened :: "bytes option \<Rightarrow> Packet \<Rightarrow> bytes option" where
  "opened key p =
     (if EncryptType p = EncNone then Some (Data p)
      else if EncryptType p = EncAES128 then
        (case key of
           None \<Rightarrow> None
         | Some k \<Rightarrow> (case DecryptAES128 (Data p) k of Some (Inr d) \<Rightarrow> Some d | _ \<Rightarrow> None))
      else None)"

lemma EncryptAES128_Some: "\<exists>r. EncryptAES128 data key = Some r"
  using EncryptAES128_eq [of key data] by (cases "length key < 16") (auto simp: EncryptAES128_def)

text \<open>\<open>Send\<close> returns; it changes at most what was written to the socket.\<close>

lemma Send_effect:
  "(\<exists>err. Send s c command data w = Some (w, Some err)) \<or>
   (\<exists>pkt err. Send s c command data w = Some (modc c (\<lambda>cn. cn\<lparr>written := written cn @ [pkt]\<rparr>) w, err))"
proof -
  obtain r where r: "(case encryptKey (conn w c) of
      Some key \<Rightarrow> if length data > 0 then map_option (map_sum id (\<lambda>e. (e, EncAES128))) (EncryptAES128 data key)
        else Some (Inr (data, EncNone))
    | None \<Rightarrow> Some (Inr (data, EncNone))) = Some r"
    using EncryptAES128_Some [of data] by (cases "encryptKey (conn w c)") fastforce+
  then show ?thesis
    unfolding Send_def
    by (auto simp: Write_def split: sum.splits option.splits)
qed

text \<open>What is sealed for the wire: padded to whole blocks where there is a key and something to encrypt.\<close>

definition sealed_length :: "bytes option \<Rightarrow> bytes \<Rightarrow> nat" where
  "sealed_length key data = (if key = None \<or> data = [] then length data else 16 * (length data div 16 + 1))"

lemma Send_packet:
  assumes "State w c \<noteq> ConnClosed" "key_ok (conn w c)" "length (conn_vin (conn w c)) = 17"
  shows "\<exists>e t. length e = sealed_length (encryptKey (conn w c)) data \<and>
    opened (encryptKey (conn w c)) (response_packet command (conn_vin (conn w c)) t e) = Some data \<and>
    Send s c command data w = Some (Write s c (wire_frame (response_packet command (conn_vin (conn w c)) t e)) w)"
proof (cases "encryptKey (conn w c) = None \<or> data = []")
  case True
  then have "Send s c command data w =
      Some (Write s c (wire_frame (response_packet command (conn_vin (conn w c)) EncNone data)) w)"
    using assms(1,3) by (auto simp: Send_def EncodeResponse_wire_frame split: option.splits)
  then show ?thesis
    using True by (intro exI [of _ data] exI [of _ EncNone]) (simp add: opened_def response_packet_def sealed_length_def)
next
  case False
  then obtain key where key: "encryptKey (conn w c) = Some key" "length key = 16"
    using assms(2) by (auto simp: key_ok_def)
  obtain e where e: "EncryptAES128 data key = Some (Inr e)" "length e = 16 * (length data div 16 + 1)"
    "DecryptAES128 e key = Some (Inr data)"
    using encrypt_decrypt [of key data] key(2) by auto
  have "Send s c command data w =
      Some (Write s c (wire_frame (response_packet command (conn_vin (conn w c)) EncAES128 e)) w)"
    using False key e assms(1,3) by (simp add: Send_def EncodeResponse_wire_frame)
  then show ?thesis
    using False key e by (intro exI [of _ e] exI [of _ EncAES128]) (simp add: opened_def response_packet_def sealed_length_def)
qed

lemma response_frame_length:
  assumes "length vin = 17"
  shows "length (wire_frame (response_packet command vin t e)) = 25 + length e"
    "data_length (wire_frame (response_packet command vin t e)) = length e mod 65536"
  using EncodeResponse_length_wraps [of vin command t e] assms by (simp_all add: EncodeResponse_wire_frame)

lemma Decode_wire_frame:
  "wf_packet p \<Longrightarrow> \<exists>d1 d2. Feed NewDecoder (wire_frame p) = Some d1 \<and> Decode d1 = Some (Inr (Some p), d2)"
  using dec.noisy_frame [OF NewDecoder_ok, of "[]" p "[]"] by (auto simp: quiet_def)

text \<open>A connection and a world for concrete instances: one connection, logged in, with a key.\<close>

definition sample_conn :: Connection where
  "sample_conn = \<lparr>conn_id = str ''c0'', conn_state = ConnLoggedIn, conn_vin = str ''LTEST0000000000A1'',
     conn_iccid = [], createdAt = Date 2026 6 15 18 48 30, lastSeen = 0, encryptKey = Some (replicate 16 7),
     ctx_done = False, sock_closed = False, written = []\<rparr>"

definition sample_world :: "Connection \<Rightarrow> nat World" where
  "sample_world cn = (NewWorld (Date 2026 6 15 18 48 30) 0)
     \<lparr>heap := [cn], connections := [conn_id cn \<mapsto> 0], connCount := 1,
      vinReg := add newVinRegistry (conn_vin cn) 0\<rparr>"

definition open_sockets :: "'a Socket" where
  "open_sockets w c pkt = None"

lemma sample_simps [simp]:
  "conn (sample_world cn) 0 = cn" "length (heap (sample_world cn)) = 1"
  "socket (NewServer open_sockets []) w c pkt = None"
  by (simp_all add: sample_world_def NewServer_def open_sockets_def)

text \<open>
  C10: what a connection sends. On an open, logged-in connection whose socket accepts the packet, one
  frame is written, with the data padded and encrypted where the connection has a key. As long as that
  gives fewer than 65536 bytes (data of up to 65519 bytes with a key, 65535 without), a decoder at the other end finds the packet, with the command, the VIN of the connection,
  and data that are the data sent, after decryption with the connection's key where there is one.
  If the data on the wire are 65536 bytes or more, they are sent all the same, and the length
  field announces fewer bytes than follow.
\<close>

theorem Send_received:
  assumes "c < length (heap w)" and "State w c \<noteq> ConnClosed" and "key_ok (conn w c)"
    and "length (conn_vin (conn w c)) = 17"
    and "\<not> sock_closed (conn w c)" and "\<forall>pkt. socket s w c pkt = None"
  shows "\<exists>w' pkt. Send s c command data w = Some (w', None) \<and>
    written (conn w' c) = written (conn w c) @ [pkt] \<and>
    length pkt = 25 + sealed_length (encryptKey (conn w c)) data \<and>
    (sealed_length (encryptKey (conn w c)) data < 65536 \<longrightarrow>
      (\<exists>d1 d2 p. Feed NewDecoder pkt = Some d1 \<and> Decode d1 = Some (Inr (Some p), d2) \<and>
        Command p = command \<and> VIN p = conn_vin (conn w c) \<and>
        opened (encryptKey (conn w c)) p = Some data)) \<and>
    (65536 \<le> sealed_length (encryptKey (conn w c)) data \<longrightarrow>
      data_length pkt < sealed_length (encryptKey (conn w c)) data)"
proof -
  let ?vin = "conn_vin (conn w c)" and ?key = "encryptKey (conn w c)"
  obtain e t where e: "length e = sealed_length ?key data" "opened ?key (response_packet command ?vin t e) = Some data"
    "Send s c command data w = Some (Write s c (wire_frame (response_packet command ?vin t e)) w)"
    using Send_packet [OF assms(2-4), of data command s] by blast
  let ?p = "response_packet command ?vin t e"
  have "Send s c command data w = Some (modc c (\<lambda>cn. cn\<lparr>written := written cn @ [wire_frame ?p]\<rparr>) w, None)"
    using e(3) assms(5,6) by (simp add: Write_def)
  moreover have "written (conn (modc c (\<lambda>cn. cn\<lparr>written := written cn @ [wire_frame ?p]\<rparr>) w) c) =
      written (conn w c) @ [wire_frame ?p]"
    using assms(1) by simp
  moreover have "\<exists>d1 d2 p. Feed NewDecoder (wire_frame ?p) = Some d1 \<and> Decode d1 = Some (Inr (Some p), d2) \<and>
      Command p = command \<and> VIN p = ?vin \<and> opened ?key p = Some data" if "sealed_length ?key data < 65536"
  proof -
    have "wf_packet ?p" using assms(4) e(1) that by (intro wf_response_packet) simp_all
    from Decode_wire_frame [OF this] e(2) show ?thesis by (fastforce simp: response_packet_def)
  qed
  moreover have "length (wire_frame ?p) = 25 + sealed_length ?key data"
    "65536 \<le> sealed_length ?key data \<Longrightarrow> data_length (wire_frame ?p) < sealed_length ?key data"
    using response_frame_length [OF assms(4), of command t e] e(1) by (simp_all add: less_le_trans [of _ 65536])
  ultimately show ?thesis by blast
qed

theorem Send_received_witness:
  "\<exists>w' pkt d1 d2 p. Send (NewServer open_sockets []) 0 CmdHeartbeat [1, 2, 3] (sample_world sample_conn) = Some (w', None) \<and>
    written (conn w' 0) = [pkt] \<and>
    Feed NewDecoder pkt = Some d1 \<and> Decode d1 = Some (Inr (Some p), d2) \<and> Command p = CmdHeartbeat \<and>
    VIN p = str ''LTEST0000000000A1'' \<and> opened (Some (replicate 16 7)) p = Some [1, 2, 3]"
  using Send_received [of 0 "sample_world sample_conn" "NewServer open_sockets []" CmdHeartbeat "[1, 2, 3]"]
  by (simp add: State_def key_ok_def sample_conn_def str_def sealed_length_def) blast

text \<open>
  Nothing can be sent before login. As long as the connection has no VIN of 17 bytes, \<^verbatim>\<open>Send\<close>
  fails with \<^verbatim>\<open>ErrInvalidVIN\<close> and writes nothing, so heartbeats and time requests of a device that
  has not logged in stay unanswered; on a closed connection it fails with \<^verbatim>\<open>net.ErrClosed\<close>.
\<close>

theorem Send_before_login:
  assumes "encryptKey (conn w c) = None" and "length (conn_vin (conn w c)) \<noteq> 17"
  shows "Send s c command data w =
    Some (w, Some (if State w c = ConnClosed then ErrClosed else ErrInvalidVIN))"
  using assms by (simp add: Send_def EncodeResponse_def)

theorem Send_before_login_witness:
  "Send (NewServer open_sockets []) 0 CmdHeartbeat [1]
     (sample_world (sample_conn\<lparr>conn_state := ConnNew, conn_vin := [], encryptKey := None\<rparr>)) =
   Some (sample_world (sample_conn\<lparr>conn_state := ConnNew, conn_vin := [], encryptKey := None\<rparr>), Some ErrInvalidVIN)"
  using Send_before_login
    [of "sample_world (sample_conn\<lparr>conn_state := ConnNew, conn_vin := [], encryptKey := None\<rparr>)" 0
      "NewServer open_sockets []" CmdHeartbeat "[1]"]
  by (simp add: State_def)

section \<open>One packet\<close>

lemma Send_Some: "\<exists>w' e. Send s c command data w = Some (w', e)"
  using Send_effect [of s c command data w] by blast

lemma map_fst_Send_Some: "\<exists>w'. map_option fst (Send s c command data w) = Some w'"
  using Send_Some [of s c command data w] by auto

lemma payload_Some:
  "\<exists>res. DecodeLoginData data = Some res" "\<exists>res. DecodeLogoutData data = Some res"
  "\<exists>res. DecodeRealtimeData data = Some res" "\<exists>res. DecodeReissueData data = Some res"
  "\<exists>res. DecodePlatLoginResponse data = Some res" "\<exists>res. DecodePlatLogoutResponse data = Some res"
  "\<exists>res. DecodeParamQueryData data = Some res" "\<exists>res. DecodeParamSettingData data = Some res"
  using payload_total DecodeRealtimeData_Some DecodeReissueData_result
  unfolding DecodeLoginData_def DecodeLogoutData_def DecodeRealtimeData_def DecodeReissueData_def
    DecodePlatLoginResponse_def DecodePlatLogoutResponse_def DecodeParamQueryData_def
    DecodeParamSettingData_def by blast+

lemmas handle_defs =
  handle_login_def handle_logout_def handle_realtime_def handle_reissue_def handle_heartbeat_def
  handle_time_calibration_def handle_plat_login_def handle_plat_logout_def handle_param_query_def
  handle_param_query_resp_def handle_param_setting_def

lemma login_reply_Some: "\<exists>w' b. login_reply s c loginData w = Some (w', b)"
proof (cases "handler s")
  case (Some h)
  obtain w1 r where h: "OnVehicleLogin h w c loginData = (w1, r)" by fastforce
  show ?thesis
  proof (cases "r = Inr None \<or> (\<exists>e. r = Inl e)")
    case False
    then obtain resp where r: "r = Inr (Some resp)" by (metis not_None_eq sum.exhaust)
    define resp' where "resp' = (if IsZero (RespLoginTime resp)
      then resp\<lparr>RespLoginTime := LoginTime loginData\<rparr> else resp)"
    obtain w2 e where "sendLoginResponse s c resp' w1 = Some (w2, e)"
      using Send_Some unfolding sendLoginResponse_def by blast
    then show ?thesis using Some h r by (auto simp: login_reply_def Let_def resp'_def)
  qed (use Some h in \<open>auto simp: login_reply_def\<close>)
qed (auto simp: login_reply_def)

lemma handle_login_Some: "\<exists>w'. handle_login s c pkt w = Some w'"
proof -
  obtain w1 b where a: "login_auth s pkt w = (w1, b)" by fastforce
  obtain r where r: "DecodeLoginData (Data pkt) = Some r" using payload_Some(1) by blast
  show ?thesis
  proof (cases r)
    case (Inr loginData)
    let ?w = "modc c (\<lambda>cn. cn\<lparr>conn_vin := VIN pkt, conn_iccid := ICCID loginData,
        conn_state := ConnLoggedIn\<rparr>) w1"
    obtain w2 g where "login_reply s c loginData (?w\<lparr>vinReg := add (vinReg ?w) (VIN pkt) c\<rparr>) = Some (w2, g)"
      using login_reply_Some by blast
    then show ?thesis by (cases b) (simp_all add: handle_login_def a r Inr Let_def)
  qed (simp add: handle_login_def a r)
qed

lemma dispatch_Some: "\<exists>w'. dispatch s c pkt w = Some w'"
proof -
  note p = payload_Some [of "Data pkt"]
  have "\<exists>w'. handle_logout s c pkt w = Some w'" "\<exists>w'. handle_realtime s c pkt w = Some w'"
    "\<exists>w'. handle_reissue s c pkt w = Some w'" "\<exists>w'. handle_plat_login s c pkt w = Some w'"
    "\<exists>w'. handle_plat_logout s c pkt w = Some w'" "\<exists>w'. handle_param_query_resp s c pkt w = Some w'"
    "\<exists>w'. handle_param_setting s c pkt w = Some w'"
    using p by (auto simp: handle_defs split: option.splits sum.splits)
  moreover have "\<exists>w'. handle_heartbeat s c w = Some w'"
    unfolding handle_heartbeat_def Let_def by (rule map_fst_Send_Some)
  moreover have "\<exists>w'. handle_time_calibration s c w = Some w'"
    unfolding handle_time_calibration_def Let_def split_def by (rule map_fst_Send_Some)
  moreover have "\<exists>w'. handle_param_query s c pkt w = Some w'"
    using p(7) map_fst_Send_Some [unfolded option.map_comp]
    by (auto simp: handle_param_query_def sendParamQueryResponse_def Send_Some simp del: map_option_eq_Some
        split: option.split sum.split prod.split)
  ultimately show ?thesis using handle_login_Some [of s c pkt w] by (simp add: dispatch_def)
qed

lemma DecryptAES128_Some: "\<exists>r. DecryptAES128 data key = Some r"
proof (cases "length key < 16 \<or> length data mod 16 \<noteq> 0")
  case False
  then show ?thesis
    using pkcs7Unpad_Some [of "cbc_decrypt (aes_decrypt (take 16 key)) (take 16 key) (blocks 16 data)"]
    by (auto simp: DecryptAES128_eq)
qed (auto simp: DecryptAES128_def)

lemma handlePacket_Some: "\<exists>w'. handlePacket s c pkt w = Some w'"
proof (cases "encryptKey (conn w c)")
  case (Some key)
  obtain r where "DecryptAES128 (Data pkt) key = Some r" using DecryptAES128_Some by blast
  with Some show ?thesis
    using dispatch_Some by (auto simp: handlePacket_def split: sum.split)
qed (simp add: handlePacket_def dispatch_Some)

text \<open>The dispatch reads the command, the response flag, the VIN and the data of a packet.\<close>

lemma dispatch_cong:
  assumes "Command p = Command q" "Response p = Response q" "VIN p = VIN q" "Data p = Data q"
  shows "dispatch s c p w = dispatch s c q w"
  unfolding dispatch_def handle_defs login_auth_def assms by (rule refl)

text \<open>
  C27: handling a packet never panics, whatever its command, its data, the state of the connection and
  the callbacks of the application.
\<close>

theorem handlePacket_total: "\<exists>w'. handlePacket s c pkt w = Some w'"
  by (rule handlePacket_Some)

text \<open>
  An encrypted packet is handled as its plain text. On a connection with key \<open>key\<close>, a packet of
  any command whose data were encrypted with that key has the same effect as the packet with the
  plain data.
\<close>

theorem handlePacket_encrypted:
  assumes "encryptKey (conn w c) = Some key" and "16 \<le> length key"
  shows "\<exists>e. EncryptAES128 plain key = Some (Inr e) \<and>
    handlePacket s c (pkt\<lparr>EncryptType := EncAES128, Data := e\<rparr>) w =
    handlePacket s c (pkt\<lparr>EncryptType := EncNone, Data := plain\<rparr>) w"
proof -
  obtain e where e: "EncryptAES128 plain key = Some (Inr e)" "DecryptAES128 e key = Some (Inr plain)"
    using encrypt_decrypt [OF assms(2), of plain] by blast
  have "dispatch s c (pkt\<lparr>EncryptType := EncAES128, Data := plain\<rparr>) w =
      dispatch s c (pkt\<lparr>EncryptType := EncNone, Data := plain\<rparr>) w"
    by (rule dispatch_cong) simp_all
  then show ?thesis using e assms(1) by (simp add: handlePacket_def)
qed

theorem handlePacket_encrypted_witness:
  "\<exists>e. EncryptAES128 [1, 2] (replicate 16 7) = Some (Inr e) \<and>
    handlePacket (NewServer open_sockets []) 0
      \<lparr>Command = CmdRealtime, Response = 0xFE, VIN = str ''LTEST0000000000A1'', EncryptType = EncAES128,
       Data = e, Length = 16\<rparr> (sample_world sample_conn) =
    handlePacket (NewServer open_sockets []) 0
      \<lparr>Command = CmdRealtime, Response = 0xFE, VIN = str ''LTEST0000000000A1'', EncryptType = EncNone,
       Data = [1, 2], Length = 16\<rparr> (sample_world sample_conn)"
  using handlePacket_encrypted [of "sample_world sample_conn" 0 "replicate 16 7" "[1, 2]" "NewServer open_sockets []"
      "\<lparr>Command = CmdRealtime, Response = 0xFE, VIN = str ''LTEST0000000000A1'', EncryptType = EncNone,
        Data = [], Length = 16\<rparr>"]
  by (simp add: sample_conn_def)

lemma Close_simps:
  assumes "c < length (heap w)" "State w c \<noteq> ConnClosed"
  shows "State (Close c w) c = ConnClosed" "written (conn (Close c w) c) = written (conn w c)"
    "c' \<noteq> c \<Longrightarrow> conn (Close c w) c' = conn w c'" "connCount (Close c w) = connCount w - 1"
    "connections (Close c w) = (connections w)(conn_id (conn w c) := None)"
    "sock_closed (conn (Close c w) c)" "ctx_done (conn (Close c w) c)"
    "conn_vin (conn (Close c w) c) = conn_vin (conn w c)"
  using assms by (simp_all add: Close_def State_def)

lemma Close_frame [simp]:
  "forwarded (Close c w) = forwarded w" "app (Close c w) = app w" "now (Close c w) = now w"
  "length (heap (Close c w)) = length (heap w)"
  by (simp_all add: Close_def)

text \<open>
  C26: a login that the authenticator rejects (or fails on) closes the connection and does nothing
  else: no handler runs, nothing is forwarded or written, other connections keep their state, and
  the connection is no longer found by its identifier.
\<close>

theorem login_rejected:
  assumes "auth s = Some authenticate" and "authenticate w (VIN pkt) = (w, r)" and "r \<noteq> Inr True"
    and "Command pkt = CmdLogin" and "encryptKey (conn w c) = None"
    and "c < length (heap w)" and "State w c \<noteq> ConnClosed"
  shows "\<exists>w'. handlePacket s c pkt w = Some w' \<and> State w' c = ConnClosed \<and>
    written (conn w' c) = written (conn w c) \<and> forwarded w' = forwarded w \<and> app w' = app w \<and>
    (\<forall>c'. c' \<noteq> c \<longrightarrow> conn w' c' = conn w c') \<and> GetConnection w' (conn_id (conn w c)) = None"
proof -
  have "handlePacket s c pkt w = Some (Close c w)"
    using assms(1-5) by (simp add: handlePacket_def dispatch_def handle_login_def login_auth_def)
  then show ?thesis using Close_simps [OF assms(6,7)] by (auto simp: GetConnection_def)
qed

theorem login_rejected_witness:
  "\<exists>w'. handlePacket (NewServer open_sockets [WithAuthenticator (Some (\<lambda>w v. (w, Whitelist_Authenticate (NewVINWhitelist []) v)))])
      0 \<lparr>Command = CmdLogin, Response = 0xFE, VIN = str ''X'', EncryptType = EncNone, Data = [], Length = 0\<rparr>
      (sample_world (sample_conn\<lparr>conn_state := ConnNew, encryptKey := None\<rparr>)) = Some w' \<and>
    State w' 0 = ConnClosed \<and> forwarded w' = []"
  using login_rejected
    [of "NewServer open_sockets [WithAuthenticator (Some (\<lambda>w v. (w, Whitelist_Authenticate (NewVINWhitelist []) v)))]"
      "\<lambda>w v. (w, Whitelist_Authenticate (NewVINWhitelist []) v)"
      "sample_world (sample_conn\<lparr>conn_state := ConnNew, encryptKey := None\<rparr>)"
      "\<lparr>Command = CmdLogin, Response = 0xFE, VIN = str ''X'', EncryptType = EncNone, Data = [], Length = 0\<rparr>"
      "Inr False" 0]
  by (auto simp: NewServer_def WithAuthenticator_def Whitelist_Authenticate_def NewVINWhitelist_def State_def
      sample_world_def NewWorld_def)

text \<open>
  Only login packets are authenticated. A realtime message is given to the handler and to the
  forwarders under the VIN its packet claims, whatever the state of the connection (new, logged in
  or closed), whatever VIN it logged in with and whatever authenticator is configured.
\<close>

theorem realtime_needs_no_login:
  assumes "Command pkt = CmdRealtime" and "encryptKey (conn w c) = None"
    and "DecodeRealtimeData (Data pkt) = Some (Inr msg)"
  shows "handlePacket s c pkt w =
    Some (forward s (newForwardMsg ''realtime'' (VIN pkt) (FRealtime msg))
      (notify (handler s) OnRealtimeData c msg w))"
  using assms by (simp add: handlePacket_def dispatch_def handle_realtime_def)

theorem realtime_needs_no_login_witness:
  "\<exists>msg w'. handlePacket
      (NewServer open_sockets [WithAuthenticator (Some (\<lambda>w v. (w, Inr False))), WithForwarder [5]])
      0 \<lparr>Command = CmdRealtime, Response = 0xFE, VIN = str ''SOMEBODYELSESVIN1'', EncryptType = EncNone,
         Data = replicate 6 1, Length = 6\<rparr>
      (sample_world (sample_conn\<lparr>conn_state := ConnNew, conn_vin := [], encryptKey := None\<rparr>)) = Some w' \<and>
    forwarded w' = [(5, \<lparr>FType = ''realtime'', FVIN = str ''SOMEBODYELSESVIN1'', FData = FRealtime msg\<rparr>)]"
proof -
  obtain msg n where msg: "DecodeRealtimeData (replicate 6 1) = Some (Inr msg)"
    using decode_both [of "replicate 6 1" defaultDecoder] by (auto simp: DecodeRealtimeData_def)
  let ?w = "sample_world (sample_conn\<lparr>conn_state := ConnNew, conn_vin := [], encryptKey := None\<rparr>)"
  let ?s = "NewServer open_sockets [WithAuthenticator (Some (\<lambda>w v. (w, Inr False))), WithForwarder [5]] :: nat Server"
  have "forwarded ?w = []" "forwarders ?s = [5]" "handler ?s = None"
    by (simp_all add: sample_world_def NewWorld_def NewServer_def WithAuthenticator_def WithForwarder_def)
  with realtime_needs_no_login [of "\<lparr>Command = CmdRealtime, Response = 0xFE, VIN = str ''SOMEBODYELSESVIN1'',
      EncryptType = EncNone, Data = replicate 6 1, Length = 6\<rparr>" ?w 0 msg ?s] msg
  show ?thesis by (simp add: forward_def newForwardMsg_def notify_def)
qed

section \<open>The packets of a read\<close>

text \<open>Handling a list of packets one after the other.\<close>

fun handle_all :: "'a Server \<Rightarrow> nat \<Rightarrow> Packet list \<Rightarrow> 'a World \<Rightarrow> 'a World option" where
  "handle_all s c [] w = Some w"
| "handle_all s c (p # ps) w = do { w \<leftarrow> handlePacket s c p w; handle_all s c ps w }"

lemma handle_all_Some: "\<exists>w'. handle_all s c ps w = Some w'"
proof (induction ps arbitrary: w)
  case (Cons p ps)
  then show ?case using handlePacket_Some [of s c p w] by fastforce
qed simp

lemma handle_all_append: "handle_all s c (ps @ qs) w = do { w \<leftarrow> handle_all s c ps w; handle_all s c qs w }"
proof (induction ps arbitrary: w)
  case (Cons p ps)
  then show ?case by (cases "handlePacket s c p w") simp_all
qed simp

lemma processPackets_refines:
  "decoder_inv d \<Longrightarrow>
   (case scan_all (pending d) of
      None \<Rightarrow> processPackets s c d w = None
    | Some (ps, rest) \<Rightarrow> \<exists>d'. decoder_inv d' \<and> pending d' = rest \<and>
        processPackets s c d w = map_option (Pair d') (handle_all s c ps w))"
proof (induction s c d w rule: processPackets.induct)
  case (1 s c d w)
  show ?case
  proof (cases "scan (pending d)")
    case None
    with dec.decode_law [OF "1.prems"] show ?thesis
      by (simp add: scan_all.simps [of "pending d"] processPackets.simps [of s c d w])
  next
    case (Some a)
    obtain q rest where a: "a = (q, rest)" by (cases a)
    from dec.decode_scan [OF "1.prems"] Some a
    obtain d1 where d1: "Decode d = Some (Inr q, d1)" "decoder_inv d1" "pending d1 = rest" by blast
    show ?thesis
    proof (cases q)
      case None
      with Some a d1 show ?thesis
        by (auto simp: scan_all.simps [of "pending d"] processPackets.simps [of s c d w])
    next
      case (Some p)
      obtain w1 where w1: "handlePacket s c p w = Some w1" using handlePacket_Some by blast
      have "case scan_all (pending d1) of
          None \<Rightarrow> processPackets s c d1 w1 = None
        | Some (ps, rest) \<Rightarrow> \<exists>d'. decoder_inv d' \<and> pending d' = rest \<and>
            processPackets s c d1 w1 = map_option (Pair d') (handle_all s c ps w1)"
        using "1.IH" [of "(Inr (Some p), d1)" "Inr (Some p)" d1 "Some p" p w1] d1 Some w1 by simp
      with \<open>scan (pending d) = Some a\<close> a Some d1 w1 show ?thesis
        by (auto simp: scan_all.simps [of "pending d"] processPackets.simps [of s c d w] split: option.splits)
    qed
  qed
qed

lemma scan_all_Nil [simp]: "scan_all [] = Some ([], [])"
  by (simp add: scan_all.simps scan.simps)

lemma processPackets_scan:
  assumes "decoder_inv d" and "scan_all (pending d) = Some (ps, rest)"
  obtains d' w' where "processPackets s c d w = Some (d', w')" "handle_all s c ps w = Some w'"
    "decoder_inv d'" "pending d' = rest"
  using processPackets_refines [OF assms(1), of s c w] handle_all_Some [of s c ps w] assms(2) that by auto

lemma processPackets_SomeD:
  assumes "decoder_inv d" and "processPackets s c d w = Some (d', w')"
  obtains ps where "scan_all (pending d) = Some (ps, pending d')" "handle_all s c ps w = Some w'" "decoder_inv d'"
proof (cases "scan_all (pending d)")
  case None
  then show ?thesis using processPackets_refines [OF assms(1), of s c w] assms(2) by simp
next
  case (Some a)
  then obtain ps rest where a: "scan_all (pending d) = Some (ps, rest)" by (cases a) simp
  show ?thesis
    by (rule processPackets_scan [OF assms(1) a, of s c w]) (use assms(2) a that in simp)
qed

lemma feed_process_frames:
  assumes "decoder_inv d" and "pending d = []" and "list_all wf_packet ps"
  shows "\<exists>d1 d2 w'. Feed d (concat (map wire_frame ps)) = Some d1 \<and> processPackets s c d1 w = Some (d2, w') \<and>
    handle_all s c ps w = Some w' \<and> decoder_inv d2 \<and> pending d2 = []"
proof -
  obtain d1 where d1: "Feed d (concat (map wire_frame ps)) = Some d1" "decoder_inv d1"
    "pending d1 = concat (map wire_frame ps)"
    using dec.feed_law [OF assms(1), of "concat (map wire_frame ps)"] assms(2) by auto
  have "scan_all (pending d1) = Some (ps, [])"
    using scan_all_frames [OF assms(3), of "[]"] d1(3) by simp
  from processPackets_scan [OF d1(2) this, of s c w] d1(1) show ?thesis by metis
qed

text \<open>
  Packets are handled one by one in the order they were sent. However many frames one read
  brings, the loop hands each of them to \<^verbatim>\<open>handlePacket\<close> exactly once, in order, and nothing stays
  behind in the decoder.
\<close>

theorem processPackets_in_order:
  assumes "decoder_inv d" and "pending d = []" and "list_all wf_packet ps"
  shows "\<exists>d1 d2 w'. Feed d (concat (map wire_frame ps)) = Some d1 \<and> processPackets s c d1 w = Some (d2, w') \<and>
    handle_all s c ps w = Some w' \<and> pending d2 = []"
  using feed_process_frames [OF assms] by blast

theorem processPackets_in_order_witness:
  "\<exists>d1 d2 w'. Feed NewDecoder (concat (map wire_frame [response_packet 7 (str ''LTEST0000000000A1'') 1 [],
       response_packet 8 (str ''LTEST0000000000A1'') 1 [1, 2]])) = Some d1 \<and>
    processPackets (NewServer open_sockets []) 0 d1 (sample_world sample_conn) = Some (d2, w') \<and>
    handle_all (NewServer open_sockets []) 0 [response_packet 7 (str ''LTEST0000000000A1'') 1 [],
       response_packet 8 (str ''LTEST0000000000A1'') 1 [1, 2]] (sample_world sample_conn) = Some w'"
proof -
  have "list_all wf_packet [response_packet 7 (str ''LTEST0000000000A1'') 1 [],
      response_packet 8 (str ''LTEST0000000000A1'') 1 [1, 2]]"
    by (simp add: wf_response_packet str_def)
  from processPackets_in_order [OF NewDecoder_ok this] show ?thesis by blast
qed

text \<open>
  C14: where the bytes of a connection are cut into reads. If processing a chunk \<open>a\<close> does not panic (it
  does when \<open>a\<close> ends right before the checksum of a frame) and does not drop a lone first marker
  byte at the end of \<open>a\<close>, then processing a chunk \<open>b\<close> after it has the same effect as processing
  \<open>a @ b\<close> at once: the same world and the same pending bytes, or a panic in both cases.
\<close>

theorem processPackets_chunks:
  assumes "decoder_inv d" and "Feed d a = Some d1" and "processPackets s c d1 w = Some (d2, w2)"
    and "pending d2 \<noteq> [] \<or> pending d @ a = [] \<or> last (pending d @ a) \<noteq> StartMarker1"
  shows "\<exists>d3 e1. Feed d2 b = Some d3 \<and> Feed d (a @ b) = Some e1 \<and>
    (case processPackets s c d3 w2 of
       None \<Rightarrow> processPackets s c e1 w = None
     | Some (d4, w4) \<Rightarrow> \<exists>e2. processPackets s c e1 w = Some (e2, w4) \<and> pending e2 = pending d4)"
proof -
  have f1: "decoder_inv d1" "pending d1 = pending d @ a"
    using dec.feed_law [OF assms(1), of a] assms(2) by auto
  obtain ps where ps: "scan_all (pending d @ a) = Some (ps, pending d2)" "handle_all s c ps w = Some w2"
    "decoder_inv d2"
    using processPackets_SomeD [OF f1(1) assms(3)] f1(2) by metis
  obtain d3 where d3: "Feed d2 b = Some d3" "decoder_inv d3" "pending d3 = pending d2 @ b"
    using dec.feed_law [OF ps(3), of b] by auto
  obtain e1 where e1: "Feed d (a @ b) = Some e1" "decoder_inv e1" "pending e1 = (pending d @ a) @ b"
    using dec.feed_law [OF assms(1), of "a @ b"] by auto
  have sc: "scan_all (pending e1) = map_option (apfst ((@) ps)) (scan_all (pending d3))"
    using scan_all_append [OF ps(1) assms(4), of b] d3(3) e1(3) by simp
  have "case processPackets s c d3 w2 of
       None \<Rightarrow> processPackets s c e1 w = None
     | Some (d4, w4) \<Rightarrow> \<exists>e2. processPackets s c e1 w = Some (e2, w4) \<and> pending e2 = pending d4"
  proof (cases "scan_all (pending d3)")
    case None
    then show ?thesis
      using processPackets_refines [OF d3(2), of s c w2] processPackets_refines [OF e1(2), of s c w] sc by simp
  next
    case (Some x)
    then obtain qs rest where qs: "scan_all (pending d3) = Some (qs, rest)" by (cases x) simp
    then have "scan_all (pending e1) = Some (ps @ qs, rest)" using sc by simp
    from processPackets_scan [OF e1(2) this, of s c w] processPackets_scan [OF d3(2) qs, of s c w2] ps(2)
    show ?thesis by (smt (verit) handle_all_append bind.bind_lunit case_prod_conv option.inject option.simps(5))
  qed
  with d3(1) e1(1) show ?thesis by blast
qed

theorem processPackets_chunks_witness:
  "\<exists>d1 d2 w2 d3 d4 w4 e1 e2.
    Feed NewDecoder (wire_frame (response_packet 7 (str ''LTEST0000000000A1'') 1 [])) = Some d1 \<and>
    processPackets (NewServer open_sockets []) 0 d1 (sample_world sample_conn) = Some (d2, w2) \<and>
    Feed d2 (wire_frame (response_packet 8 (str ''LTEST0000000000A1'') 1 [])) = Some d3 \<and>
    processPackets (NewServer open_sockets []) 0 d3 w2 = Some (d4, w4) \<and>
    Feed NewDecoder (wire_frame (response_packet 7 (str ''LTEST0000000000A1'') 1 [])
      @ wire_frame (response_packet 8 (str ''LTEST0000000000A1'') 1 [])) = Some e1 \<and>
    processPackets (NewServer open_sockets []) 0 e1 (sample_world sample_conn) = Some (e2, w4)"
proof -
  let ?p = "response_packet 7 (str ''LTEST0000000000A1'') 1 []"
  let ?q = "response_packet 8 (str ''LTEST0000000000A1'') 1 []"
  let ?s = "NewServer open_sockets [] :: nat Server" and ?w = "sample_world sample_conn"
  have wf: "list_all wf_packet [?p]" "list_all wf_packet [?q]" by (simp_all add: wf_response_packet str_def)
  obtain d1 d2 w2 where d: "Feed NewDecoder (wire_frame ?p) = Some d1" "processPackets ?s 0 d1 ?w = Some (d2, w2)"
    "decoder_inv d2" "pending d2 = []"
    using feed_process_frames [OF NewDecoder_ok wf(1), of ?s 0 ?w] by auto
  obtain d3 d4 w4 where d': "Feed d2 (wire_frame ?q) = Some d3" "processPackets ?s 0 d3 w2 = Some (d4, w4)"
    using feed_process_frames [OF d(3,4) wf(2), of ?s 0 w2] by auto
  have "last (pending NewDecoder @ wire_frame ?p) \<noteq> StartMarker1" by code_simp
  with processPackets_chunks [OF NewDecoder_ok(1) d(1,2), of "wire_frame ?q"] d d' show ?thesis by fastforce
qed

text \<open>
  C20: the receive loop panics only where the decoder does: on pending bytes that end, after the
  complete packets, with a frame cut right before its checksum.
\<close>

theorem processPackets_panic_iff:
  assumes "decoder_inv d"
  shows "processPackets s c d w = None \<longleftrightarrow> scan_all (pending d) = None"
proof (cases "scan_all (pending d)")
  case None
  then show ?thesis using processPackets_refines [OF assms, of s c w] by simp
next
  case (Some a)
  then obtain ps rest where a: "scan_all (pending d) = Some (ps, rest)" by (cases a) simp
  show ?thesis by (rule processPackets_scan [OF assms a, of s c w]) (use a in simp)
qed

theorem processPackets_panic_iff_witness:
  "\<exists>d1. Feed NewDecoder (take 24 (wire_frame (response_packet 7 (str ''LTEST0000000000A1'') 1 []))) = Some d1 \<and>
    processPackets (NewServer open_sockets []) 0 d1 (sample_world sample_conn) = None"
proof -
  let ?p = "response_packet 7 (str ''LTEST0000000000A1'') 1 []"
  have p: "wf_packet ?p" by (simp add: wf_response_packet str_def)
  obtain d1 where d1: "Feed NewDecoder (take 24 (wire_frame ?p)) = Some d1" "decoder_inv d1"
    "pending d1 = take 24 (wire_frame ?p)"
    using dec.feed_law [OF NewDecoder_ok(1), of "take 24 (wire_frame ?p)"] NewDecoder_ok(2) by auto
  have "scan (take 24 (wire_frame ?p)) = None"
    using scan_take_frame [OF p, of 24] by simp
  then have "scan_all (pending d1) = None" by (simp add: scan_all.simps [of "take 24 _"] d1(3))
  with processPackets_panic_iff [OF d1(2)] d1(1) show ?thesis by blast
qed

section \<open>Connection identifiers\<close>

lemma inj_hex_digit: "m < 16 \<Longrightarrow> n < 16 \<Longrightarrow> hex_digit m = hex_digit n \<Longrightarrow> m = n"
proof -
  assume "m < 16" "n < 16" "hex_digit m = hex_digit n"
  then have "unat (hex_digit m) = unat (hex_digit n)" "(if m < 10 then 48 + m else 87 + m) < 256"
    "(if n < 10 then 48 + n else 87 + n) < 256" by simp_all
  then have "(if m < 10 then 48 + m else 87 + m) = (if n < 10 then 48 + n else 87 + n)"
    unfolding hex_digit_def by (simp only: unat_of_nat_byte)
  with \<open>m < 16\<close> \<open>n < 16\<close> show "m = n" by (auto split: if_splits)
qed

lemma length_hex: "length (hex_EncodeToString bs) = 2 * length bs"
  by (induction bs) (simp_all add: hex_EncodeToString_def)

lemma inj_hex: "hex_EncodeToString a = hex_EncodeToString b \<Longrightarrow> a = b"
proof (induction a arbitrary: b)
  case Nil
  then show ?case using length_hex [of b] by (simp add: hex_EncodeToString_def)
next
  case (Cons x a)
  obtain y b' where b: "b = y # b'" using Cons.prems length_hex [of b] by (cases b) (auto simp: hex_EncodeToString_def)
  have bound: "unat z div 16 < 16" for z :: byte
    using unsigned_less [of z, where 'a = nat] by (simp add: less_mult_imp_div_less)
  have mod16: "hex_digit (m mod 16) = hex_digit (n mod 16) \<Longrightarrow> m mod 16 = n mod 16" for m n
    by (rule inj_hex_digit) simp_all
  have "hex_EncodeToString a = hex_EncodeToString b'" "unat x div 16 = unat y div 16" "unat x mod 16 = unat y mod 16"
    using Cons.prems b bound by (auto simp: hex_EncodeToString_def dest: inj_hex_digit mod16)
  then have "a = b'" "unat x = unat y" using Cons.IH by (auto, metis mod_div_mult_eq)
  then show ?case using b by (simp add: word_unat_eq_iff)
qed

text \<open>
  Identifiers are as unique as the random draws. Two connections have the same identifier
  exactly if they drew the same eight random bytes, and an identifier made from the clock, in
  nanoseconds since 1970, is different from every identifier made from random bytes.
\<close>

theorem generateConnID_unique:
  assumes "length a = 8" and "length b = 8" and "10 ^ 8 \<le> nano"
  shows "(generateConnID (Some a) t = generateConnID (Some b) t' \<longleftrightarrow> a = b) \<and>
    generateConnID (Some a) t \<noteq> generateConnID None nano \<and> length (generateConnID (Some a) t) = 16"
proof -
  have "decimal nano \<noteq> a" using decimal_lower [OF assms(3)] assms(1) by auto
  then show ?thesis using inj_hex length_hex [of a] assms(1) by (auto simp: generateConnID_def)
qed

theorem generateConnID_unique_witness:
  "generateConnID (Some (replicate 8 1)) 0 \<noteq> generateConnID (Some (replicate 8 2)) 0 \<and>
   generateConnID (Some (replicate 8 1)) 0 \<noteq> generateConnID None (10 ^ 18)"
proof -
  have "replicate 8 (1 :: byte) \<noteq> replicate 8 2" by simp
  moreover have "(10 :: nat) ^ 8 \<le> 10 ^ 18" by (rule power_increasing) simp_all
  ultimately show ?thesis
    using generateConnID_unique [of "replicate 8 1" "replicate 8 2" "10 ^ 18" 0 0] by (simp del: power_numeral)
qed

end
