(* ===== verification/Server_Steps.thy ===== *)
theory Server_Steps
  imports Conn_Props
begin

text \<open>
  The server as a whole (\<^verbatim>\<open>server.go\<close>): accepting connections, the idle check, shutdown, and the
  interleaving of all goroutines as a step relation. One step is one packet handled, one chunk
  read (the context may have been cancelled since it was checked), one probe, one close; between any
  two steps the others may run.
  \<open>uses_api\<close> says what a callback may do to the world, and the locale \<open>application\<close> collects the
  contract of the callbacks of a server.
\<close>

section \<open>Accepting (Start)\<close>

text \<open>
  One turn of the accept loop: \<open>Inl\<close> is an error of \<^verbatim>\<open>Accept\<close>, \<open>Inr i\<close> a new socket, with the
  connection identifier that \<^verbatim>\<open>generateConnID\<close> drew for it. The result says whether the loop goes on,
  and gives the connection and its decoder when one was set up.
\<close>

definition Start_turn ::
    "'a Server \<Rightarrow> go_error + gostring \<Rightarrow> 'a World \<Rightarrow> bool \<times> (nat \<times> Decoder) option \<times> 'a World" where
  "Start_turn s ev w =
     (case ev of
        Inl err \<Rightarrow> (\<not> server_done w, None, w)
      | Inr i \<Rightarrow>
          if connCount w \<ge> maxConns s then (True, None, w)
          else
            let (c, d, w) = newConnection i s w;
                w = w\<lparr>connections := (connections w)(i \<mapsto> c)\<rparr>;
                w = w\<lparr>connCount := connCount w + 1\<rparr>
            in (True, Some (c, d), w))"

text \<open>
  The accept loop over a sequence of outcomes, and \<^verbatim>\<open>Start\<close>: an error of \<^verbatim>\<open>net.Listen\<close> is returned;
  otherwise the result says whether the idle check was started, whether the loop still runs, and
  lists the connections whose goroutines were started, with their decoders.
\<close>

fun accept_loop ::
    "'a Server \<Rightarrow> (go_error + gostring) list \<Rightarrow> 'a World \<Rightarrow> bool \<times> (nat \<times> Decoder) list \<times> 'a World" where
  "accept_loop s [] w = (True, [], w)"
| "accept_loop s (ev # evs) w =
     (case Start_turn s ev w of
        (False, _, w) \<Rightarrow> (False, [], w)
      | (True, g, w) \<Rightarrow>
          (case accept_loop s evs w of
             (b, gs, w) \<Rightarrow> (b, (case g of None \<Rightarrow> gs | Some x \<Rightarrow> x # gs), w)))"

definition Start ::
    "'a Server \<Rightarrow> go_error option \<Rightarrow> (go_error + gostring) list \<Rightarrow> 'a World \<Rightarrow>
     go_error + bool \<times> bool \<times> (nat \<times> Decoder) list \<times> 'a World" where
  "Start s listen evs w =
     (case listen of
        Some err \<Rightarrow> Inl err
      | None \<Rightarrow> Inr (idleTimeout s > 0, accept_loop s evs (w\<lparr>listener := Some False\<rparr>)))"

section \<open>Ranging over the connections\<close>

text \<open>
  \<^verbatim>\<open>sync.Map.Range\<close> visits the keys in an order of its own; \<open>ks\<close> is that order. A key deleted before
  its turn is skipped.
\<close>

fun Range :: "gostring list \<Rightarrow> (nat \<Rightarrow> 'a World \<Rightarrow> 'a World) \<Rightarrow> 'a World \<Rightarrow> 'a World" where
  "Range [] f w = w"
| "Range (k # ks) f w =
     (case connections w k of
        None \<Rightarrow> Range ks f w
      | Some c \<Rightarrow> Range ks f (f c w))"

definition Connections :: "gostring list \<Rightarrow> 'a World \<Rightarrow> nat list" where
  "Connections ks w = List.map_filter (connections w) ks"

text \<open>\<^verbatim>\<open>Stop\<close>: the forwarders are closed after all goroutines have ended.\<close>

definition Stop_close :: "gostring list \<Rightarrow> 'a World \<Rightarrow> 'a World" where
  "Stop_close ks w =
     Range ks Close (w\<lparr>server_done := True, listener := map_option (\<lambda>_. True) (listener w)\<rparr>)"

definition Stop_finish :: "'a Server \<Rightarrow> 'a World \<Rightarrow> 'a World" where
  "Stop_finish s w = w\<lparr>forwarders_closed := forwarders_closed w @ forwarders s\<rparr>"

text \<open>\<open>wait\<close> is what the goroutines still do until the last of them has ended.\<close>

definition Stop :: "gostring list \<Rightarrow> ('a World \<Rightarrow> 'a World) \<Rightarrow> 'a Server \<Rightarrow> 'a World \<Rightarrow> 'a World" where
  "Stop ks wait s w = Stop_finish s (wait (Stop_close ks w))"

section \<open>The idle check\<close>

text \<open>\<^verbatim>\<open>time.Since(c.LastSeen())\<close> in nanoseconds.\<close>

definition since_seen :: "nat \<Rightarrow> 'a World \<Rightarrow> int" where
  "since_seen c w = (tsec (now w) - tsec (LastSeen w c)) * second_ns + (tnsec (now w) - tnsec (LastSeen w c))"

text \<open>
  The body of the idle check for one connection, cut at its sleep of three seconds: the probe says
  whether the check after the sleep is to run.
\<close>

definition idle_probe :: "'a Server \<Rightarrow> nat \<Rightarrow> 'a World \<Rightarrow> (bool \<times> 'a World) option" where
  "idle_probe s c w =
     (if State w c = ConnClosed then Some (False, w)
      else if since_seen c w \<le> idleTimeout s then Some (False, w)
      else do {
        (w, err) \<leftarrow> Send s c CmdHeartbeat (encodeBCDTime (in_UTC (now w))) w;
        (case err of
           Some e \<Rightarrow> Some (False, Close c w)
         | None \<Rightarrow> Some (True, w))
      })"

definition idle_recheck :: "'a Server \<Rightarrow> nat \<Rightarrow> 'a World \<Rightarrow> 'a World" where
  "idle_recheck s c w =
     (if State w c \<noteq> ConnClosed \<and> since_seen c w > idleTimeout s + 3 * second_ns then Close c w else w)"

text \<open>
  The whole body for one connection, and one tick of \<^verbatim>\<open>idleCheckLoop\<close>, which ranges over the
  connections in the order \<open>ks\<close>; \<open>sleep\<close> is what the rest of the program does during the three
  seconds.
\<close>

definition idle_check :: "'a Server \<Rightarrow> ('a World \<Rightarrow> 'a World) \<Rightarrow> nat \<Rightarrow> 'a World \<Rightarrow> 'a World option" where
  "idle_check s sleep c w = do {
     (probed, w) \<leftarrow> idle_probe s c w;
     Some (if probed then idle_recheck s c (sleep w) else w)
   }"

fun idleCheck_tick ::
    "'a Server \<Rightarrow> ('a World \<Rightarrow> 'a World) \<Rightarrow> gostring list \<Rightarrow> 'a World \<Rightarrow> 'a World option" where
  "idleCheck_tick s sleep [] w = Some w"
| "idleCheck_tick s sleep (k # ks) w =
     (case connections w k of
        None \<Rightarrow> idleCheck_tick s sleep ks w
      | Some c \<Rightarrow>
          (case idle_check s sleep c w of
             None \<Rightarrow> None
           | Some w \<Rightarrow> idleCheck_tick s sleep ks w))"

text \<open>
  \<^verbatim>\<open>idleCheckLoop\<close> over what its \<^verbatim>\<open>select\<close> receives: a tick, with the order in which \<^verbatim>\<open>Range\<close> visits the
  connections and what happens during the sleeps, or the end of the server's context. The result
  says whether the loop still runs.
\<close>

datatype 'a idle_event = CtxDone | Tick "gostring list" "'a World \<Rightarrow> 'a World"

fun idleCheckLoop :: "'a Server \<Rightarrow> 'a idle_event list \<Rightarrow> 'a World \<Rightarrow> (bool \<times> 'a World) option" where
  "idleCheckLoop s [] w = Some (True, w)"
| "idleCheckLoop s (CtxDone # evs) w = Some (False, w)"
| "idleCheckLoop s (Tick ks sleep # evs) w =
     (case idleCheck_tick s sleep ks w of
        None \<Rightarrow> None
      | Some w \<Rightarrow> idleCheckLoop s evs w)"

section \<open>What a callback may do\<close>

text \<open>
  Application code reaches the server through its exported operations: it sends on and closes
  connections, and changes its own state; time may pass.
\<close>

inductive uses_api :: "'a Server \<Rightarrow> 'a World \<Rightarrow> 'a World \<Rightarrow> bool" for s w where
  api_refl: "uses_api s w w"
| api_app: "uses_api s w w1 \<Longrightarrow> uses_api s w (w1\<lparr>app := a\<rparr>)"
| api_time: "uses_api s w w1 \<Longrightarrow> uses_api s w (w1\<lparr>now := t\<rparr>)"
| api_close: "uses_api s w w1 \<Longrightarrow> c < length (heap w1) \<Longrightarrow> uses_api s w (Close c w1)"
| api_send: "uses_api s w w1 \<Longrightarrow> c < length (heap w1) \<Longrightarrow> Send s c command data w1 = Some (w2, err) \<Longrightarrow>
    uses_api s w w2"

definition callbacks_ok :: "'a Server \<Rightarrow> bool" where
  "callbacks_ok s \<longleftrightarrow>
     (\<forall>a w v. auth s = Some a \<longrightarrow> uses_api s w (fst (a w v))) \<and>
     (\<forall>h w c. handler s = Some h \<longrightarrow>
        (\<forall>m. uses_api s w (fst (OnVehicleLogin h w c m))) \<and> (\<forall>m. uses_api s w (fst (OnVehicleLogout h w c m))) \<and>
        (\<forall>m. uses_api s w (fst (OnRealtimeData h w c m))) \<and> (\<forall>m. uses_api s w (fst (OnReissueData h w c m))) \<and>
        uses_api s w (fst (OnHeartbeat h w c))) \<and>
     (\<forall>p w c. timeProvider s = Some p \<longrightarrow> uses_api s w (fst (OnTimeCalibration p w c))) \<and>
     (\<forall>p w c. platformHandler s = Some p \<longrightarrow>
        (\<forall>m. uses_api s w (fst (OnPlatformLoginRequest p w c m))) \<and>
        (\<forall>m. uses_api s w (fst (OnPlatLoginResponse p w c m))) \<and>
        (\<forall>m. uses_api s w (fst (OnPlatLogoutResponse p w c m)))) \<and>
     (\<forall>p w c. paramHandler s = Some p \<longrightarrow>
        (\<forall>m. uses_api s w (fst (OnParamQuery p w c m))) \<and> (\<forall>m. uses_api s w (fst (OnParamQueryAck p w c m))) \<and>
        (\<forall>m. uses_api s w (fst (OnParamSettingAck p w c m))))"

section \<open>All goroutines\<close>

text \<open>
  The goroutine of a connection reads, or works through the packets of a read, or has ended; its
  decoder is its own. \<open>probing\<close> holds the connections whose idle check sleeps. A socket that
  \<^verbatim>\<open>Accept\<close> returned is set up even if the server has been stopped since: the loop looks at the
  context only after an error.
\<close>

datatype phase = Reading | Processing | Finished

record 'a Sys =
  world :: "'a World"
  decoder_of :: "nat \<Rightarrow> Decoder"
  phase_of :: "nat \<Rightarrow> phase"
  probing :: "nat set"

inductive step :: "'a Server \<Rightarrow> 'a Sys \<Rightarrow> 'a Sys \<Rightarrow> bool" for s where
  Accept: "Start_turn s (Inr i) (world y) = (True, Some (c, d), w) \<Longrightarrow>
    step s y (y\<lparr>world := w, decoder_of := (decoder_of y)(c := d), phase_of := (phase_of y)(c := Reading)\<rparr>)"
| Read: "c < length (heap (world y)) \<Longrightarrow> phase_of y c = Reading \<Longrightarrow> bs \<noteq> [] \<Longrightarrow> Feed (decoder_of y c) bs = Some d \<Longrightarrow>
    step s y (y\<lparr>world := modc c (\<lambda>cn. cn\<lparr>lastSeen := Unix (now (world y))\<rparr>) (world y),
      decoder_of := (decoder_of y)(c := d), phase_of := (phase_of y)(c := Processing)\<rparr>)"
| Packet: "c < length (heap (world y)) \<Longrightarrow> phase_of y c = Processing \<Longrightarrow>
    Decode (decoder_of y c) = Some (Inr (Some pkt), d) \<Longrightarrow> handlePacket s c pkt (world y) = Some w \<Longrightarrow>
    step s y (y\<lparr>world := w, decoder_of := (decoder_of y)(c := d)\<rparr>)"
| Drained: "c < length (heap (world y)) \<Longrightarrow> phase_of y c = Processing \<Longrightarrow>
    Decode (decoder_of y c) = Some (Inr None, d) \<Longrightarrow>
    step s y (y\<lparr>decoder_of := (decoder_of y)(c := d), phase_of := (phase_of y)(c := Reading)\<rparr>)"
| Finish: "c < length (heap (world y)) \<Longrightarrow> phase_of y c = Reading \<Longrightarrow>
    step s y (y\<lparr>world := Close c (world y), phase_of := (phase_of y)(c := Finished)\<rparr>)"
| Probe: "connections (world y) i = Some c \<Longrightarrow> idle_probe s c (world y) = Some (b, w) \<Longrightarrow>
    step s y (y\<lparr>world := w, probing := (if b then insert c (probing y) else probing y)\<rparr>)"
| Recheck: "c \<in> probing y \<Longrightarrow> c < length (heap (world y)) \<Longrightarrow>
    step s y (y\<lparr>world := idle_recheck s c (world y), probing := probing y - {c}\<rparr>)"
| Shutdown: "step s y (y\<lparr>world := Stop_close ks (world y)\<rparr>)"
| App: "uses_api s (world y) w \<Longrightarrow> step s y (y\<lparr>world := w\<rparr>)"

inductive reachable :: "'a Server \<Rightarrow> 'a Sys \<Rightarrow> bool" for s where
  reach_init: "reachable s \<lparr>world = NewWorld t a, decoder_of = (\<lambda>_. NewDecoder), phase_of = (\<lambda>_. Finished), probing = {}\<rparr>"
| reach_step: "reachable s y \<Longrightarrow> step s y z \<Longrightarrow> reachable s z"

inductive_cases step_cases: "step s y z"

section \<open>Properties that callbacks and handlers keep\<close>

lemma api_heap: "uses_api s w w' \<Longrightarrow> length (heap w') = length (heap w)"
proof (induction rule: uses_api.induct)
  case (api_send w1 c command data w2 err)
  then show ?case using Send_effect [of s c command data w1] by auto
qed simp_all

text \<open>The change of state that an accepted login makes before its handler runs.\<close>

definition logged_in :: "nat \<Rightarrow> Packet \<Rightarrow> VehicleLoginData \<Rightarrow> 'a World \<Rightarrow> 'a World" where
  "logged_in c pkt ld w =
     (let w = modc c (\<lambda>cn. cn\<lparr>conn_vin := VIN pkt, conn_iccid := ICCID ld, conn_state := ConnLoggedIn\<rparr>) w
      in w\<lparr>vinReg := add (vinReg w) (VIN pkt) c\<rparr>)"

text \<open>The messages that a connection can forward: made from a payload that was decoded.\<close>

inductive decoded_msg :: "ForwardMsg \<Rightarrow> bool" where
  msg_login: "DecodeLoginData data = Some (Inr ld) \<Longrightarrow> decoded_msg (newForwardMsg ''login'' v (FLogin ld))"
| msg_logout: "DecodeLogoutData data = Some (Inr lo) \<Longrightarrow> decoded_msg (newForwardMsg ''logout'' v (FLogout lo))"
| msg_realtime: "DecodeRealtimeData data = Some (Inr rm) \<Longrightarrow> decoded_msg (newForwardMsg ''realtime'' v (FRealtime rm))"
| msg_reissue: "DecodeReissueData data = Some (Inr ri) \<Longrightarrow> decoded_msg (newForwardMsg ''reissue'' v (FReissue ri))"

text \<open>
  A property of the world that the exported operations keep: then every callback that uses only
  them keeps it, and so does the handling of every packet, login excepted, for which the change of
  state itself has to be checked.
\<close>

locale api_invariant =
  fixes s :: "'a Server"
    and P :: "'a World \<Rightarrow> bool"
  assumes callbacks: "callbacks_ok s"
    and P_app: "P w \<Longrightarrow> P (w\<lparr>app := a\<rparr>)"
    and P_now: "P w \<Longrightarrow> P (w\<lparr>now := t\<rparr>)"
    and P_forward: "P w \<Longrightarrow> decoded_msg m \<Longrightarrow> P (forward s m w)"
    and P_close: "P w \<Longrightarrow> c < length (heap w) \<Longrightarrow> P (Close c w)"
    and P_write: "P w \<Longrightarrow> P (modc c (\<lambda>cn. cn\<lparr>written := written cn @ [pkt]\<rparr>) w)"
    and P_key: "P w \<Longrightarrow> P (modc c (\<lambda>cn. cn\<lparr>encryptKey := Some (DeriveAESKey token)\<rparr>) w)"
    and P_no_key: "P w \<Longrightarrow> P (modc c (\<lambda>cn. cn\<lparr>encryptKey := None\<rparr>) w)"
begin

lemma Send_keeps: "P w \<Longrightarrow> Send s c command data w = Some (w', err) \<Longrightarrow> P w'"
  using Send_effect [of s c command data w] P_write by auto

lemma map_fst_Send_keeps: "P w \<Longrightarrow> map_option fst (Send s c command data w) = Some w' \<Longrightarrow> P w'"
  using Send_keeps by fastforce

lemma api_keeps: "P w \<Longrightarrow> uses_api s w w' \<Longrightarrow> P w'"
  by (erule uses_api.induct) (auto intro: P_app P_now P_close Send_keeps)

lemma callback_api:
  "auth s = Some a \<Longrightarrow> uses_api s w (fst (a w v))"
  "handler s = Some h \<Longrightarrow> uses_api s w (fst (OnVehicleLogin h w c ml))"
  "handler s = Some h \<Longrightarrow> uses_api s w (fst (OnVehicleLogout h w c mo))"
  "handler s = Some h \<Longrightarrow> uses_api s w (fst (OnRealtimeData h w c mr))"
  "handler s = Some h \<Longrightarrow> uses_api s w (fst (OnReissueData h w c mi))"
  "handler s = Some h \<Longrightarrow> uses_api s w (fst (OnHeartbeat h w c))"
  "timeProvider s = Some tp \<Longrightarrow> uses_api s w (fst (OnTimeCalibration tp w c))"
  "platformHandler s = Some p \<Longrightarrow> uses_api s w (fst (OnPlatformLoginRequest p w c mp))"
  "platformHandler s = Some p \<Longrightarrow> uses_api s w (fst (OnPlatLoginResponse p w c mp))"
  "platformHandler s = Some p \<Longrightarrow> uses_api s w (fst (OnPlatLogoutResponse p w c mq))"
  "paramHandler s = Some q \<Longrightarrow> uses_api s w (fst (OnParamQuery q w c ma))"
  "paramHandler s = Some q \<Longrightarrow> uses_api s w (fst (OnParamQueryAck q w c ma))"
  "paramHandler s = Some q \<Longrightarrow> uses_api s w (fst (OnParamSettingAck q w c ms))"
  using callbacks by (simp_all add: callbacks_ok_def)

lemma notify_keeps:
  assumes "P w" and "\<And>h. hs = Some h \<Longrightarrow> uses_api s w (fst (call h w c m))"
  shows "P (notify hs call c m w)"
  using assms by (cases hs) (auto simp: notify_def intro: api_keeps)

lemma dispatch_keeps:
  assumes "P w" "Command pkt \<noteq> CmdLogin" "dispatch s c pkt w = Some w'"
  shows "P w'"
proof -
  note w = assms(1)
  have "handle_logout s c pkt w = Some w' \<Longrightarrow> P w'"
    using notify_keeps [where hs = "handler s" and call = OnVehicleLogout, OF w callback_api(3)] w
    by (auto simp: handle_logout_def Let_def split: bind_splits sum.splits intro!: P_forward P_no_key msg_logout)
  moreover have "handle_realtime s c pkt w = Some w' \<Longrightarrow> P w'"
    using notify_keeps [where hs = "handler s" and call = OnRealtimeData, OF w callback_api(4)] w
    by (auto simp: handle_realtime_def Let_def split: bind_splits sum.splits intro!: P_forward msg_realtime)
  moreover have "handle_reissue s c pkt w = Some w' \<Longrightarrow> P w'"
    using notify_keeps [where hs = "handler s" and call = OnReissueData, OF w callback_api(5)] w
    by (auto simp: handle_reissue_def Let_def split: bind_splits sum.splits intro!: P_forward msg_reissue)
  moreover have "handle_heartbeat s c w = Some w' \<Longrightarrow> P w'"
    unfolding handle_heartbeat_def Let_def
    by (erule map_fst_Send_keeps [rotated]) (intro notify_keeps w callback_api(6))
  moreover have "handle_time_calibration s c w = Some w' \<Longrightarrow> P w'"
    using api_keeps [OF w callback_api(7)] w
    by (auto simp: handle_time_calibration_def split_def Let_def simp del: map_option_eq_Some
        split: option.splits sum.splits elim!: map_fst_Send_keeps [rotated])
  moreover have "handle_plat_login s c pkt w = Some w' \<Longrightarrow> P w'"
    using api_keeps [OF w callback_api(8)] api_keeps [OF w callback_api(9)] w
    by (auto simp: handle_plat_login_def split: bind_splits sum.splits option.splits if_splits)
  moreover have "handle_plat_logout s c pkt w = Some w' \<Longrightarrow> P w'"
    using api_keeps [OF w callback_api(10)] w
    by (auto simp: handle_plat_logout_def split: bind_splits sum.splits option.splits)
  moreover have "handle_param_query s c pkt w = Some w' \<Longrightarrow> P w'"
    using api_keeps [OF w callback_api(11)] w
    by (auto simp: handle_param_query_def sendParamQueryResponse_def simp del: map_option_eq_Some
        split: bind_splits sum.splits option.splits prod.splits elim!: map_fst_Send_keeps [rotated])
      (metis fst_conv)+
  moreover have "handle_param_query_resp s c pkt w = Some w' \<Longrightarrow> P w'"
    using api_keeps [OF w callback_api(12)] w
    by (auto simp: handle_param_query_resp_def split: bind_splits sum.splits option.splits)
  moreover have "handle_param_setting s c pkt w = Some w' \<Longrightarrow> P w'"
    using api_keeps [OF w callback_api(13)] w
    by (auto simp: handle_param_setting_def split: bind_splits sum.splits option.splits)
  ultimately show ?thesis using assms unfolding dispatch_def by (auto split: if_splits)
qed

lemma login_auth_api: "uses_api s w (fst (login_auth s pkt w))"
  using callback_api(1) by (auto simp: login_auth_def split_def api_refl split: option.splits)

lemma login_reply_keeps:
  assumes "P w" "login_reply s c ld w = Some (w', b)"
  shows "P w'"
proof (cases "handler s")
  case None
  then show ?thesis using assms by (simp add: login_reply_def)
next
  case (Some h)
  obtain w1 r where h: "OnVehicleLogin h w c ld = (w1, r)" by fastforce
  have w1: "P w1" using api_keeps [OF assms(1) callback_api(2) [OF Some, of _ c ld]] h by simp
  have send: "P w2" if "sendLoginResponse s c resp w1 = Some (w2, e)" for resp w2 e
    using that Send_keeps [OF w1] by (simp add: sendLoginResponse_def)
  show ?thesis
    using assms(2) Some h w1
    by (auto simp: login_reply_def Let_def split: sum.splits option.splits bind_splits if_splits
        intro!: P_key dest!: send)
qed

lemma handle_login_keeps:
  assumes "P w" "c < length (heap w)" "handle_login s c pkt w = Some w'"
    and login: "\<And>w1 ld. login_auth s pkt w = (w1, True) \<Longrightarrow> P w1 \<Longrightarrow> c < length (heap w1) \<Longrightarrow> P (logged_in c pkt ld w1)"
  shows "P w'"
proof -
  obtain w1 b where a: "login_auth s pkt w = (w1, b)" by fastforce
  have w1: "P w1" "c < length (heap w1)"
    using api_keeps [OF assms(1) login_auth_api [of w pkt]] api_heap [OF login_auth_api [of w pkt]] a assms(2)
    by simp_all
  obtain r where r: "DecodeLoginData (Data pkt) = Some r" using payload_Some(1) by blast
  show ?thesis
  proof (cases "b \<and> (\<exists>ld. r = Inr ld)")
    case True
    then obtain ld where ld: "r = Inr ld" by blast
    moreover obtain w2 g where "login_reply s c ld (logged_in c pkt ld w1) = Some (w2, g)"
      "w' = (if g then forward s (newForwardMsg ''login'' (VIN pkt) (FLogin ld)) w2 else w2)"
      using assms(3) True a r ld by (auto simp: handle_login_def logged_in_def Let_def split: bind_splits)
    ultimately show ?thesis
      using login_reply_keeps [OF login [OF _ w1]] True a r by (auto intro: P_forward msg_login)
  next
    case False
    then show ?thesis
      using assms(3) a r w1 by (auto simp: handle_login_def split: sum.splits if_splits intro: P_close)
  qed
qed

lemma handlePacket_keeps:
  assumes "P w" "c < length (heap w)" "handlePacket s c pkt w = Some w'"
    and login: "\<And>p w1 ld. VIN p = VIN pkt \<Longrightarrow> login_auth s p w = (w1, True) \<Longrightarrow> P w1 \<Longrightarrow> c < length (heap w1) \<Longrightarrow>
      Command pkt = CmdLogin \<Longrightarrow> P (logged_in c p ld w1)"
  shows "P w'"
proof -
  have "P w'" if "dispatch s c p w = Some w'" "VIN p = VIN pkt" "Command p = Command pkt" for p
  proof (cases "Command pkt = CmdLogin")
    case True
    then have "handle_login s c p w = Some w'" using that by (simp add: dispatch_def)
    then show ?thesis
      using handle_login_keeps [OF assms(1,2)] login [OF that(2)] True by blast
  next
    case False
    then show ?thesis using dispatch_keeps [OF assms(1) _ that(1)] that(3) by simp
  qed
  then show ?thesis
    using assms(1,3) by (auto simp: handlePacket_def split: option.splits if_splits bind_splits sum.splits)
qed

lemma idle_keeps:
  assumes "P w" "c < length (heap w)"
  shows "idle_probe s c w = Some (b, w') \<Longrightarrow> P w'" "P (idle_recheck s c w)"
proof -
  show "P (idle_recheck s c w)" using assms by (simp add: idle_recheck_def P_close)
  assume p: "idle_probe s c w = Some (b, w')"
  obtain w1 e where s1: "Send s c CmdHeartbeat (encodeBCDTime (in_UTC (now w))) w = Some (w1, e)"
    using Send_Some by blast
  have "uses_api s w w1" using api_send [OF api_refl assms(2) s1] .
  then have "P w1" "c < length (heap w1)"
    using Send_keeps [OF assms(1) s1] api_heap [of s w w1] assms(2) by simp_all
  then show "P w'"
    using p s1 assms(1) by (auto simp: idle_probe_def split: if_splits option.splits intro: P_close)
qed

end

section \<open>The invariant\<close>

text \<open>
  \<open>acc\<close> is the set of VINs the authenticator accepts. Registered connections exist and are found
  under their own identifier; the registry keeps its own invariant and lists only accepted VINs; a logged-in connection has an
  accepted VIN; keys have 16 bytes.
\<close>

definition world_inv :: "(gostring \<Rightarrow> bool) \<Rightarrow> 'a World \<Rightarrow> bool" where
  "world_inv acc w \<longleftrightarrow>
     finite (dom (connections w)) \<and>
     (\<forall>i c. connections w i = Some c \<longrightarrow> c < length (heap w) \<and> conn_id (conn w c) = i) \<and>
     registry_inv (vinReg w) \<and>
     (\<forall>v c. c \<in> set (getAll (vinReg w) v) \<longrightarrow> c < length (heap w) \<and> acc v) \<and>
     (\<forall>c < length (heap w). key_ok (conn w c) \<and>
        (State w c = ConnLoggedIn \<longrightarrow> acc (conn_vin (conn w c))))"

lemma world_inv_NewWorld: "world_inv acc (NewWorld t a)"
  by (simp add: world_inv_def NewWorld_def reg.inv_new reg.getAll_new)

text \<open>A change of one connection that keeps identifier, key length and login keeps the invariant.\<close>

lemma world_inv_modc:
  assumes "world_inv acc w" "conn_id (f (conn w c)) = conn_id (conn w c)"
    and "key_ok (conn w c) \<Longrightarrow> key_ok (f (conn w c))"
    and "conn_state (f (conn w c)) = ConnLoggedIn \<Longrightarrow>
      acc (conn_vin (f (conn w c))) \<or>
      conn_state (conn w c) = ConnLoggedIn \<and> conn_vin (f (conn w c)) = conn_vin (conn w c)"
  shows "world_inv acc (modc c f w)"
  using assms unfolding world_inv_def by (auto simp: conn_modc State_def)

lemma world_inv_frame:
  assumes "world_inv acc w"
  shows "world_inv acc (forward s m w)" "world_inv acc (w\<lparr>app := a\<rparr>)" "world_inv acc (w\<lparr>now := t\<rparr>)"
    "world_inv acc (w\<lparr>server_done := b, listener := b'\<rparr>)"
  using assms by (simp_all add: world_inv_def State_def)

lemma world_inv_unregister:
  assumes "world_inv acc w"
  shows "world_inv acc (unregister c w)"
proof -
  have "registry_inv (vinReg (unregister c w))"
    using assms by (simp add: world_inv_def vinReg_unregister reg.inv_remove)
  moreover have "set (getAll (vinReg (unregister c w)) v) \<subseteq> set (getAll (vinReg w) v)" for v
    by (auto simp: vinReg_unregister reg.getAll_remove dest: subsetD [OF set_remove1_subset])
  ultimately show ?thesis
    using assms unfolding world_inv_def unregister_simps State_def by (fastforce split: if_splits)
qed

lemma world_inv_Close: "world_inv acc w \<Longrightarrow> world_inv acc (Close c w)"
  unfolding Close_def
  by (auto intro!: world_inv_unregister world_inv_modc simp: key_ok_def)

lemma world_inv_logged_in:
  assumes "world_inv acc w" "c < length (heap w)" "acc (VIN pkt)"
  shows "world_inv acc (logged_in c pkt ld w)"
proof -
  have "world_inv acc (modc c (\<lambda>cn. cn\<lparr>conn_vin := VIN pkt, conn_iccid := ICCID ld, conn_state := ConnLoggedIn\<rparr>) w)"
    by (rule world_inv_modc [OF assms(1)]) (use assms(3) in \<open>simp_all add: key_ok_def\<close>)
  then show ?thesis
    using assms(2,3)
    by (auto simp: logged_in_def Let_def world_inv_def State_def reg.inv_add reg.getAll_add split: if_splits)
qed

section \<open>The application's contract\<close>

text \<open>
  A server together with the VINs its authenticator accepts: callbacks use only the API, and the
  authenticator answers yes for accepted VINs only (without an authenticator every VIN is
  accepted). Under this contract every step keeps the invariant.
\<close>

locale application =
  fixes s :: "'a Server"
    and acc :: "gostring \<Rightarrow> bool"
  assumes app_callbacks: "callbacks_ok s"
    and auth_acc: "auth s = Some a \<Longrightarrow> snd (a w v) = Inr True \<Longrightarrow> acc v"
    and no_auth: "auth s = None \<Longrightarrow> acc v"

sublocale application \<subseteq> winv: api_invariant s "world_inv acc"
proof unfold_locales
  show "callbacks_ok s" by (rule app_callbacks)
  show "world_inv acc w \<Longrightarrow> world_inv acc (w\<lparr>app := a\<rparr>)" "world_inv acc w \<Longrightarrow> world_inv acc (w\<lparr>now := t\<rparr>)"
    "world_inv acc w \<Longrightarrow> world_inv acc (forward s m w)" for w a t m
    by (simp_all add: world_inv_frame)
  show "world_inv acc w \<Longrightarrow> world_inv acc (Close c w)" for w c by (rule world_inv_Close)
  show "world_inv acc w \<Longrightarrow> world_inv acc (modc c (\<lambda>cn. cn\<lparr>written := written cn @ [pkt]\<rparr>) w)"
    "world_inv acc w \<Longrightarrow> world_inv acc (modc c (\<lambda>cn. cn\<lparr>encryptKey := Some (DeriveAESKey token)\<rparr>) w)"
    "world_inv acc w \<Longrightarrow> world_inv acc (modc c (\<lambda>cn. cn\<lparr>encryptKey := None\<rparr>) w)" for w c pkt token
    by (rule world_inv_modc; simp add: key_ok_def DeriveAESKey_eq)+
qed

context application
begin

lemma login_auth_acc: "login_auth s pkt w = (w', True) \<Longrightarrow> acc (VIN pkt)"
  using auth_acc [of _ w "VIN pkt"] no_auth by (auto simp: login_auth_def split_def split: option.splits)

lemma handlePacket_inv:
  assumes "world_inv acc w" "c < length (heap w)" "handlePacket s c pkt w = Some w'"
  shows "world_inv acc w'"
  using winv.handlePacket_keeps [OF assms] world_inv_logged_in login_auth_acc by metis

lemma Range_Close_inv: "world_inv acc w \<Longrightarrow> world_inv acc (Range ks Close w)"
  by (induction ks arbitrary: w) (auto split: option.splits intro: world_inv_Close)

lemma Start_turn_inv:
  assumes "world_inv acc w" "Start_turn s (Inr i) w = (True, Some (c, d), w')"
  shows "world_inv acc w'"
  using assms
  by (auto simp: Start_turn_def newConnection_def Let_def world_inv_def State_def nth_append key_ok_def
      less_Suc_eq split: if_splits)

lemma step_inv:
  assumes "step s y z" "world_inv acc (world y)"
  shows "world_inv acc (world z)"
  using assms
proof (cases rule: step.cases)
  case (Accept i c d w)
  then show ?thesis using Start_turn_inv assms(2) by simp
next
  case (Read c bs d)
  then show ?thesis using assms(2) by (auto intro!: world_inv_modc simp: key_ok_def)
next
  case (Packet c pkt d w)
  then show ?thesis using handlePacket_inv assms(2) by simp
next
  case (Probe i c b w)
  then have "c < length (heap (world y))" using assms(2) by (simp add: world_inv_def)
  then show ?thesis using Probe winv.idle_keeps(1) assms(2) by simp
next
  case (Shutdown ks)
  then show ?thesis
    using assms(2) by (simp add: Stop_close_def Range_Close_inv world_inv_frame(4))
next
  case (App w)
  then show ?thesis using winv.api_keeps assms(2) by simp
qed (simp_all add: world_inv_Close winv.idle_keeps)

lemma reachable_inv: "reachable s y \<Longrightarrow> world_inv acc (world y)"
  by (induction rule: reachable.induct) (auto simp: world_inv_NewWorld intro: step_inv)

end

section \<open>Invariants of all steps\<close>

text \<open>
  What the exported operations keep, and accepting, reading, logging in and stopping keep as
  well, every step keeps (\<open>step_closed\<close>); if it holds initially it holds in every reachable state.
\<close>

locale step_closed = api_invariant s P for s :: "'a Server" and P +
  assumes P_accept: "P w \<Longrightarrow> Start_turn s (Inr i) w = (True, Some (c, d), w') \<Longrightarrow> P w'"
    and P_seen: "P w \<Longrightarrow> P (modc c (\<lambda>cn. cn\<lparr>lastSeen := u\<rparr>) w)"
    and P_login: "P w \<Longrightarrow> P (logged_in c pkt ld w)"
    and P_stop: "P w \<Longrightarrow> P (w\<lparr>server_done := b, listener := l\<rparr>)"
begin

lemma Range_Close_keeps: "P w \<Longrightarrow> world_inv acc w \<Longrightarrow> P (Range ks Close w)"
proof (induction ks arbitrary: w)
  case (Cons k ks)
  have "c < length (heap w)" if "connections w k = Some c" for c
    using that Cons.prems(2) by (simp add: world_inv_def)
  then show ?case
    using Cons.IH Cons.prems by (cases "connections w k") (simp_all add: P_close world_inv_Close)
qed simp

lemma step_keeps:
  assumes "step s y z" "P (world y)" "world_inv acc (world y)"
  shows "P (world z)"
  using assms(1)
proof (cases rule: step.cases)
  case (Accept i c d w)
  then show ?thesis using P_accept [OF assms(2)] by simp
next
  case (Packet c pkt d w)
  then show ?thesis using handlePacket_keeps [OF assms(2)] P_login by simp
next
  case (Probe i c b w)
  then have "c < length (heap (world y))" using assms(3) by (simp add: world_inv_def)
  then show ?thesis using Probe idle_keeps(1) assms(2) by simp
next
  case (Shutdown ks)
  then show ?thesis
    using Range_Close_keeps [OF P_stop [OF assms(2)] world_inv_frame(4) [OF assms(3)]] by (simp add: Stop_close_def)
next
  case (App w)
  then show ?thesis using api_keeps assms(2) by simp
qed (use assms(2) in \<open>simp_all add: P_seen P_close idle_keeps\<close>)

end

locale step_invariant = step_closed s P for s :: "'a Server" and P +
  assumes P_init: "P (NewWorld t a)"
begin

lemma reachable_keeps: "reachable s y \<Longrightarrow> world_inv (\<lambda>_. True) (world y) \<and> P (world y)"
proof (induction rule: reachable.induct)
  case (reach_step y z)
  have "application s (\<lambda>_. True)" by unfold_locales (auto simp: callbacks)
  then show ?case using application.step_inv step_keeps reach_step by blast
qed (simp add: world_inv_NewWorld P_init)

end

section \<open>The example server (cmd/example)\<close>

text \<open>
  The handler of \<^verbatim>\<open>cmd/example\<close>: it logs, answers a login with a fixed token, and accepts everything
  else. Its log output is not part of the world.
\<close>

definition MyHandler_OnVehicleLogin ::
    "'a World \<Rightarrow> nat \<Rightarrow> VehicleLoginData \<Rightarrow> 'a World \<times> (go_error + LoginResponse option)" where
  "MyHandler_OnVehicleLogin w c msg =
     (let token = copy (replicate 8 0) (str ''TOKEN123'')
      in (w, Inr (Some \<lparr>RespLoginTime = LoginTime msg, RespSequence = Sequence msg, Result = 0x01, Token = token\<rparr>)))"

definition MyHandler :: "'a Handler" where
  "MyHandler =
     \<lparr>OnVehicleLogin = MyHandler_OnVehicleLogin,
      OnVehicleLogout = \<lambda>w c msg. (w, None),
      OnRealtimeData = \<lambda>w c msg. (w, None),
      OnReissueData = \<lambda>w c msg. (w, None),
      OnHeartbeat = \<lambda>w c. (w, None)\<rparr>"

definition example_server :: "'a Socket \<Rightarrow> 'a Server" where
  "example_server sock = NewServer sock
     [WithListenAddr (str '':32960''), WithMaxConnections 50000, WithHandler (Some MyHandler),
      WithAuthenticator (Some (\<lambda>w v. (w, AllowAll_Authenticate v))),
      WithReadTimeout (5 * 60 * second_ns), WithWriteTimeout (10 * second_ns),
      WithIdleTimeout (10 * 60 * second_ns)]"

text \<open>
  \<^verbatim>\<open>main\<close> returns only with an error of \<^verbatim>\<open>Start\<close>, which it logs; on a signal it stops the server and
  exits.
\<close>

definition example_main ::
    "'a Socket \<Rightarrow> go_error option \<Rightarrow> (go_error + gostring) list \<Rightarrow> 'a World \<Rightarrow>
     go_error + bool \<times> bool \<times> (nat \<times> Decoder) list \<times> 'a World" where
  "example_main sock listen evs w = (let server = example_server sock in Start server listen evs w)"

definition example_quit ::
    "'a Socket \<Rightarrow> gostring list \<Rightarrow> ('a World \<Rightarrow> 'a World) \<Rightarrow> 'a World \<Rightarrow> 'a World" where
  "example_quit sock ks wait w = Stop ks wait (example_server sock) w"

text \<open>The same server with a whitelist for authenticator.\<close>

definition whitelist_server ::
    "'a Socket \<Rightarrow> gostring list \<Rightarrow> 'a Server" where
  "whitelist_server sock xs =
     WithAuthenticator (Some (\<lambda>w v. (w, Whitelist_Authenticate (NewVINWhitelist xs) v))) (example_server sock)"

lemmas option_defs =
  WithListenAddr_def WithMaxConnections_def WithReadTimeout_def WithWriteTimeout_def WithIdleTimeout_def
  WithHandler_def WithAuthenticator_def WithForwarder_def WithTimeProvider_def WithCryptoProvider_def
  WithPlatformHandler_def WithParamHandler_def WithTimeCodec_def WithBCCIncludeStart_def

lemmas example_defs = example_server_def NewServer_def option_defs MyHandler_def MyHandler_OnVehicleLogin_def

interpretation allow_all: application "example_server sock" "\<lambda>_. True"
  by unfold_locales
    (simp_all add: callbacks_ok_def example_defs AllowAll_Authenticate_def Let_def api_refl)

interpretation whitelisted: application "whitelist_server sock xs" "\<lambda>v. v \<in> set xs"
  by unfold_locales
    (auto simp: callbacks_ok_def whitelist_server_def example_defs Whitelist_Authenticate_def
      set_of_NewVINWhitelist Let_def api_refl)

end
