(* ===== verification/Server_Props.thy ===== *)
theory Server_Props
  imports Server_Steps
begin

text \<open>
  Properties of the running server: what holds in every reachable state, exact bookkeeping as long
  as no login arrives on a closed connection, and the miscount when one does.
\<close>

section \<open>Exact bookkeeping\<close>

text \<open>
  The connections registered are the open ones, each under its identifier, and the counter is
  their number.
\<close>

definition open_conns :: "'a World \<Rightarrow> nat set" where
  "open_conns w = {c. c < length (heap w) \<and> State w c \<noteq> ConnClosed}"

definition books :: "'a World \<Rightarrow> bool" where
  "books w \<longleftrightarrow>
     (\<forall>i c. connections w i = Some c \<longleftrightarrow> c \<in> open_conns w \<and> conn_id (conn w c) = i) \<and>
     connCount w = int (card (open_conns w))"

lemma finite_open_conns [simp]: "finite (open_conns w)"
  by (simp add: open_conns_def)

lemma open_conns_modc:
  "(conn_state (f (conn w c)) = ConnClosed \<longleftrightarrow> conn_state (conn w c) = ConnClosed) \<Longrightarrow>
   open_conns (modc c f w) = open_conns w"
  by (auto simp: open_conns_def State_def conn_modc split: if_splits)

lemma books_modc:
  assumes "books w" "conn_id (f (conn w c)) = conn_id (conn w c)"
    and "conn_state (f (conn w c)) = ConnClosed \<longleftrightarrow> conn_state (conn w c) = ConnClosed"
  shows "books (modc c f w)"
  using assms by (auto simp: books_def open_conns_modc conn_modc)

lemma books_frame:
  assumes "books w"
  shows "books (forward s m w)" "books (w\<lparr>app := a\<rparr>)" "books (w\<lparr>now := t\<rparr>)" "books (w\<lparr>vinReg := r\<rparr>)"
    "books (w\<lparr>server_done := b, listener := b'\<rparr>)"
  using assms by (simp_all add: books_def open_conns_def State_def)

lemma open_conns_Close: "c < length (heap w) \<Longrightarrow> open_conns (Close c w) = open_conns w - {c}"
  by (cases "State w c = ConnClosed")
    (auto simp: open_conns_def Close_def State_def conn_modc split: if_splits)

lemma books_Close:
  assumes "books w" "c < length (heap w)"
  shows "books (Close c w)"
proof (cases "State w c = ConnClosed")
  case True
  then show ?thesis using assms by (simp add: Close_def)
next
  case False
  note simps = Close_simps [OF assms(2) False]
  have c: "c \<in> open_conns w" using assms(2) False by (simp add: open_conns_def)
  have id: "conn_id (conn (Close c w) c') = conn_id (conn w c')" for c'
    using assms(2) by (simp add: Close_def conn_modc)
  have uniq: "c' = c" if "c' \<in> open_conns w" "conn_id (conn w c') = conn_id (conn w c)" for c'
    using assms(1) c that by (metis books_def option.inject)
  have "connections (Close c w) i = Some c' \<longleftrightarrow> c' \<in> open_conns w - {c} \<and> conn_id (conn w c') = i" for i c'
    using assms(1) c uniq by (auto simp: simps(5) books_def)
  moreover have "connCount (Close c w) = int (card (open_conns w - {c}))"
    using assms(1) c card_Suc_Diff1 [OF finite_open_conns c] by (simp add: simps(4) books_def)
  ultimately show ?thesis by (simp add: books_def open_conns_Close [OF assms(2)] id)
qed

lemma books_logged_in:
  assumes "books w" "State w c \<noteq> ConnClosed"
  shows "books (logged_in c pkt ld w)"
  using assms unfolding logged_in_def Let_def
  by (intro books_frame(4) books_modc) (simp_all add: State_def)

lemma books_accept:
  assumes "books w" "connections w i = None" "Start_turn s (Inr i) w = (True, Some (c, d), w')"
  shows "books w'"
proof -
  let ?n = "length (heap w)"
  obtain cn where h: "heap w' = heap w @ [cn]" "conn_id cn = i" "conn_state cn = ConnNew"
    and m: "connections w' = (connections w)(i \<mapsto> ?n)" "connCount w' = connCount w + 1"
    using assms(3) by (auto simp: Start_turn_def newConnection_def Let_def split: if_splits)
  have new: "open_conns w' = insert ?n (open_conns w)"
    using h by (auto simp: open_conns_def State_def less_Suc_eq nth_append)
  have fresh: "?n \<notin> open_conns w" by (simp add: open_conns_def)
  have "connections w' j = Some c' \<longleftrightarrow> c' \<in> open_conns w' \<and> conn_id (conn w' c') = j" for j c'
  proof (cases "c' = ?n")
    case True
    have "connections w j \<noteq> Some ?n" using assms(1) fresh by (simp add: books_def)
    then show ?thesis using True h m new by (auto simp: nth_append)
  next
    case False
    have "connections w' j = Some c' \<longleftrightarrow> connections w j = Some c'" using False m assms(2) by auto
    also have "\<dots> \<longleftrightarrow> c' \<in> open_conns w \<and> conn_id (conn w c') = j" using assms(1) by (simp add: books_def)
    also have "\<dots> \<longleftrightarrow> c' \<in> open_conns w' \<and> conn_id (conn w' c') = j"
      using False h(1) new by (auto simp: nth_append open_conns_def)
    finally show ?thesis .
  qed
  then show ?thesis using assms(1) m(2) new fresh by (simp add: books_def)
qed

text \<open>
  Servers whose callbacks use the exported operations only.
\<close>

locale limited =
  fixes s :: "'a Server"
  assumes lim_callbacks: "callbacks_ok s"

sublocale limited \<subseteq> bk: api_invariant s books
proof unfold_locales
  show "callbacks_ok s" by (rule lim_callbacks)
  show "books w \<Longrightarrow> books (w\<lparr>app := a\<rparr>)" "books w \<Longrightarrow> books (w\<lparr>now := t\<rparr>)"
    "books w \<Longrightarrow> books (forward s m w)" for w a t m
    by (simp_all add: books_frame)
  show "books w \<Longrightarrow> c < length (heap w) \<Longrightarrow> books (Close c w)" for w c by (rule books_Close)
  show "books w \<Longrightarrow> books (modc c (\<lambda>cn. cn\<lparr>written := written cn @ [pkt]\<rparr>) w)"
    "books w \<Longrightarrow> books (modc c (\<lambda>cn. cn\<lparr>encryptKey := Some (DeriveAESKey token)\<rparr>) w)"
    "books w \<Longrightarrow> books (modc c (\<lambda>cn. cn\<lparr>encryptKey := None\<rparr>) w)" for w c pkt token
    by (rule books_modc; simp)+
qed

text \<open>Handling a packet logs in on a closed connection.\<close>

definition reopens :: "'a Server \<Rightarrow> nat \<Rightarrow> Packet \<Rightarrow> 'a World \<Rightarrow> bool" where
  "reopens s c pkt w \<longleftrightarrow> Command pkt = CmdLogin \<and> snd (login_auth s pkt w) \<and>
     State (fst (login_auth s pkt w)) c = ConnClosed"

lemma login_auth_VIN: "VIN p = VIN pkt \<Longrightarrow> login_auth s p = login_auth s pkt"
  by (rule ext) (cases "auth s"; simp add: login_auth_def)

context limited
begin

lemma handlePacket_books:
  assumes "books w" "c < length (heap w)" "handlePacket s c pkt w = Some w'" "\<not> reopens s c pkt w"
  shows "books w'"
proof (rule bk.handlePacket_keeps [OF assms(1-3)])
  fix p w1 ld
  assume "VIN p = VIN pkt" "login_auth s p w = (w1, True)" "books w1" "Command pkt = CmdLogin"
  then show "books (logged_in c p ld w1)"
    using assms(4) by (intro books_logged_in) (auto simp: reopens_def dest: login_auth_VIN [of p pkt s])
qed

end

interpretation lim_example: limited "example_server sock"
  by unfold_locales (rule allow_all.app_callbacks)

interpretation lim_whitelist: limited "whitelist_server sock xs"
  by unfold_locales (rule whitelisted.app_callbacks)

section \<open>A login with the example handler\<close>

definition example_response :: "VehicleLoginData \<Rightarrow> LoginResponse" where
  "example_response ld = \<lparr>RespLoginTime = LoginTime ld, RespSequence = Sequence ld, Result = 0x01,
     Token = str ''TOKEN123''\<rparr>"

lemma length_EncodeLoginResponse: "length (EncodeLoginResponse r) = 9 + length (Token r)"
  by (simp add: EncodeLoginResponse_def)

lemma example_login:
  assumes "handler s = Some MyHandler" and "login_auth s pkt w = (w, True)" and "c < length (heap w)"
    and "encryptKey (conn w c) = None" and "\<not> sock_closed (conn w c)"
    and "\<And>w p. socket s w c p = None" and "length (VIN pkt) = 17"
    and "Command pkt = CmdLogin" and "DecodeLoginData (Data pkt) = Some (Inr ld)"
  defines "p \<equiv> response_packet CmdLogin (VIN pkt) EncNone (EncodeLoginResponse (example_response ld))"
  shows "\<exists>w'. handlePacket s c pkt w = Some w' \<and> State w' c = ConnLoggedIn \<and> Conn_VIN w' c = VIN pkt \<and>
    Conn_ICCID w' c = ICCID ld \<and> encryptKey (conn w' c) = Some (DeriveAESKey (str ''TOKEN123'')) \<and>
    written (conn w' c) = written (conn w c) @ [wire_frame p] \<and>
    vinReg w' = add (vinReg w) (VIN pkt) c \<and> length (heap w') = length (heap w) \<and>
    sock_closed (conn w' c) = sock_closed (conn w c) \<and> now w' = now w \<and> connections w' = connections w \<and>
    forwarded w' = forwarded w @ map (\<lambda>f. (f, newForwardMsg ''login'' (VIN pkt) (FLogin ld))) (forwarders s)"
proof -
  let ?w1 = "logged_in c pkt ld w"
  have w1: "conn ?w1 c = (conn w c)\<lparr>conn_vin := VIN pkt, conn_iccid := ICCID ld, conn_state := ConnLoggedIn\<rparr>"
    "length (heap ?w1) = length (heap w)" "vinReg ?w1 = add (vinReg w) (VIN pkt) c"
    "forwarded ?w1 = forwarded w" "now ?w1 = now w" "connections ?w1 = connections w"
    using assms(3) by (simp_all add: logged_in_def Let_def)
  have h: "OnVehicleLogin MyHandler ?w1 c ld = (?w1, Inr (Some (example_response ld)))"
    by (simp add: MyHandler_def MyHandler_OnVehicleLogin_def example_response_def Let_def str_def)
  have send: "sendLoginResponse s c (example_response ld) ?w1 =
      Some (modc c (\<lambda>cn. cn\<lparr>written := written cn @ [wire_frame p]\<rparr>) ?w1, None)"
    using w1 assms(4-7)
    by (simp add: sendLoginResponse_def Send_def State_def EncodeResponse_wire_frame p_def Write_def)
  have z: "(if IsZero (RespLoginTime (example_response ld))
      then (example_response ld)\<lparr>RespLoginTime := LoginTime ld\<rparr> else example_response ld) = example_response ld"
    by (simp add: example_response_def)
  let ?w2 = "modc c (\<lambda>cn. cn\<lparr>encryptKey := Some (DeriveAESKey (str ''TOKEN123''))\<rparr>)
      (modc c (\<lambda>cn. cn\<lparr>written := written cn @ [wire_frame p]\<rparr>) ?w1)"
  have "login_reply s c ld ?w1 = Some (?w2, True)"
    using send z by (simp add: login_reply_def assms(1) h Let_def) (simp add: example_response_def str_def)
  then have "handlePacket s c pkt w = Some (forward s (newForwardMsg ''login'' (VIN pkt) (FLogin ld)) ?w2)"
    using assms(2,4,8,9)
    by (simp add: handlePacket_def dispatch_def handle_login_def logged_in_def Let_def)
  then show ?thesis using w1 assms(3) by (simp add: State_def Conn_VIN_def Conn_ICCID_def forward_def)
qed

text \<open>A run of the whitelist server: a connection is accepted, reads a login frame and handles it.\<close>

definition sample_vin :: gostring where
  "sample_vin = str ''LTEST0000000000A1''"

definition login_bytes :: bytes where
  "login_bytes = [0x26, 6, 0x15, 0x18, 0x48, 0x30, 0, 1, 0, 0]"

definition login_packet :: Packet where
  "login_packet = response_packet CmdLogin sample_vin EncNone login_bytes"

lemma login_packet_wf: "wf_packet login_packet" "length sample_vin = 17"
  by (simp_all add: login_packet_def wf_response_packet sample_vin_def str_def login_bytes_def)

lemma login_bytes_decode: "\<exists>ld. DecodeLoginData login_bytes = Some (Inr ld) \<and> ICCID ld = []"
  by (simp add: DecodeLoginData_def Decoder_DecodeLoginData_def login_bytes_def slice_def wire Let_def
      decodeTime6_def defaultDecoder_def parseBCDTime6_def config_loop.simps)

lemma sample_run_forwarding:
  fixes s :: "nat Server" and fs :: "nat list"
  defines "s \<equiv> WithForwarder fs (whitelist_server open_sockets [sample_vin])"
  assumes ld: "DecodeLoginData login_bytes = Some (Inr ld)"
  shows "\<exists>y. reachable s y \<and> length (heap (world y)) = 1 \<and> State (world y) 0 = ConnLoggedIn \<and>
    connections (world y) = [str ''id'' \<mapsto> 0] \<and> phase_of y 0 = Reading \<and>
    forwarded (world y) = map (\<lambda>f. (f, newForwardMsg ''login'' sample_vin (FLogin ld))) fs"
proof -
  define y0 :: "nat Sys" where "y0 = \<lparr>world = NewWorld (Date 2026 6 15 18 48 30) 0,
    decoder_of = (\<lambda>_. NewDecoder), phase_of = (\<lambda>_. Finished), probing = {}\<rparr>"
  have s: "handler s = Some MyHandler" "maxConns s = 50000" "socket s w c p = None"
    "login_auth s login_packet w = (w, True)" "forwarders s = fs" for w c p
    by (simp_all add: s_def whitelist_server_def example_defs open_sockets_def login_auth_def
        Whitelist_Authenticate_def set_of_NewVINWhitelist login_packet_def response_packet_def)
  let ?d = "newDecoderWithConfig (srv_timeCodec s) (srv_bccIncludeStart s)"
  obtain w1 where w1: "Start_turn s (Inr (str ''id'')) (world y0) = (True, Some (0, ?d), w1)"
    "length (heap w1) = 1" "encryptKey (conn w1 0) = None" "\<not> ctx_done (conn w1 0)" "\<not> sock_closed (conn w1 0)"
    "forwarded w1 = []" "connections w1 = [str ''id'' \<mapsto> 0]"
    by (simp add: Start_turn_def newConnection_def y0_def NewWorld_def s Let_def)
  define y1 where "y1 = y0\<lparr>world := w1, decoder_of := (decoder_of y0)(0 := ?d), phase_of := (phase_of y0)(0 := Reading)\<rparr>"
  have "reachable s y0" unfolding y0_def by (rule reach_init)
  moreover have "step s y0 y1"
    unfolding y1_def using w1(1) by (intro Accept)
  ultimately have r1: "reachable s y1" by (rule reach_step)
  have "decoder_inv ?d" "pending ?d = []"
    by (simp_all add: newDecoderWithConfig_def decoder_inv_def pending_def buf_bytes_def)
  then obtain d1 d2 where d: "Feed ?d (wire_frame login_packet) = Some d1" "Decode d1 = Some (Inr (Some login_packet), d2)"
    and d2: "decoder_inv d2" "pending d2 = []"
    using dec.noisy_frame [of ?d "[]" login_packet "[]"] login_packet_wf(1) by (auto simp: quiet_def)
  obtain d3 where d3: "Decode d2 = Some (Inr None, d3)"
    using dec.decode_law [OF d2(1)] dec.decode_scan [OF d2(1)] d2(2) by (auto simp: scan.simps)
  define w2 where "w2 = modc 0 (\<lambda>cn. cn\<lparr>lastSeen := Unix (now w1)\<rparr>) w1"
  define y2 where "y2 = y1\<lparr>world := w2, decoder_of := (decoder_of y1)(0 := d1), phase_of := (phase_of y1)(0 := Processing)\<rparr>"
  have "wire_frame login_packet \<noteq> []" by (simp add: wire_frame_def)
  then have "step s y1 y2"
    unfolding y2_def w2_def using w1 d(1) Read [of 0 y1 "wire_frame login_packet" d1 s] by (simp add: y1_def)
  with r1 have r2: "reachable s y2" by (rule reach_step)
  obtain w3 where w3: "handlePacket s 0 login_packet w2 = Some w3" "State w3 0 = ConnLoggedIn" "length (heap w3) = 1"
      "connections w3 = connections w2" "forwarded w3 = map (\<lambda>f. (f, newForwardMsg ''login'' sample_vin (FLogin ld))) fs"
    using example_login [of s login_packet w2 0 ld] s w1 ld login_packet_wf(2)
    by (auto simp: w2_def login_packet_def response_packet_def)
  define y3 where "y3 = y2\<lparr>world := w3, decoder_of := (decoder_of y2)(0 := d2)\<rparr>"
  have "step s y2 y3" unfolding y3_def using w1(2) d(2) w3(1) by (intro Packet) (simp_all add: y2_def w2_def)
  with r2 have r3: "reachable s y3" by (rule reach_step)
  have "step s y3 (y3\<lparr>decoder_of := (decoder_of y3)(0 := d3), phase_of := (phase_of y3)(0 := Reading)\<rparr>)"
    using w3(3) d3 by (intro Drained) (simp_all add: y3_def y2_def)
  with r3 have "reachable s (y3\<lparr>decoder_of := (decoder_of y3)(0 := d3), phase_of := (phase_of y3)(0 := Reading)\<rparr>)"
    by (rule reach_step)
  then show ?thesis using w3 w1(7) by (fastforce simp: y3_def w2_def)
qed

lemma sample_run:
  "\<exists>y :: nat Sys. reachable (whitelist_server open_sockets [sample_vin]) y \<and> length (heap (world y)) = 1 \<and>
    State (world y) 0 = ConnLoggedIn \<and> connections (world y) = [str ''id'' \<mapsto> 0]"
  using login_bytes_decode sample_run_forwarding [where fs = "[]"] by (auto simp: WithForwarder_def)

lemma whitelist_callbacks: "callbacks_ok (whitelist_server sock xs)"
  by (rule whitelisted.app_callbacks)

section \<open>Properties\<close>

text \<open>
  C3: only authenticated vehicles are logged in. In every state the server can reach, with any
  callbacks that use the exported operations only and any interleaving of connections, idle checks
  and shutdown, a connection in state \<open>ConnLoggedIn\<close> has a VIN that the authenticator accepts,
  and the registry lists connections under accepted VINs only.
\<close>

theorem logged_in_is_authenticated:
  assumes "callbacks_ok s" and "auth s = Some a" and "\<And>w v. snd (a w v) = Inr True \<Longrightarrow> acc v"
    and "reachable s y"
  shows "(c < length (heap (world y)) \<and> State (world y) c = ConnLoggedIn \<longrightarrow> acc (conn_vin (conn (world y) c))) \<and>
    (GetConnectionByVIN (world y) v = Some c' \<longrightarrow> acc v \<and> c' < length (heap (world y)))"
proof -
  have "application s acc" by unfold_locales (use assms in auto)
  note inv = application.reachable_inv [OF this assms(4)]
  have "c' \<in> set (getAll (vinReg (world y)) v)" if "GetConnectionByVIN (world y) v = Some c'"
    using that by (auto simp: GetConnectionByVIN_def reg.get_first split: list.splits)
  with inv show ?thesis unfolding world_inv_def by blast
qed

theorem logged_in_is_authenticated_witness:
  "\<exists>y :: nat Sys. reachable (whitelist_server open_sockets [sample_vin]) y \<and>
     State (world y) 0 = ConnLoggedIn \<and> conn_vin (conn (world y) 0) = sample_vin"
proof -
  obtain y :: "nat Sys" where y: "reachable (whitelist_server open_sockets [sample_vin]) y"
    "length (heap (world y)) = 1" "State (world y) 0 = ConnLoggedIn"
    using sample_run by blast
  have "auth (whitelist_server open_sockets [sample_vin] :: nat Server) =
      Some (\<lambda>w v. (w, Whitelist_Authenticate (NewVINWhitelist [sample_vin]) v))"
    by (simp add: whitelist_server_def WithAuthenticator_def)
  with logged_in_is_authenticated [OF whitelist_callbacks this _ y(1), of "\<lambda>v. v = sample_vin" 0] y
  show ?thesis by (auto simp: Whitelist_Authenticate_def set_of_NewVINWhitelist)
qed

text \<open>
  C13: exact bookkeeping. If the registered connections are exactly the open ones and the counter
  is their number, this still holds after closing any connection, after accepting one under an
  identifier that is not in use, and after handling any packet, except a login that is accepted
  while its connection is closed.
\<close>

theorem books_kept:
  assumes "callbacks_ok s" and "books w" and "c < length (heap w)"
  shows "books (Close c w) \<and>
    (connections w i = None \<longrightarrow> Start_turn s (Inr i) w = (True, Some (c1, d), w1) \<longrightarrow> books w1) \<and>
    (\<not> reopens s c pkt w \<longrightarrow> handlePacket s c pkt w = Some w2 \<longrightarrow> books w2)"
proof -
  have b: "limited s" by unfold_locales (rule assms(1))
  show ?thesis
    using books_Close [OF assms(2,3)] books_accept [OF assms(2)]
      limited.handlePacket_books [OF b assms(2,3)] by blast
qed

lemma books_sample: "conn_state cn \<noteq> ConnClosed \<Longrightarrow> books (sample_world cn)"
proof -
  assume "conn_state cn \<noteq> ConnClosed"
  then have o: "open_conns (sample_world cn) = {0}" by (auto simp: open_conns_def State_def)
  have m: "connections (sample_world cn) = [conn_id cn \<mapsto> 0]" "connCount (sample_world cn) = 1"
    by (simp_all add: sample_world_def)
  have "connections (sample_world cn) i = Some c \<longleftrightarrow>
      c \<in> open_conns (sample_world cn) \<and> conn_id (conn (sample_world cn) c) = i" for i c
    unfolding o m(1) by (cases "i = conn_id cn"; cases "c = 0") simp_all
  then show ?thesis by (simp add: books_def o m(2))
qed

theorem books_kept_witness:
  "books (Close 0 (sample_world sample_conn)) \<and>
   (\<exists>w'. handlePacket (whitelist_server open_sockets [sample_vin]) 0 login_packet (sample_world sample_conn) = Some w' \<and>
     books w')"
proof -
  let ?s = "whitelist_server open_sockets [sample_vin] :: nat Server" and ?w = "sample_world sample_conn"
  have o: "State ?w 0 \<noteq> ConnClosed" by (simp add: State_def sample_conn_def)
  then have b: "books ?w" by (intro books_sample) (simp add: State_def)
  obtain w' where w': "handlePacket ?s 0 login_packet ?w = Some w'" using handlePacket_Some by blast
  have "\<not> reopens ?s 0 login_packet ?w"
    using o by (simp add: reopens_def login_auth_def whitelist_server_def example_defs)
  with books_kept [OF whitelist_callbacks b, of 0] w' show ?thesis by auto
qed

text \<open>
  C28: a login on a closed connection breaks it. \<^verbatim>\<open>handlePacket\<close> does not look at the state: an accepted
  login after a close sets the connection back to logged in and registers its VIN, and the deferred
  \<^verbatim>\<open>Close\<close> at the end of the goroutine then counts the connection down a second time.
\<close>

theorem login_after_close_miscounts:
  assumes "c < length (heap w)" and "State w c \<noteq> ConnClosed" and "encryptKey (conn w c) = None"
    and "auth s = None" and "handler s = None"
    and "Command pkt = CmdLogin" and "DecodeLoginData (Data pkt) = Some (Inr ld)"
  shows "\<exists>w'. handlePacket s c pkt (Close c w) = Some w' \<and> State w' c = ConnLoggedIn \<and>
    c \<in> set (getAll (vinReg w') (VIN pkt)) \<and> ConnCount (Close c w') = ConnCount w - 2"
proof -
  let ?w = "forward s (newForwardMsg ''login'' (VIN pkt) (FLogin ld)) (logged_in c pkt ld (Close c w))"
  have "encryptKey (conn (Close c w) c) = None" using assms(1-3) by (simp add: Close_def)
  then have "handlePacket s c pkt (Close c w) = Some ?w"
    using assms(4-7) by (simp add: handlePacket_def dispatch_def handle_login_def login_auth_def
        login_reply_def logged_in_def Let_def)
  moreover have st: "State ?w c = ConnLoggedIn" "c < length (heap ?w)"
    using assms(1) by (simp_all add: State_def logged_in_def Let_def)
  moreover have "c \<in> set (getAll (vinReg ?w) (VIN pkt))" by (simp add: logged_in_def Let_def reg.getAll_add)
  moreover have "ConnCount (Close c ?w) = ConnCount w - 2"
    using Close_simps(4) [OF st(2)] st(1) Close_simps(4) [OF assms(1,2)]
    by (simp add: ConnCount_def logged_in_def Let_def)
  ultimately show ?thesis by blast
qed

theorem login_after_close_miscounts_witness:
  "\<exists>w'. handlePacket (NewServer open_sockets []) 0 login_packet
      (Close 0 (sample_world (sample_conn\<lparr>encryptKey := None\<rparr>))) = Some w' \<and>
    ConnCount (Close 0 w') = - 1"
proof -
  obtain ld where ld: "DecodeLoginData login_bytes = Some (Inr ld)" using login_bytes_decode by blast
  have "ConnCount (sample_world (sample_conn\<lparr>encryptKey := None\<rparr>)) = 1"
    by (simp add: ConnCount_def sample_world_def)
  with login_after_close_miscounts [of 0 "sample_world (sample_conn\<lparr>encryptKey := None\<rparr>)"
      "NewServer open_sockets []" login_packet ld] ld
  show ?thesis
    by (auto simp: State_def sample_conn_def NewServer_def login_packet_def response_packet_def)
qed

text \<open>
  A whole login with the example handler. On a connection without a key, a well-formed login that
  the authenticator accepts leaves the connection logged in under the VIN and ICCID of the login,
  registered under that VIN; exactly one frame was written, the login response in plain text;
  and from then on the connection has the key derived from the token in that response.
\<close>

theorem example_login_session:
  assumes "login_auth (example_server sock) pkt w = (w, True)" and "c < length (heap w)"
    and "encryptKey (conn w c) = None" and "\<not> sock_closed (conn w c)"
    and "\<And>w p. sock w c p = None" and "length (VIN pkt) = 17"
    and "Command pkt = CmdLogin" and "DecodeLoginData (Data pkt) = Some (Inr ld)"
  shows "\<exists>w'. handlePacket (example_server sock) c pkt w = Some w' \<and> State w' c = ConnLoggedIn \<and>
    Conn_VIN w' c = VIN pkt \<and> Conn_ICCID w' c = ICCID ld \<and>
    encryptKey (conn w' c) = Some (DeriveAESKey (str ''TOKEN123'')) \<and>
    written (conn w' c) = written (conn w c) @
      [wire_frame (response_packet CmdLogin (VIN pkt) EncNone (EncodeLoginResponse (example_response ld)))] \<and>
    vinReg w' = add (vinReg w) (VIN pkt) c"
proof -
  have "handler (example_server sock) = Some MyHandler" "socket (example_server sock) = sock"
    by (simp_all add: example_defs)
  with example_login [of "example_server sock" pkt w c ld] assms show ?thesis by auto
qed

theorem example_login_session_witness:
  "\<exists>w'. handlePacket (example_server open_sockets) 0 login_packet
      (sample_world (sample_conn\<lparr>conn_state := ConnNew, conn_vin := [], encryptKey := None\<rparr>)) = Some w' \<and>
    State w' 0 = ConnLoggedIn \<and> Conn_VIN w' 0 = sample_vin \<and>
    encryptKey (conn w' 0) = Some (DeriveAESKey (str ''TOKEN123''))"
proof -
  obtain ld where ld: "DecodeLoginData login_bytes = Some (Inr ld)" using login_bytes_decode by blast
  have "login_auth (example_server open_sockets) login_packet w = (w, True)" for w :: "nat World"
    by (simp add: login_auth_def example_defs AllowAll_Authenticate_def)
  with example_login_session [of open_sockets login_packet
      "sample_world (sample_conn\<lparr>conn_state := ConnNew, conn_vin := [], encryptKey := None\<rparr>)" 0 ld] ld
  show ?thesis
    using login_packet_wf(2)
    by (auto simp: open_sockets_def sample_conn_def login_packet_def response_packet_def)
qed

section \<open>Limits, idle connections, shutdown\<close>

sublocale limited \<subseteq> lim: api_invariant s "\<lambda>w. connCount w \<le> n"
  by unfold_locales (auto simp: lim_callbacks Close_def)

context limited
begin

lemma reachable_connCount:
  assumes "reachable s y" "0 \<le> maxConns s"
  shows "world_inv (\<lambda>_. True) (world y) \<and> connCount (world y) \<le> maxConns s"
proof -
  have "step_invariant s (\<lambda>w. connCount w \<le> maxConns s)"
    by (intro step_invariant.intro lim.api_invariant_axioms, unfold_locales)
      (use assms(2) in \<open>auto simp: NewWorld_def Start_turn_def newConnection_def logged_in_def Let_def split: if_splits\<close>)
  from step_invariant.reachable_keeps [OF this assms(1)] show ?thesis .
qed

end

text \<open>
  C21: the connection counter never exceeds the configured maximum, in any reachable state.
\<close>

theorem connCount_le_maxConns:
  assumes "callbacks_ok s" and "0 \<le> maxConns s" and "reachable s y"
  shows "ConnCount (world y) \<le> maxConns s"
proof -
  have "limited s" by unfold_locales (rule assms(1))
  from limited.reachable_connCount [OF this assms(3,2)] show ?thesis by (simp add: ConnCount_def)
qed

theorem connCount_le_maxConns_witness:
  "\<exists>y :: nat Sys. reachable (whitelist_server open_sockets [sample_vin]) y \<and>
    State (world y) 0 = ConnLoggedIn \<and> ConnCount (world y) \<le> 50000"
proof -
  have "maxConns (whitelist_server open_sockets [sample_vin] :: nat Server) = 50000"
    by (simp add: whitelist_server_def example_defs)
  moreover obtain y :: "nat Sys" where "reachable (whitelist_server open_sockets [sample_vin]) y"
    "State (world y) 0 = ConnLoggedIn" using sample_run by blast
  ultimately show ?thesis using connCount_le_maxConns [OF whitelist_callbacks, of open_sockets "[sample_vin]" y] by auto
qed


text \<open>Closing in the order of a key list.\<close>

lemma State_Close: "c < length (heap w) \<Longrightarrow> State (Close c w) c = ConnClosed"
  by (simp add: Close_def State_def)

lemma conn_id_Close: "conn_id (conn (Close c w) c') = conn_id (conn w c')"
  by (simp add: Close_def conn_modc)

lemma Range_Close_frame [simp]:
  "server_done (Range ks Close w) = server_done w" "listener (Range ks Close w) = listener w"
  "length (heap (Range ks Close w)) = length (heap w)"
  "forwarders_closed (Range ks Close w) = forwarders_closed w"
  by (induction ks arbitrary: w) (auto simp: Close_def unregister_def modc_def Let_def split: option.splits)

lemma Range_Close_books:
  assumes "books w"
  shows "books (Range ks Close w) \<and>
    open_conns (Range ks Close w) = {c \<in> open_conns w. conn_id (conn w c) \<notin> set ks}"
  using assms
proof (induction ks arbitrary: w)
  case (Cons k ks)
  show ?case
  proof (cases "connections w k")
    case None
    then have "conn_id (conn w c) \<noteq> k" if "c \<in> open_conns w" for c
      using Cons.prems that by (metis books_def option.distinct(1))
    then show ?thesis using Cons None by auto
  next
    case (Some c)
    then have c: "c \<in> open_conns w" "conn_id (conn w c) = k"
      using Cons.prems by (auto simp: books_def)
    then have l: "c < length (heap w)" by (simp add: open_conns_def)
    have "conn_id (conn w c') \<noteq> k" if "c' \<in> open_conns w" "c' \<noteq> c" for c'
      using Cons.prems Some that by (metis books_def option.inject)
    with Cons.IH [OF books_Close [OF Cons.prems l]] Some c show ?thesis
      by (auto simp: open_conns_Close [OF l] conn_id_Close)
  qed
qed simp

lemma Stop_close_all:
  assumes "books w" and "dom (connections w) \<subseteq> set ks"
  shows "c < length (heap w) \<Longrightarrow> State (Stop_close ks w) c = ConnClosed"
    "connections (Stop_close ks w) = Map.empty" "connCount (Stop_close ks w) = 0"
proof -
  let ?w = "w\<lparr>server_done := True, listener := map_option (\<lambda>_. True) (listener w)\<rparr>"
  have "{c \<in> open_conns ?w. conn_id (conn ?w c) \<notin> set ks} = {}"
    using assms by (force simp: books_def open_conns_def State_def)
  moreover have "books ?w" by (rule books_frame(5) [OF assms(1)])
  ultimately have b: "books (Stop_close ks w)" and o: "open_conns (Stop_close ks w) = {}"
    using Range_Close_books [of ?w ks] by (simp_all add: Stop_close_def)
  have "length (heap (Stop_close ks w)) = length (heap w)" by (simp add: Stop_close_def)
  with o show "c < length (heap w) \<Longrightarrow> State (Stop_close ks w) c = ConnClosed" by (auto simp: open_conns_def)
  show "connections (Stop_close ks w) = Map.empty" "connCount (Stop_close ks w) = 0"
    using b o by (simp_all add: books_def fun_eq_iff flip: not_Some_eq)
qed

text \<open>
  Without exact bookkeeping: a registered connection is open and stands under its own identifier, so
  ranging over the table closes what is registered, and the counter goes down by as much.
\<close>

definition registered_open :: "'a World \<Rightarrow> bool" where
  "registered_open w \<longleftrightarrow>
     (\<forall>i c. connections w i = Some c \<longrightarrow> c < length (heap w) \<and> conn_id (conn w c) = i \<and> State w c \<noteq> ConnClosed)"

lemma registered_open_modc:
  assumes "registered_open w" "conn_id (f (conn w c)) = conn_id (conn w c)"
    and "conn_state (f (conn w c)) = ConnClosed \<Longrightarrow> conn_state (conn w c) = ConnClosed"
  shows "registered_open (modc c f w)"
  using assms by (auto simp: registered_open_def State_def conn_modc)

lemma registered_open_Close:
  assumes "registered_open w" "c < length (heap w)"
  shows "registered_open (Close c w)"
proof (cases "State w c = ConnClosed")
  case False
  note C = Close_simps [OF assms(2) False]
  show ?thesis
    unfolding registered_open_def
  proof (intro allI impI)
    fix i c'
    assume "connections (Close c w) i = Some c'"
    then have i: "connections w i = Some c'" "i \<noteq> conn_id (conn w c)" by (auto simp: C(5) split: if_splits)
    then have "c' \<noteq> c" using assms(1) by (auto simp: registered_open_def)
    then show "c' < length (heap (Close c w)) \<and> conn_id (conn (Close c w) c') = i \<and> State (Close c w) c' \<noteq> ConnClosed"
      using i assms(1) C(3) [of c'] by (simp add: registered_open_def State_def)
  qed
qed (use assms(1) in \<open>simp add: Close_def\<close>)

sublocale limited \<subseteq> ro: step_invariant s registered_open
proof unfold_locales
  show "registered_open w \<Longrightarrow> c < length (heap w) \<Longrightarrow> registered_open (Close c w)" for w c
    by (rule registered_open_Close)
  show "registered_open w \<Longrightarrow> registered_open (logged_in c pkt ld w)" for w c pkt ld
    using registered_open_modc [of w "\<lambda>cn. cn\<lparr>conn_vin := VIN pkt, conn_iccid := ICCID ld, conn_state := ConnLoggedIn\<rparr>" c]
    by (simp add: logged_in_def Let_def registered_open_def State_def)
  show "registered_open w \<Longrightarrow> Start_turn s (Inr i) w = (True, Some (c, d), w') \<Longrightarrow> registered_open w'" for w i c d w'
    by (auto simp: registered_open_def Start_turn_def newConnection_def Let_def State_def nth_append less_Suc_eq split: if_splits)
qed (auto simp: lim_callbacks registered_open_def State_def NewWorld_def forward_def conn_modc)

context limited
begin

lemma reachable_registered_open: "reachable s y \<Longrightarrow> registered_open (world y) \<and> finite (dom (connections (world y)))"
  using ro.reachable_keeps by (auto simp: world_inv_def)

end

definition ended :: "'a World \<Rightarrow> nat \<Rightarrow> bool" where
  "ended w c \<longleftrightarrow> State w c = ConnClosed \<and> ctx_done (conn w c) \<and> sock_closed (conn w c)"

lemma ended_Close: "ended w c \<Longrightarrow> ended (Close c' w) c"
  by (auto simp: ended_def Close_def State_def conn_modc)

lemma Range_Close_registered:
  assumes "registered_open w" "finite (dom (connections w))"
  shows "registered_open (Range ks Close w) \<and> dom (connections (Range ks Close w)) = dom (connections w) - set ks \<and>
    connCount (Range ks Close w) = connCount w - int (card (dom (connections w) \<inter> set ks)) \<and>
    (\<forall>c. ended w c \<or> (\<exists>i \<in> set ks. connections w i = Some c) \<longrightarrow> ended (Range ks Close w) c)"
  using assms
proof (induction ks arbitrary: w)
  case (Cons k ks)
  show ?case
  proof (cases "connections w k")
    case None
    then have "dom (connections w) - set (k # ks) = dom (connections w) - set ks"
      "dom (connections w) \<inter> set (k # ks) = dom (connections w) \<inter> set ks" by auto
    then show ?thesis using Cons.IH [OF Cons.prems] None by auto
  next
    case (Some c)
    then have c: "c < length (heap w)" "conn_id (conn w c) = k" "State w c \<noteq> ConnClosed"
      using Cons.prems(1) by (auto simp: registered_open_def)
    note C = Close_simps [OF c(1,3)]
    have dom: "dom (connections (Close c w)) = dom (connections w) - {k}" by (auto simp: C(5) c(2))
    have "dom (connections w) \<inter> set (k # ks) = insert k ((dom (connections w) - {k}) \<inter> set ks)" using Some by auto
    then have n: "card (dom (connections w) \<inter> set (k # ks)) = Suc (card ((dom (connections w) - {k}) \<inter> set ks))"
      using Cons.prems(2) by simp
    have e: "ended (Close c w) c" using C by (simp add: ended_def)
    have o: "connections (Close c w) i = connections w i" if "i \<noteq> k" for i using that by (simp add: C(5) c(2))
    note IH = Cons.IH [OF registered_open_Close [OF Cons.prems(1) c(1)], unfolded dom]
    have "ended (Range ks Close (Close c w)) c'" if "ended w c' \<or> (\<exists>i \<in> set (k # ks). connections w i = Some c')" for c'
      using that IH Cons.prems(2) e ended_Close [of w c' c] Some o by (metis finite_Diff option.inject set_ConsD)
    then show ?thesis using IH Cons.prems(2) Some n by (auto simp: C(4))
  qed
qed simp

text \<open>
  C23: shutdown. In any reachable state, let \<^verbatim>\<open>Stop\<close> close the connections while no other goroutine runs,
  visiting every registered one in some order. Each of them is then closed, with its context
  cancelled and its socket closed, and its goroutine returns at its next turn, whatever it reads
  there; the table is empty, the counter has gone down by the number of connections that were
  registered, and the accept loop ends at its next error. (A connection accepted later is
  missed, and one that is open but not registered is not touched.)
\<close>

theorem Stop_closes_all:
  assumes "callbacks_ok s" and "reachable s y" and "dom (connections (world y)) \<subseteq> set ks"
  shows "(GetConnection (world y) i = Some c \<longrightarrow>
      State (Stop_close ks (world y)) c = ConnClosed \<and> sock_closed (conn (Stop_close ks (world y)) c) \<and>
      run_turn s c ev d (Stop_close ks (world y)) = Some (False, d, Stop_close ks (world y))) \<and>
    connections (Stop_close ks (world y)) = Map.empty \<and>
    ConnCount (Stop_close ks (world y)) = ConnCount (world y) - int (card (dom (connections (world y)))) \<and>
    fst (Start_turn s (Inl err) (Stop_close ks (world y))) = False"
proof -
  let ?w = "(world y)\<lparr>server_done := True, listener := map_option (\<lambda>_. True) (listener (world y))\<rparr>"
  have "limited s" by unfold_locales (rule assms(1))
  from limited.reachable_registered_open [OF this assms(2)]
  have w: "registered_open ?w" "finite (dom (connections ?w))" by (simp_all add: registered_open_def State_def)
  have k: "dom (connections ?w) \<inter> set ks = dom (connections ?w)" "dom (connections ?w) - set ks = {}" using assms(3) by auto
  note R = Range_Close_registered [OF w, of ks, unfolded k]
  have "ended (Stop_close ks (world y)) c" if "GetConnection (world y) i = Some c"
  proof -
    have "connections ?w i = Some c" using that by (simp add: GetConnection_def split: option.splits)
    moreover from this have "i \<in> set ks" using assms(3) by auto
    ultimately show ?thesis using R unfolding Stop_close_def by blast
  qed
  moreover have "run_turn s c ev d w' = Some (False, d, w')" if "ended w' c" for w'
    using that by (simp add: ended_def run_turn_def Close_def)
  moreover have "server_done (Stop_close ks (world y))" by (simp add: Stop_close_def)
  ultimately show ?thesis
    using R by (auto simp: ended_def ConnCount_def Start_turn_def Stop_close_def)
qed

theorem Stop_closes_all_witness:
  "\<exists>y :: nat Sys. reachable (whitelist_server open_sockets [sample_vin]) y \<and> State (world y) 0 = ConnLoggedIn \<and>
    GetConnection (world y) (str ''id'') = Some 0 \<and>
    State (Stop_close [str ''id''] (world y)) 0 = ConnClosed \<and> connections (Stop_close [str ''id''] (world y)) = Map.empty"
proof -
  obtain y :: "nat Sys" where y: "reachable (whitelist_server open_sockets [sample_vin]) y" "State (world y) 0 = ConnLoggedIn"
    "connections (world y) = [str ''id'' \<mapsto> 0]"
    using sample_run by blast
  then have "dom (connections (world y)) \<subseteq> set [str ''id'']" by simp
  from Stop_closes_all [OF whitelist_callbacks y(1) this, of "str ''id''" 0] y show ?thesis
    by (auto simp: GetConnection_def)
qed

text \<open>A \<^verbatim>\<open>Send\<close> fails, after a part of the packet may have been written, or writes one packet.\<close>

lemma Send_outcomes:
  "(\<exists>w1 err. Send s c command data w = Some (w1, Some err) \<and> length (heap w1) = length (heap w) \<and>
      (w1 = w \<or> (\<exists>part. w1 = modc c (\<lambda>cn. cn\<lparr>written := written cn @ [part]\<rparr>) w))) \<or>
   (\<exists>pkt. Send s c command data w = Some (modc c (\<lambda>cn. cn\<lparr>written := written cn @ [pkt]\<rparr>) w, None))"
  using Send_effect [of s c command data w]
proof (elim disjE exE)
  fix pkt err
  assume "Send s c command data w = Some (modc c (\<lambda>cn. cn\<lparr>written := written cn @ [pkt]\<rparr>) w, err)"
  then show ?thesis by (cases err) auto
qed auto

text \<open>
  C24: the idle check. A connection heard from within the timeout is left alone. One that is silent
  for longer is probed; if it stays silent during the three seconds of the sleep, it is closed,
  whether or not the probe could be sent; if it answers, the check leaves it as it is.
\<close>

theorem idle_check_decides:
  assumes "c < length (heap w)" and "State w c \<noteq> ConnClosed"
  shows "(since_seen c w \<le> idleTimeout s \<longrightarrow> idle_check s sleep c w = Some w) \<and>
    (since_seen c w > idleTimeout s \<longrightarrow>
      (\<forall>w1. length (heap (sleep w1)) = length (heap w1) \<and> LastSeen (sleep w1) c = LastSeen w1 c \<and>
        since_seen c (sleep w1) \<ge> since_seen c w1 + 3 * second_ns) \<longrightarrow>
      (\<exists>w'. idle_check s sleep c w = Some w' \<and> State w' c = ConnClosed)) \<and>
    (since_seen c w > idleTimeout s \<longrightarrow>
      Send s c CmdHeartbeat (encodeBCDTime (in_UTC (now w))) w = Some (w1, None) \<longrightarrow>
      since_seen c (sleep w1) \<le> idleTimeout s + 3 * second_ns \<longrightarrow>
      idle_check s sleep c w = Some (sleep w1))"
proof (intro conjI impI)
  show "idle_check s sleep c w = Some w" if "since_seen c w \<le> idleTimeout s"
    using assms(2) that by (simp add: idle_check_def idle_probe_def)
next
  assume idle: "since_seen c w > idleTimeout s"
    and silent: "\<forall>w1. length (heap (sleep w1)) = length (heap w1) \<and> LastSeen (sleep w1) c = LastSeen w1 c \<and>
      since_seen c (sleep w1) \<ge> since_seen c w1 + 3 * second_ns"
  let ?hb = "encodeBCDTime (in_UTC (now w))"
  consider w1 err where "Send s c CmdHeartbeat ?hb w = Some (w1, Some err)" "c < length (heap w1)"
    | pkt where "Send s c CmdHeartbeat ?hb w = Some (modc c (\<lambda>cn. cn\<lparr>written := written cn @ [pkt]\<rparr>) w, None)"
    using Send_outcomes [of s c CmdHeartbeat ?hb w] assms(1) by auto
  then show "\<exists>w'. idle_check s sleep c w = Some w' \<and> State w' c = ConnClosed"
  proof cases
    case (1 w1 err)
    then show ?thesis using idle assms by (simp add: State_Close idle_check_def idle_probe_def)
  next
    case (2 pkt)
    let ?w = "modc c (\<lambda>cn. cn\<lparr>written := written cn @ [pkt]\<rparr>) w"
    have "since_seen c ?w = since_seen c w" using assms(1) by (simp add: since_seen_def LastSeen_def)
    then have late: "since_seen c (sleep ?w) > idleTimeout s + 3 * second_ns" using idle silent by smt
    have "c < length (heap (sleep ?w))" using assms(1) silent by simp
    with 2 idle assms late show ?thesis by (simp add: State_Close idle_check_def idle_probe_def idle_recheck_def)
  qed
next
  assume "since_seen c w > idleTimeout s" "since_seen c (sleep w1) \<le> idleTimeout s + 3 * second_ns"
    "Send s c CmdHeartbeat (encodeBCDTime (in_UTC (now w))) w = Some (w1, None)"
  then show "idle_check s sleep c w = Some (sleep w1)"
    using assms(2) by (simp add: idle_check_def idle_probe_def idle_recheck_def)
qed

text \<open>A sleep during which only the clock moves, and the sample connection, last heard from in 1970.\<close>

theorem idle_check_decides_witness:
  "\<exists>w'. idle_check (example_server open_sockets)
      (\<lambda>w. w\<lparr>now := (now w)\<lparr>tsec := tsec (now w) + 3\<rparr>\<rparr>) 0 (sample_world sample_conn) = Some w' \<and>
    State w' 0 = ConnClosed"
proof -
  have "since_seen 0 (sample_world sample_conn) > 10 * 60 * second_ns"
    by (simp add: since_seen_def LastSeen_def sample_world_def sample_conn_def NewWorld_def time_Unix_def
        second_ns_def unix_epoch_def) code_simp
  moreover have "idleTimeout (example_server open_sockets :: nat Server) = 10 * 60 * second_ns"
    by (simp add: example_defs)
  ultimately show ?thesis
    using idle_check_decides [of 0 "sample_world sample_conn" "example_server open_sockets"
        "\<lambda>w. w\<lparr>now := (now w)\<lparr>tsec := tsec (now w) + 3\<rparr>\<rparr>"]
    by (simp add: since_seen_def LastSeen_def State_def sample_conn_def algebra_simps)
qed

text \<open>The goroutine of every connection has returned: what \<^verbatim>\<open>Stop\<close> waits for.\<close>

definition all_finished :: "'a Sys \<Rightarrow> bool" where
  "all_finished y \<longleftrightarrow> (\<forall>c < length (heap (world y)). phase_of y c = Finished)"

text \<open>
  C29: shutdown can miss a connection. The accept loop sets up a socket that \<^verbatim>\<open>Accept\<close> returned without
  looking at the context, and the context of a connection does not depend on that of the server. So
  after \<^verbatim>\<open>Stop\<close> has closed every registered connection, the loop can still register one: it is open, its
  goroutine reads, and \<^verbatim>\<open>Stop\<close>, which waits for all goroutines, waits for this one.
\<close>

theorem Stop_misses_accepted:
  assumes "reachable s y" and "connCount (world y) < maxConns s"
    and "books (world y)" and "dom (connections (world y)) \<subseteq> set ks"
  shows "\<exists>z. step s (y\<lparr>world := Stop_close ks (world y)\<rparr>) z \<and> reachable s z \<and> server_done (world z) \<and>
    GetConnection (world z) i = Some (length (heap (world y))) \<and>
    State (world z) (length (heap (world y))) = ConnNew \<and> \<not> ctx_done (conn (world z) (length (heap (world y)))) \<and>
    \<not> all_finished z"
proof -
  let ?y = "y\<lparr>world := Stop_close ks (world y)\<rparr>" and ?c = "length (heap (world y))"
  have r: "reachable s ?y" by (rule reach_step [OF assms(1) Shutdown])
  have l: "length (heap (world ?y)) = ?c" by (simp add: Stop_close_def)
  have e: "connections (world ?y) i = None" "connCount (world ?y) = 0" using Stop_close_all [OF assms(3,4)] by simp_all
  have "0 \<le> connCount (world y)" using assms(3) by (simp add: books_def)
  then have "connCount (world ?y) < maxConns s" using e(2) assms(2) by simp
  then obtain d w where w: "Start_turn s (Inr i) (world ?y) = (True, Some (?c, d), w)" "connections w i = Some ?c"
    "State w ?c = ConnNew" "\<not> ctx_done (conn w ?c)" "server_done w = server_done (world ?y)" "?c < length (heap w)"
    using l by (simp add: Start_turn_def newConnection_def Let_def State_def nth_append)
  let ?z = "?y\<lparr>world := w, decoder_of := (decoder_of ?y)(?c := d), phase_of := (phase_of ?y)(?c := Reading)\<rparr>"
  have st: "step s ?y ?z" by (rule Accept [OF w(1)])
  moreover have "reachable s ?z" by (rule reach_step [OF r st])
  ultimately show ?thesis
    using w by (intro exI [of _ ?z]) (auto simp: GetConnection_def all_finished_def Stop_close_def)
qed

theorem Stop_misses_accepted_witness:
  "\<exists>z :: nat Sys. reachable (example_server open_sockets) z \<and> server_done (world z) \<and>
    GetConnection (world z) (str ''late'') = Some 0 \<and> \<not> all_finished z"
proof -
  let ?y = "\<lparr>world = NewWorld (Date 2026 6 15 18 48 30) 0, decoder_of = (\<lambda>_. NewDecoder),
    phase_of = (\<lambda>_. Finished), probing = {}\<rparr> :: nat Sys"
  have "reachable (example_server open_sockets) ?y" by (rule reach_init)
  from Stop_misses_accepted [OF this, of "[]" "str ''late''"]
  show ?thesis by (auto simp: NewWorld_def example_defs books_def open_conns_def)
qed

section \<open>The accept loop\<close>

text \<open>The identifiers of the sockets that \<^verbatim>\<open>Accept\<close> returned.\<close>

definition accepted_ids :: "(go_error + gostring) list \<Rightarrow> gostring list" where
  "accepted_ids evs = List.map_filter (\<lambda>ev. case ev of Inl _ \<Rightarrow> None | Inr i \<Rightarrow> Some i) evs"

lemma accepted_ids_simps [simp]:
  "accepted_ids [] = []" "accepted_ids (Inl err # evs) = accepted_ids evs" "accepted_ids (Inr i # evs) = i # accepted_ids evs"
  by (simp_all add: accepted_ids_def map_filter_simps)

text \<open>
  What the loop does while the server is not stopped: the first sockets, up to the limit, become the
  next cells of the heap, each with its identifier and a new decoder.
\<close>

lemma accept_loop_exact:
  assumes "accept_loop s evs w = (b, gs, w')" "\<not> server_done w"
  defines "ids \<equiv> accepted_ids evs" and "k \<equiv> length (heap w)" and "n \<equiv> min (length (accepted_ids evs)) (nat (maxConns s - connCount w))"
  shows "b \<and> map fst gs = [k..<k + n] \<and> connCount w' = connCount w + int n \<and>
    map snd gs = replicate n (newDecoderWithConfig (srv_timeCodec s) (srv_bccIncludeStart s)) \<and>
    connections w' = connections w ++ map_of (rev (zip (take n ids) [k..<k + n])) \<and>
    (\<exists>cs. heap w' = heap w @ cs \<and> map conn_id cs = take n ids \<and> map conn_state cs = replicate n ConnNew)"
  using assms(1,2) unfolding ids_def k_def n_def
proof (induction evs arbitrary: w b gs w')
  case (Cons ev evs)
  let ?r = "\<lambda>b gs w' w ids. let k = length (heap w); n = min (length ids) (nat (maxConns s - connCount w)) in
    b \<and> map fst gs = [k..<k + n] \<and> connCount w' = connCount w + int n \<and>
    map snd gs = replicate n (newDecoderWithConfig (srv_timeCodec s) (srv_bccIncludeStart s)) \<and>
    connections w' = connections w ++ map_of (rev (zip (take n ids) [k..<k + n])) \<and>
    (\<exists>cs. heap w' = heap w @ cs \<and> map conn_id cs = take n ids \<and> map conn_state cs = replicate n ConnNew)"
  have IH: "?r b2 gs2 w2 w1 (accepted_ids evs)" if "accept_loop s evs w1 = (b2, gs2, w2)" "\<not> server_done w1" for b2 gs2 w2 w1
    using Cons.IH [OF that] by (simp add: Let_def)
  consider (err) err where "ev = Inl err" | (full) i where "ev = Inr i" "connCount w \<ge> maxConns s"
    | (new) i where "ev = Inr i" "connCount w < maxConns s"
    by (cases ev) force+
  then have "?r b gs w' w (accepted_ids (ev # evs))"
  proof cases
    case err
    then have "accept_loop s evs w = (b, gs, w')"
      using Cons.prems by (cases "accept_loop s evs w") (simp add: Start_turn_def)
    from IH [OF this Cons.prems(2)] err show ?thesis by simp
  next
    case full
    then have "accept_loop s evs w = (b, gs, w')"
      using Cons.prems by (cases "accept_loop s evs w") (simp add: Start_turn_def)
    from IH [OF this Cons.prems(2)] full show ?thesis by (simp add: Let_def)
  next
    case new
    obtain d w1 cn where 1: "Start_turn s ev w = (True, Some (length (heap w), d), w1)"
      "d = newDecoderWithConfig (srv_timeCodec s) (srv_bccIncludeStart s)"
      "heap w1 = heap w @ [cn]" "conn_id cn = i" "conn_state cn = ConnNew" "connCount w1 = connCount w + 1"
      "connections w1 = (connections w)(i \<mapsto> length (heap w))" "\<not> server_done w1"
      using new Cons.prems(2) by (auto simp: Start_turn_def newConnection_def Let_def)
    obtain b2 gs2 w2 where 2: "accept_loop s evs w1 = (b2, gs2, w2)" by (metis prod_cases3)
    let ?n = "min (length (accepted_ids evs)) (nat (maxConns s - connCount w1))"
    have n: "min (length (accepted_ids (ev # evs))) (nat (maxConns s - connCount w)) = Suc ?n"
    proof -
      have "nat (maxConns s - connCount w) = Suc (nat (maxConns s - (connCount w + 1)))" using new(2) by arith
      then show ?thesis using new(1) 1(6) by simp
    qed
    have "b = b2" "gs = (length (heap w), d) # gs2" "w' = w2" using Cons.prems(1) 1(1) 2 by simp_all
    moreover have "[length (heap w)..<length (heap w) + Suc ?n] = length (heap w) # [length (heap w1)..<length (heap w1) + ?n]"
      using 1(3) upt_conv_Cons [of "length (heap w)" "length (heap w) + Suc ?n"] by simp
    ultimately show ?thesis
      using IH [OF 2 1(8)] 1 new(1) unfolding Let_def n by (auto simp: map_add_def fun_eq_iff split: option.splits)
  qed
  then show ?case by (simp add: Let_def)
qed simp

text \<open>
  C37: the accept loop of the example server. An error of \<^verbatim>\<open>net.Listen\<close> is returned by \<^verbatim>\<open>main\<close>'s call of
  \<^verbatim>\<open>Start\<close>. Otherwise the idle check is started, and as long as no connection is closed and the server
  is not stopped, the loop goes on, also after errors of \<^verbatim>\<open>Accept\<close>: of the sockets that \<^verbatim>\<open>Accept\<close>
  returned, the first 50000 (exactly those) become connections, each with a goroutine of its own
  and a decoder without pending bytes, in state \<^verbatim>\<open>ConnNew\<close>, registered under the identifier
  drawn for it (the identifiers being different), and counted.
\<close>

theorem example_accepts:
  assumes "distinct (accepted_ids evs)" and "example_main sock None evs (NewWorld t a) = Inr (idle, running, gs, w)"
  defines "n \<equiv> min (length (accepted_ids evs)) 50000"
  shows "example_main sock (Some err) evs (NewWorld t a) = Inl err \<and>
    idle \<and> running \<and> map fst gs = [0..<n] \<and> map snd gs = replicate n NewDecoder \<and>
    ConnCount w = int n \<and> length (heap w) = n \<and>
    (\<forall>k < n. GetConnection w (accepted_ids evs ! k) = Some k \<and> ID w k = accepted_ids evs ! k \<and> State w k = ConnNew)"
proof -
  let ?s = "example_server sock" and ?w0 = "(NewWorld t a)\<lparr>listener := Some False\<rparr>" and ?ids = "accepted_ids evs"
  have m: "maxConns ?s = 50000" "idleTimeout ?s > 0" "srv_timeCodec ?s = TimeCodecBCD" "\<not> srv_bccIncludeStart ?s"
    by (simp_all add: example_defs second_ns_def)
  have l: "accept_loop ?s evs ?w0 = (running, gs, w)" and i: "idle"
    using assms(2) m(2) by (simp_all add: example_main_def Start_def)
  have w0: "heap ?w0 = []" "connCount ?w0 = 0" "connections ?w0 = Map.empty" "\<not> server_done ?w0"
    by (simp_all add: NewWorld_def)
  note A = accept_loop_exact [OF l w0(4), unfolded w0 m(1), simplified, folded n_def]
  obtain cs where cs: "heap w = cs" "map conn_id cs = take n ?ids" "map conn_state cs = replicate n ConnNew" using A by auto
  have len: "length cs = n" using arg_cong [OF cs(3), of length] by simp
  have nl: "n \<le> length ?ids" by (simp add: n_def)
  have "GetConnection w (?ids ! k) = Some k \<and> ID w k = ?ids ! k \<and> State w k = ConnNew" if "k < n" for k
  proof -
    have "distinct (map fst (zip (take n ?ids) [0..<n]))" using assms(1) nl by simp
    then have "map_of (rev (zip (take n ?ids) [0..<n])) = map_of (zip (take n ?ids) [0..<n])"
      by (subst map_of_inject_set) (simp_all add: rev_map [symmetric])
    moreover have "map_of (zip (take n ?ids) [0..<n]) (?ids ! k) = Some k"
      using assms(1) that nl map_of_zip_nth [of "take n ?ids" "[0..<n]" k] by simp
    moreover have "conn_id (cs ! k) = ?ids ! k" "conn_state (cs ! k) = ConnNew"
      using arg_cong [OF cs(2), of "\<lambda>xs. xs ! k"] arg_cong [OF cs(3), of "\<lambda>xs. xs ! k"] that len by simp_all
    ultimately show ?thesis using A cs(1) by (simp add: GetConnection_def ID_def State_def)
  qed
  then show ?thesis
    using A i m cs(1) len by (simp add: ConnCount_def example_main_def Start_def NewDecoder_def newDecoderWithConfig_def)
qed

theorem example_accepts_witness:
  "\<exists>gs (w :: nat World). example_main open_sockets None [Inr (str ''a''), Inl (ExternalError 0), Inr (str ''b'')]
      (NewWorld (Date 2026 6 15 18 48 30) 0) = Inr (True, True, gs, w) \<and> map fst gs = [0, 1] \<and> ConnCount w = 2 \<and>
    GetConnection w (str ''b'') = Some 1"
proof -
  let ?evs = "[Inr (str ''a''), Inl (ExternalError 0), Inr (str ''b'')]" and ?w = "NewWorld (Date 2026 6 15 18 48 30) 0 :: nat World"
  have d: "distinct (accepted_ids ?evs)" by (simp add: str_def)
  obtain running gs w where "accept_loop (example_server open_sockets) ?evs (?w\<lparr>listener := Some False\<rparr>) = (running, gs, w)"
    by (rule prod_cases3)
  then have g: "example_main open_sockets None ?evs ?w = Inr (idleTimeout (example_server open_sockets :: nat Server) > 0, running, gs, w)"
    by (simp only: example_main_def Start_def Let_def option.case)
  have "accepted_ids ?evs ! 1 = str ''b''" "length (accepted_ids ?evs) = 2" "[0..<2] = [0, 1 :: nat]" by (simp_all add: upt_rec)
  moreover have "\<forall>k < min (length (accepted_ids ?evs)) 50000. GetConnection w (accepted_ids ?evs ! k) = Some k"
    using example_accepts [OF d g] by blast
  from this [THEN spec, of 1] have "GetConnection w (str ''b'') = Some 1" by simp
  ultimately show ?thesis using example_accepts [OF d g] g by simp
qed

end
