(* ===== verification/Server_Runs.thy ===== *)
theory Server_Runs
  imports Server_Props
begin

text \<open>
  The goroutine of a connection, \<^verbatim>\<open>run\<close> in \<^verbatim>\<open>conn.go\<close>, is a sequence of steps of the server's step
  relation, so that what holds in every reachable state holds during its run; and \<^verbatim>\<open>Close\<close>, which
  several goroutines may call at once, taken apart into its atomic actions.
\<close>

section \<open>Runs are sequences of steps\<close>

sublocale limited \<subseteq> hp: api_invariant s "\<lambda>w. length (heap w) = n"
  by unfold_locales (simp_all add: lim_callbacks)

definition at :: "'a Sys \<Rightarrow> nat \<Rightarrow> 'a World \<Rightarrow> Decoder \<Rightarrow> phase \<Rightarrow> 'a Sys" where
  "at y c w d ph = y\<lparr>world := w, decoder_of := (decoder_of y)(c := d), phase_of := (phase_of y)(c := ph)\<rparr>"

lemma at_simps [simp]:
  "world (at y c w d ph) = w" "decoder_of (at y c w d ph) c = d" "phase_of (at y c w d ph) c = ph"
  "at (at y c w d ph) c w' d' ph' = at y c w' d' ph'"
  by (simp_all add: at_def)

lemma at_upd:
  "(at y c w d ph)\<lparr>world := w', decoder_of := (decoder_of (at y c w d ph))(c := d')\<rparr> = at y c w' d' ph"
  "(at y c w d ph)\<lparr>world := w', phase_of := (phase_of (at y c w d ph))(c := ph')\<rparr> = at y c w' d ph'"
  "(at y c w d ph)\<lparr>decoder_of := (decoder_of (at y c w d ph))(c := d'),
     phase_of := (phase_of (at y c w d ph))(c := ph')\<rparr> = at y c w d' ph'"
  "(at y c w d ph)\<lparr>world := w', decoder_of := (decoder_of (at y c w d ph))(c := d'),
     phase_of := (phase_of (at y c w d ph))(c := ph')\<rparr> = at y c w' d' ph'"
  by (cases y, simp add: at_def)+

lemma at_same: "decoder_of y c = d \<Longrightarrow> phase_of y c = ph \<Longrightarrow> at y c (world y) d ph = y"
  by (simp add: at_def fun_upd_idem)

context limited
begin

lemma handlePacket_heap:
  "handlePacket s c pkt w = Some w' \<Longrightarrow> c < length (heap w) \<Longrightarrow> length (heap w') = length (heap w)"
  using hp.handlePacket_keeps [of w "length (heap w)" c pkt w'] by (simp add: logged_in_def Let_def)

lemma processPackets_steps:
  "processPackets s c d w = Some (d', w') \<Longrightarrow> decoder_inv d \<Longrightarrow> c < length (heap w) \<Longrightarrow>
   (step s)\<^sup>*\<^sup>* (at y c w d Processing) (at y c w' d' Reading) \<and> length (heap w') = length (heap w) \<and> decoder_inv d'"
proof (induction "limit d - pos d" arbitrary: d w rule: less_induct)
  case less
  from less.prems(1) obtain r d1 where d1: "Decode d = Some (r, d1)"
    by (subst (asm) processPackets.simps) (auto split: option.splits)
  obtain q where q: "r = Inr q" and inv: "decoder_inv d1"
    using dec.decode_law [OF less.prems(2)] dec.decode_scan [OF less.prems(2)] d1 by (cases "scan (pending d)") auto
  let ?y = "at y c w d Processing"
  show ?case
  proof (cases q)
    case None
    then have "d' = d1" "w' = w" using less.prems(1) d1 q by (simp_all add: processPackets.simps [of s c d w])
    moreover have "step s ?y (at y c w d1 Reading)"
      using Drained [of c ?y d1 s] less.prems(3) d1 q None by (simp add: at_upd)
    ultimately show ?thesis using inv by auto
  next
    case (Some pkt)
    obtain w1 where w1: "handlePacket s c pkt w = Some w1" using handlePacket_Some by blast
    have "step s ?y (at y c w1 d1 Processing)"
      using Packet [of c ?y pkt d1 s w1] less.prems(3) d1 q Some w1 by (simp add: at_upd)
    moreover have "processPackets s c d1 w1 = Some (d', w')"
      using less.prems(1) d1 q Some w1 by (simp add: processPackets.simps [of s c d w])
    moreover have "limit d1 - pos d1 < limit d - pos d" using Decode_packet_less d1 q Some by simp
    moreover have "length (heap w1) = length (heap w)" using handlePacket_heap w1 less.prems(3) .
    ultimately show ?thesis
      using less.hyps [of d1 w1] inv less.prems(3) by (auto intro: converse_rtranclp_into_rtranclp)
  qed
qed

lemma run_turn_steps:
  assumes "run_turn s c ev d w = Some (b, d', w')" "decoder_inv d" "c < length (heap w)"
  shows "(step s)\<^sup>*\<^sup>* (at y c w d Reading) (at y c w' d' (if b then Reading else Finished)) \<and>
    length (heap w') = length (heap w) \<and> decoder_inv d'"
proof -
  let ?y = "at y c w d Reading"
  have fin: "step s ?y (at y c (Close c w) d Finished)"
    using Finish [of c ?y s] assms(3) by (simp add: at_upd)
  show ?thesis
  proof (cases "ctx_done (conn w c) \<or> ev = ReadError")
    case True
    then have "b = False" "d' = d" "w' = Close c w" using assms(1) by (auto simp: run_turn_def split: if_splits)
    then show ?thesis using fin assms(2) by auto
  next
    case False
    then obtain bs where ev: "ev = ReadBytes bs" "\<not> ctx_done (conn w c)" by (cases ev) auto
    let ?w = "modc c (\<lambda>cn. cn\<lparr>lastSeen := Unix (now w)\<rparr>) w"
    show ?thesis
    proof (cases "bs = []")
      case True
      then show ?thesis using assms(1,2) ev by (auto simp: run_turn_def)
    next
      case bs: False
      obtain d1 where d1: "Feed d bs = Some d1" "decoder_inv d1" using dec.feed_law [OF assms(2), of bs] by auto
      have "step s ?y (at y c ?w d1 Processing)"
        using Read [of c ?y bs d1 s, unfolded at_upd(4)] assms(3) ev(2) bs d1(1) by simp
      moreover have "b = True" "processPackets s c d1 ?w = Some (d', w')"
        using assms(1) ev bs d1 by (auto simp: run_turn_def split: bind_splits)
      ultimately show ?thesis
        using processPackets_steps [of c d1 ?w d' w' y] d1(2) assms(3)
        by (auto intro: converse_rtranclp_into_rtranclp)
    qed
  qed
qed

lemma run_steps:
  "run s c evs d w = Some (b, d', w') \<Longrightarrow> decoder_inv d \<Longrightarrow> c < length (heap w) \<Longrightarrow>
   (step s)\<^sup>*\<^sup>* (at y c w d Reading) (at y c w' d' (if b then Reading else Finished))"
proof (induction evs arbitrary: d w)
  case (Cons ev evs)
  from Cons.prems(1) obtain b1 d1 w1 where 1: "run_turn s c ev d w = Some (b1, d1, w1)"
    by (auto split: option.splits)
  note t = run_turn_steps [OF 1 Cons.prems(2,3), of y]
  show ?case
  proof (cases b1)
    case True
    with Cons 1 t show ?thesis by (fastforce intro: rtranclp_trans)
  next
    case False
    with Cons.prems(1) 1 t show ?thesis by auto
  qed
qed simp

end

lemma reachable_steps: "(step s)\<^sup>*\<^sup>* y z \<Longrightarrow> reachable s y \<Longrightarrow> reachable s z"
  by (induction rule: rtranclp_induct) (auto intro: reach_step)

text \<open>
  C40: the goroutine of a connection refines the step relation. Whatever a run of the read loop does
  to the world, for any sequence of reads, is a sequence of steps of the server; so a run that
  starts in a reachable state ends in one.
\<close>

theorem run_simulated:
  assumes "callbacks_ok s" and "run s c evs (decoder_of y c) (world y) = Some (b, d', w')"
    and "decoder_inv (decoder_of y c)" and "c < length (heap (world y))" and "phase_of y c = Reading"
  shows "(step s)\<^sup>*\<^sup>* y (at y c w' d' (if b then Reading else Finished)) \<and>
    (reachable s y \<longrightarrow> reachable s (at y c w' d' (if b then Reading else Finished)))"
proof -
  have "limited s" by unfold_locales (rule assms(1))
  from limited.run_steps [OF this assms(2-4), of y] at_same [of y c _ Reading] assms(5)
  have "(step s)\<^sup>*\<^sup>* y (at y c w' d' (if b then Reading else Finished))" by simp
  then show ?thesis using reachable_steps by blast
qed

theorem run_simulated_witness:
  "\<exists>z. (step (example_server open_sockets))\<^sup>*\<^sup>*
      \<lparr>world = sample_world (sample_conn\<lparr>encryptKey := None\<rparr>), decoder_of = (\<lambda>_. NewDecoder),
       phase_of = (\<lambda>_. Reading), probing = {}\<rparr> z \<and> phase_of z 0 = Finished"
proof -
  let ?s = "example_server open_sockets :: nat Server" and ?w = "sample_world (sample_conn\<lparr>encryptKey := None\<rparr>)"
  let ?y = "\<lparr>world = ?w, decoder_of = (\<lambda>_. NewDecoder), phase_of = (\<lambda>_. Reading), probing = {}\<rparr>"
  let ?w1 = "modc 0 (\<lambda>cn. cn\<lparr>lastSeen := Unix (now ?w)\<rparr>) ?w"
  have "list_all wf_packet [login_packet]" by (simp add: login_packet_wf)
  from feed_process_frames [OF NewDecoder_ok this, of ?s 0 ?w1]
  obtain d1 d2 w2 where d: "Feed NewDecoder (wire_frame login_packet) = Some d1"
    "processPackets ?s 0 d1 ?w1 = Some (d2, w2)" by auto
  have "run ?s 0 [ReadBytes (wire_frame login_packet), ReadError] (decoder_of ?y 0) (world ?y) =
      Some (False, d2, Close 0 w2)"
    using d by (simp add: run_turn_def wire_frame_def sample_conn_def Let_def)
  from run_simulated [OF allow_all.app_callbacks this] NewDecoder_ok show ?thesis by auto
qed

section \<open>Several goroutines closing one connection\<close>

text \<open>
  \<^verbatim>\<open>Close\<close>, with \<^verbatim>\<open>unregister\<close> inside it, is a sequence of atomic operations: it checks the state, stores
  the new one, cancels the context, closes the socket, deletes the table entry, counts down, and
  removes the VIN. Nothing keeps another goroutine (the read loop, the idle check, \<^verbatim>\<open>Stop\<close>, the
  application) from running in between. The position of a caller is its \<open>close_pc\<close>, and \<open>close_act\<close> its
  next operation.
\<close>

datatype close_pc =
    Close_start | Close_checked | Close_stored | Close_cancelled | Close_shut | Close_deleted | Close_counted
  | Close_done | Close_returned

fun close_act :: "nat \<Rightarrow> close_pc \<Rightarrow> 'a World \<Rightarrow> close_pc \<times> 'a World" where
  "close_act c Close_start w = (if State w c = ConnClosed then Close_returned else Close_checked, w)"
| "close_act c Close_checked w = (Close_stored, modc c (\<lambda>cn. cn\<lparr>conn_state := ConnClosed\<rparr>) w)"
| "close_act c Close_stored w = (Close_cancelled, modc c (\<lambda>cn. cn\<lparr>ctx_done := True\<rparr>) w)"
| "close_act c Close_cancelled w = (Close_shut, modc c (\<lambda>cn. cn\<lparr>sock_closed := True\<rparr>) w)"
| "close_act c Close_shut w = (Close_deleted, w\<lparr>connections := (connections w)(conn_id (conn w c) := None)\<rparr>)"
| "close_act c Close_deleted w = (Close_counted, w\<lparr>connCount := connCount w - 1\<rparr>)"
| "close_act c Close_counted w =
     (Close_done, if conn_vin (conn w c) \<noteq> [] then w\<lparr>vinReg := remove (vinReg w) (conn_vin (conn w c)) c\<rparr> else w)"
| "close_act c Close_done w = (Close_done, w)"
| "close_act c Close_returned w = (Close_returned, w)"

record 'a Closing =
  cworld :: "'a World"
  cpc :: "nat \<Rightarrow> close_pc"

inductive close_step :: "nat \<Rightarrow> 'a Closing \<Rightarrow> 'a Closing \<Rightarrow> bool" for c where
  act: "cpc y g \<noteq> Close_done \<Longrightarrow> cpc y g \<noteq> Close_returned \<Longrightarrow> close_act c (cpc y g) (cworld y) = (ph, w) \<Longrightarrow>
    close_step c y \<lparr>cworld = w, cpc = (cpc y)(g := ph)\<rparr>"

definition all_start :: "'a World \<Rightarrow> 'a Closing" where
  "all_start w = \<lparr>cworld = w, cpc = (\<lambda>_. Close_start)\<rparr>"

text \<open>The callers that have counted the connection down.\<close>

definition closers :: "'a Closing \<Rightarrow> nat set" where
  "closers y = {g. cpc y g \<in> {Close_counted, Close_done}}"

text \<open>Without interference the operations of one caller compose to \<open>Close\<close>.\<close>

lemma close_act_Close:
  assumes "c < length (heap w)"
  shows "\<exists>n. ((\<lambda>(pc, w). close_act c pc w) ^^ n) (Close_start, w) =
    (if State w c = ConnClosed then Close_returned else Close_done, Close c w)"
proof (cases "State w c = ConnClosed")
  case True
  then show ?thesis by (intro exI [of _ 1]) (simp add: Close_def)
next
  case False
  then show ?thesis
    using assms by (intro exI [of _ 7]) (simp add: eval_nat_numeral Close_def unregister_def modc_def Let_def)
qed

text \<open>What every interleaving keeps: each caller that runs to the end counts the connection down once.\<close>

definition past_store :: "close_pc \<Rightarrow> bool" where
  "past_store pc \<longleftrightarrow> pc \<notin> {Close_start, Close_checked}"

definition past_delete :: "close_pc \<Rightarrow> bool" where
  "past_delete pc \<longleftrightarrow> pc \<in> {Close_deleted, Close_counted, Close_done}"

definition close_inv :: "'a World \<Rightarrow> nat \<Rightarrow> 'a Closing \<Rightarrow> bool" where
  "close_inv w c y \<longleftrightarrow>
     finite {g. cpc y g \<noteq> Close_start} \<and> connCount (cworld y) = connCount w - int (card (closers y)) \<and>
     length (heap (cworld y)) = length (heap w) \<and> conn_id (conn (cworld y) c) = conn_id (conn w c) \<and>
     (\<forall>g. past_store (cpc y g) \<longrightarrow> State (cworld y) c = ConnClosed) \<and>
     (\<forall>g. past_delete (cpc y g) \<longrightarrow> connections (cworld y) (conn_id (conn w c)) = None)"

lemma close_act_keeps:
  assumes "close_act c pc w = (pc', w')" "c < length (heap w)"
  shows "length (heap w') = length (heap w)" "conn_id (conn w' c) = conn_id (conn w c)"
    "State w c = ConnClosed \<Longrightarrow> State w' c = ConnClosed" "connections w i = None \<Longrightarrow> connections w' i = None"
    "(past_store pc \<longrightarrow> State w c = ConnClosed) \<Longrightarrow> past_store pc' \<Longrightarrow> State w' c = ConnClosed"
    "(past_delete pc \<longrightarrow> connections w (conn_id (conn w c)) = None) \<Longrightarrow> past_delete pc' \<Longrightarrow>
      connections w' (conn_id (conn w c)) = None"
    "connCount w' = connCount w - (if pc = Close_deleted then 1 else 0)"
  using assms by (cases pc; auto simp: State_def past_store_def past_delete_def split: if_splits)+

lemma finite_pc_upd:
  "finite {g. f g \<noteq> Close_start} \<Longrightarrow> finite {g'. (f(g := ph)) g' \<noteq> Close_start}"
  by (rule finite_subset [of _ "insert g {g. f g \<noteq> Close_start}"]) auto

lemma close_step_inv:
  assumes "close_step c y z" "close_inv w c y" "c < length (heap w)"
  shows "close_inv w c z"
  using assms(1)
proof cases
  case (act g ph w1)
  have fin: "finite {g'. cpc z g' \<noteq> Close_start}"
    using finite_pc_upd [of "cpc y" g ph] assms(2) act(1) by (simp add: close_inv_def)
  have fc: "finite (closers y)"
    by (rule finite_subset [of _ "{g. cpc y g \<noteq> Close_start}"])
      (use assms(2) in \<open>auto simp: close_inv_def closers_def\<close>)
  have c: "c < length (heap (cworld y))" using assms(2,3) by (simp add: close_inv_def)
  note k = close_act_keeps [OF act(4) c]
  have "int (card (closers z)) = int (card (closers y)) + (if cpc y g = Close_deleted then 1 else 0)"
  proof (cases "cpc y g = Close_deleted")
    case True
    then have "closers z = insert g (closers y)" "g \<notin> closers y" using act by (auto simp: closers_def)
    then show ?thesis using fc True by simp
  next
    case False
    then have "closers z = closers y" using act by (cases "cpc y g") (auto simp: closers_def split: if_splits)
    then show ?thesis using False by simp
  qed
  moreover have "past_store (cpc z g') \<longrightarrow> State (cworld z) c = ConnClosed" for g'
    using k(3,5) assms(2) act(1) by (cases "g' = g") (auto simp: close_inv_def)
  moreover have "past_delete (cpc z g') \<longrightarrow> connections (cworld z) (conn_id (conn w c)) = None" for g'
    using k(4,6) assms(2) act(1) by (cases "g' = g") (auto simp: close_inv_def)
  ultimately show ?thesis using assms(2) act(1) fin k(1,2,7) by (simp add: close_inv_def)
qed

lemma close_steps_inv:
  assumes "(close_step c)\<^sup>*\<^sup>* (all_start w) z" "c < length (heap w)"
  shows "close_inv w c z"
  using assms(1)
proof (induction rule: rtranclp_induct)
  case base
  then show ?case by (simp add: close_inv_def all_start_def closers_def past_store_def past_delete_def)
qed (use close_step_inv assms(2) in blast)

text \<open>A caller that has checked the state runs to the end, whatever the others have done meanwhile.\<close>

primrec close_left :: "close_pc \<Rightarrow> nat" where
  "close_left Close_start = 8"
| "close_left Close_checked = 7"
| "close_left Close_stored = 6"
| "close_left Close_cancelled = 5"
| "close_left Close_shut = 4"
| "close_left Close_deleted = 3"
| "close_left Close_counted = 2"
| "close_left Close_done = 1"
| "close_left Close_returned = 0"

lemma close_act_left:
  "close_act c pc w = (pc', w') \<Longrightarrow> pc \<notin> {Close_start, Close_done, Close_returned} \<Longrightarrow>
   close_left pc' < close_left pc \<and> pc' \<notin> {Close_start, Close_returned}"
  by (cases pc) auto

lemma close_finishes:
  assumes "cpc y g \<notin> {Close_start, Close_returned}"
  shows "\<exists>z. (close_step c)\<^sup>*\<^sup>* y z \<and> cpc z = (cpc y)(g := Close_done)"
  using assms
proof (induction "close_left (cpc y g)" arbitrary: y rule: less_induct)
  case less
  show ?case
  proof (cases "cpc y g = Close_done")
    case True
    then show ?thesis by (intro exI [of _ y]) (simp add: fun_upd_idem)
  next
    case False
    obtain ph w where a: "close_act c (cpc y g) (cworld y) = (ph, w)" by fastforce
    let ?y = "\<lparr>cworld = w, cpc = (cpc y)(g := ph)\<rparr>"
    have "close_step c y ?y" using act [OF False _ a] less.prems by simp
    moreover have "close_left ph < close_left (cpc y g)" "ph \<notin> {Close_start, Close_returned}"
      using close_act_left [OF a] False less.prems by auto
    then obtain z where "(close_step c)\<^sup>*\<^sup>* ?y z" "cpc z = (cpc ?y)(g := Close_done)"
      using less.hyps [of ?y] by auto
    ultimately show ?thesis by (intro exI [of _ z]) (auto intro: converse_rtranclp_into_rtranclp)
  qed
qed

lemma close_twice:
  assumes "State w c \<noteq> ConnClosed"
  shows "\<exists>z. (close_step c)\<^sup>*\<^sup>* (all_start w) z \<and> closers z = {0, 1}"
proof -
  define y1 where "y1 = \<lparr>cworld = w, cpc = (\<lambda>_. Close_start)(0 := Close_checked)\<rparr>"
  define y2 where "y2 = \<lparr>cworld = w, cpc = (\<lambda>_. Close_start)(0 := Close_checked, 1 := Close_checked)\<rparr>"
  have "close_step c (all_start w) y1" "close_step c y1 y2"
    using act [of "all_start w" 0 c] act [of y1 1 c] assms by (simp_all add: y1_def y2_def all_start_def)
  then have s2: "(close_step c)\<^sup>*\<^sup>* (all_start w) y2" by auto
  obtain y3 where y3: "(close_step c)\<^sup>*\<^sup>* y2 y3" "cpc y3 = (cpc y2)(0 := Close_done)"
    using close_finishes [of y2 0 c] by (auto simp: y2_def)
  obtain y4 where y4: "(close_step c)\<^sup>*\<^sup>* y3 y4" "cpc y4 = (cpc y3)(1 := Close_done)"
    using close_finishes [of y3 1 c] by (auto simp: y2_def y3(2))
  have "closers y4 = {0, 1}" by (auto simp: closers_def y4(2) y3(2) y2_def split: if_splits)
  then show ?thesis using s2 y3(1) y4(1) by (meson rtranclp_trans)
qed

text \<open>
  C39: closing under concurrency. In every interleaving of the atomic operations of any number of
  callers of \<^verbatim>\<open>Close\<close> on one connection, whoever has returned finds it closed; once a caller has counted
  it down it is no longer in the table; and the counter has gone down by the number of callers that
  have counted. Two callers can both do so, because the check and the store are not one atomic
  operation: then one connection is counted down twice.
\<close>

theorem Close_interleaved:
  assumes "c < length (heap w)" and "State w c \<noteq> ConnClosed"
  shows "(\<forall>z. (close_step c)\<^sup>*\<^sup>* (all_start w) z \<longrightarrow>
      ConnCount (cworld z) = ConnCount w - int (card (closers z)) \<and>
      (\<forall>g. cpc z g \<in> {Close_done, Close_returned} \<longrightarrow> State (cworld z) c = ConnClosed) \<and>
      (closers z \<noteq> {} \<longrightarrow> GetConnection (cworld z) (ID w c) = None)) \<and>
    (\<exists>z. (close_step c)\<^sup>*\<^sup>* (all_start w) z \<and> ConnCount (cworld z) = ConnCount w - 2)"
proof (intro conjI allI impI)
  fix z
  assume "(close_step c)\<^sup>*\<^sup>* (all_start w) z"
  note i = close_steps_inv [OF this assms(1)]
  then show "ConnCount (cworld z) = ConnCount w - int (card (closers z))"
    by (simp add: close_inv_def ConnCount_def)
  show "State (cworld z) c = ConnClosed" if "cpc z g \<in> {Close_done, Close_returned}" for g
  proof -
    have "past_store (cpc z g)" using that by (auto simp: past_store_def)
    then show ?thesis using i unfolding close_inv_def by blast
  qed
  show "GetConnection (cworld z) (ID w c) = None" if ne: "closers z \<noteq> {}"
  proof -
    obtain g where "past_delete (cpc z g)" using ne by (auto simp: closers_def past_delete_def)
    moreover have "past_delete (cpc z g) \<Longrightarrow> connections (cworld z) (conn_id (conn w c)) = None"
      using i unfolding close_inv_def by blast
    ultimately show ?thesis by (simp add: GetConnection_def ID_def)
  qed
next
  obtain z where z: "(close_step c)\<^sup>*\<^sup>* (all_start w) z" "closers z = {0, 1}" using close_twice [OF assms(2)] by blast
  from close_steps_inv [OF z(1) assms(1)] z
  show "\<exists>z. (close_step c)\<^sup>*\<^sup>* (all_start w) z \<and> ConnCount (cworld z) = ConnCount w - 2"
    by (intro exI [of _ z]) (simp add: close_inv_def ConnCount_def)
qed

theorem Close_interleaved_witness:
  "\<exists>z. (close_step 0)\<^sup>*\<^sup>* (all_start (sample_world sample_conn)) z \<and> ConnCount (cworld z) = - 1"
  using Close_interleaved [of 0 "sample_world sample_conn"]
  by (simp add: State_def sample_conn_def ConnCount_def) (simp add: sample_world_def)

end
