(* ===== verification/Server_Atomic.thy ===== *)
theory Server_Atomic
  imports Server_Runs
begin

text \<open>
  The table of connections and its counter at the grain of single atomic operations
  (\<^verbatim>\<open>Start\<close>, \<^verbatim>\<open>unregister\<close> in \<^verbatim>\<open>server.go\<close>, \<^verbatim>\<open>Close\<close> in \<^verbatim>\<open>conn.go\<close>). The step relation of theory
  \<open>Server_Steps\<close> runs an accept and a close as one step each; here the accept loop stops between its
  check, \<^verbatim>\<open>Store\<close> and \<^verbatim>\<open>Add(1)\<close>, and any number of goroutines, on any connections, stop between the
  operations of \<^verbatim>\<open>Close\<close>, with \<^verbatim>\<open>Delete\<close> and \<^verbatim>\<open>Add(-1)\<close> apart. Every run of the coarse relation is a run of
  this one.
\<close>

section \<open>The accept loop\<close>

datatype accept_pc = Acc_wait | Acc_checked | Acc_stored

fun accept_act :: "'a Server \<Rightarrow> gostring \<Rightarrow> accept_pc \<Rightarrow> 'a World \<Rightarrow> accept_pc \<times> 'a World" where
  "accept_act s i Acc_wait w = (if connCount w \<ge> maxConns s then Acc_wait else Acc_checked, w)"
| "accept_act s i Acc_checked w =
     (let (c, d, w) = newConnection i s w in (Acc_stored, w\<lparr>connections := (connections w)(i \<mapsto> c)\<rparr>))"
| "accept_act s i Acc_stored w = (Acc_wait, w\<lparr>connCount := connCount w + 1\<rparr>)"

text \<open>Without interference its operations compose to a turn of the loop.\<close>

lemma accept_act_Start_turn:
  "Start_turn s (Inr i) w = (True, Some (c, d), w') \<Longrightarrow>
   ((\<lambda>(pc, w). accept_act s i pc w) ^^ 3) (Acc_wait, w) = (Acc_wait, w')"
  by (auto simp: Start_turn_def newConnection_def Let_def eval_nat_numeral split: if_splits)

section \<open>All goroutines\<close>

text \<open>
  \<open>closing g\<close> is the connection that goroutine \<open>g\<close> is closing and how far it is. \<open>reused\<close> counts the
  stores under an identifier that is in use: \<^verbatim>\<open>generateConnID\<close> draws it at random and nothing checks it. Everything else
  that the program does leaves the table, the counter and the identifiers alone (\<open>same_books\<close>).
\<close>

record 'a Fine =
  fworld :: "'a World"
  facc :: accept_pc
  closing :: "nat \<Rightarrow> (nat \<times> close_pc) option"
  reused :: nat

definition same_books :: "'a World \<Rightarrow> 'a World \<Rightarrow> bool" where
  "same_books w w' \<longleftrightarrow> connections w' = connections w \<and> connCount w' = connCount w \<and>
     map conn_id (heap w') = map conn_id (heap w)"

definition collides :: "gostring \<Rightarrow> 'a Fine \<Rightarrow> nat" where
  "collides i y = (if facc y = Acc_checked \<and> connections (fworld y) i \<noteq> None then 1 else 0)"

inductive fine_step :: "'a Server \<Rightarrow> 'a Fine \<Rightarrow> 'a Fine \<Rightarrow> bool" for s where
  fine_accept: "accept_act s i (facc y) (fworld y) = (pc, w) \<Longrightarrow>
    fine_step s y (y\<lparr>fworld := w, facc := pc, reused := reused y + collides i y\<rparr>)"
| fine_call: "closing y g = None \<Longrightarrow> c < length (heap (fworld y)) \<Longrightarrow>
    fine_step s y (y\<lparr>closing := (closing y)(g \<mapsto> (c, Close_start))\<rparr>)"
| fine_close: "closing y g = Some (c, pc) \<Longrightarrow> close_act c pc (fworld y) = (pc', w) \<Longrightarrow>
    fine_step s y (y\<lparr>fworld := w, closing := (closing y)(g \<mapsto> (c, pc'))\<rparr>)"
| fine_return: "closing y g = Some (c, pc) \<Longrightarrow> pc \<in> {Close_done, Close_returned} \<Longrightarrow>
    fine_step s y (y\<lparr>closing := (closing y)(g := None)\<rparr>)"
| fine_other: "same_books (fworld y) w \<Longrightarrow> fine_step s y (y\<lparr>fworld := w\<rparr>)"

definition at_rest :: "nat \<Rightarrow> 'a World \<Rightarrow> 'a Fine" where
  "at_rest n w = \<lparr>fworld = w, facc = Acc_wait, closing = (\<lambda>_. None), reused = n\<rparr>"

inductive fine_reachable :: "'a Server \<Rightarrow> 'a Fine \<Rightarrow> bool" for s where
  fine_init: "fine_reachable s (at_rest 0 (NewWorld t a))"
| fine_next: "fine_reachable s y \<Longrightarrow> fine_step s y z \<Longrightarrow> fine_reachable s z"

text \<open>The goroutines between \<^verbatim>\<open>connections.Delete\<close> and \<^verbatim>\<open>connCount.Add(-1)\<close>.\<close>

definition deleting :: "'a Fine \<Rightarrow> nat set" where
  "deleting y = {g. \<exists>c. closing y g = Some (c, Close_deleted)}"

section \<open>The coarse steps are runs of the fine ones\<close>

lemma fine_runs: "(fine_step s)\<^sup>*\<^sup>* y z \<Longrightarrow> fine_reachable s y \<Longrightarrow> fine_reachable s z"
  by (induction rule: rtranclp_induct) (auto intro: fine_next)

lemma close_acts_run:
  assumes "closing y g = Some (c, pc)" "((\<lambda>(pc, w). close_act c pc w) ^^ n) (pc, fworld y) = (pc', w')"
  shows "(fine_step s)\<^sup>*\<^sup>* y (y\<lparr>fworld := w', closing := (closing y)(g \<mapsto> (c, pc'))\<rparr>)"
  using assms(2)
proof (induction n arbitrary: pc' w')
  case 0
  then have "y\<lparr>fworld := w', closing := (closing y)(g \<mapsto> (c, pc'))\<rparr> = y"
    using assms(1) by (cases y) (auto simp: fun_upd_idem)
  then show ?case by (simp only: rtranclp.rtrancl_refl)
next
  case (Suc n)
  obtain p v where pv: "((\<lambda>(pc, w). close_act c pc w) ^^ n) (pc, fworld y) = (p, v)" by fastforce
  let ?y = "y\<lparr>fworld := v, closing := (closing y)(g \<mapsto> (c, p))\<rparr>"
  have "fine_step s ?y (y\<lparr>fworld := w', closing := (closing y)(g \<mapsto> (c, pc'))\<rparr>)"
    using fine_close [of ?y g c p pc' w'] Suc.prems pv by simp
  then show ?case using Suc.IH [OF pv] by (rule rtranclp.rtrancl_into_rtrancl [rotated])
qed

lemma fine_Close:
  assumes "fine_reachable s (at_rest n w)" "c < length (heap w)"
  shows "fine_reachable s (at_rest n (Close c w))"
proof -
  let ?pc = "if State w c = ConnClosed then Close_returned else Close_done"
  let ?y = "(at_rest n w)\<lparr>closing := (\<lambda>_. None)(0 \<mapsto> (c, Close_start))\<rparr>"
  let ?z = "(at_rest n (Close c w))\<lparr>closing := (\<lambda>_. None)(0 \<mapsto> (c, ?pc))\<rparr>"
  have "fine_step s (at_rest n w) ?y" using fine_call [of "at_rest n w" 0 c s] assms(2) by (simp add: at_rest_def)
  moreover obtain k where "((\<lambda>(pc, w). close_act c pc w) ^^ k) (Close_start, w) = (?pc, Close c w)"
    using close_act_Close [OF assms(2)] by blast
  then have "(fine_step s)\<^sup>*\<^sup>* ?y ?z" using close_acts_run [of ?y 0 c Close_start k ?pc "Close c w" s] by (simp add: at_rest_def)
  moreover have "fine_step s ?z (at_rest n (Close c w))"
    using fine_return [of ?z 0 c ?pc s] by (simp add: at_rest_def)
  ultimately show ?thesis using assms(1) fine_runs fine_next by meson
qed

lemma fine_accepts:
  assumes "fine_reachable s (at_rest n w)" "Start_turn s (Inr i) w = (True, Some (c, d), w')"
  shows "fine_reachable s (at_rest (n + (if connections w i = None then 0 else 1)) w')"
proof -
  have lt: "connCount w < maxConns s" using assms(2) by (simp add: Start_turn_def split: if_splits)
  define w1 where "w1 = snd (accept_act s i Acc_checked w)"
  have w': "w' = w1\<lparr>connCount := connCount w1 + 1\<rparr>"
    using assms(2) lt by (auto simp: w1_def Start_turn_def newConnection_def Let_def split: if_splits)
  let ?n = "n + (if connections w i = None then 0 else 1)"
  have "fine_step s (at_rest n w) ((at_rest n w)\<lparr>facc := Acc_checked\<rparr>)"
    using fine_accept [of s i "at_rest n w"] lt by (simp add: at_rest_def collides_def)
  moreover have "fine_step s ((at_rest n w)\<lparr>facc := Acc_checked\<rparr>) ((at_rest ?n w1)\<lparr>facc := Acc_stored\<rparr>)"
    using fine_accept [of s i "(at_rest n w)\<lparr>facc := Acc_checked\<rparr>" Acc_stored w1]
    by (cases "connections w i") (simp_all add: at_rest_def collides_def w1_def newConnection_def)
  moreover have "fine_step s ((at_rest ?n w1)\<lparr>facc := Acc_stored\<rparr>) (at_rest ?n w')"
    using fine_accept [of s i "(at_rest ?n w1)\<lparr>facc := Acc_stored\<rparr>" Acc_wait w']
    by (simp add: at_rest_def collides_def w')
  ultimately show ?thesis using assms(1) fine_next by meson
qed

lemma fine_same: "(\<exists>n. fine_reachable s (at_rest n w)) \<Longrightarrow> same_books w w' \<Longrightarrow> \<exists>n. fine_reachable s (at_rest n w')"
  using fine_next [OF _ fine_other, of s "at_rest _ w" w'] by (auto simp: at_rest_def)

lemma same_books_modc: "(\<And>cn. conn_id (f cn) = conn_id cn) \<Longrightarrow> same_books w (modc c f w)"
  by (cases "c < length (heap w)")
    (simp_all add: same_books_def modc_def map_update list_update_same_conv list_update_beyond)

sublocale limited \<subseteq> fine: step_invariant s "\<lambda>w. \<exists>n. fine_reachable s (at_rest n w)"
proof unfold_locales
  fix w :: "'a World"
  assume P: "\<exists>n. fine_reachable s (at_rest n w)"
  note same = fine_same [OF P] same_books_modc
  show "\<exists>n. fine_reachable s (at_rest n (w\<lparr>app := a\<rparr>))" "\<exists>n. fine_reachable s (at_rest n (w\<lparr>now := t\<rparr>))"
    "\<exists>n. fine_reachable s (at_rest n (forward s m w))" "\<exists>n. fine_reachable s (at_rest n (w\<lparr>server_done := b, listener := l\<rparr>))" for a t m b l
    by (rule same(1), simp add: same_books_def)+
  show "\<exists>n. fine_reachable s (at_rest n (Close c w))" if "c < length (heap w)" for c using P fine_Close that by blast
  show "\<exists>n. fine_reachable s (at_rest n (modc c (\<lambda>cn. cn\<lparr>written := written cn @ [pkt]\<rparr>) w))"
    "\<exists>n. fine_reachable s (at_rest n (modc c (\<lambda>cn. cn\<lparr>encryptKey := Some (DeriveAESKey token)\<rparr>) w))"
    "\<exists>n. fine_reachable s (at_rest n (modc c (\<lambda>cn. cn\<lparr>encryptKey := None\<rparr>) w))"
    "\<exists>n. fine_reachable s (at_rest n (modc c (\<lambda>cn. cn\<lparr>lastSeen := u\<rparr>) w))" for c pkt token u
    by (rule same(1), rule same(2), simp)+
  show "\<exists>n. fine_reachable s (at_rest n (logged_in c pkt ld w))" for c pkt ld
  proof (rule same(1))
    show "same_books w (logged_in c pkt ld w)"
      using same_books_modc [of "\<lambda>cn. cn\<lparr>conn_vin := VIN pkt, conn_iccid := ICCID ld, conn_state := ConnLoggedIn\<rparr>" w c]
      by (simp add: logged_in_def Let_def same_books_def)
  qed
  show "\<exists>n. fine_reachable s (at_rest n w')" if "Start_turn s (Inr i) w = (True, Some (c, d), w')" for i c d w'
    using P fine_accepts that by blast
qed (auto simp: lim_callbacks intro: fine_init)

context limited
begin

lemma reachable_quiet: "reachable s y \<Longrightarrow> \<exists>n. fine_reachable s (at_rest n (world y))"
  using fine.reachable_keeps by blast

end

lemma reachable_fine:
  assumes "callbacks_ok s" "reachable s y"
  shows "\<exists>n. fine_reachable s (at_rest n (world y))"
proof -
  have "limited s" by unfold_locales (rule assms(1))
  then show ?thesis using limited.reachable_quiet assms(2) by blast
qed

section \<open>The invariant\<close>

text \<open>
  A stored connection is in the table before it is counted, and one that is closed leaves the table
  before it is counted down; the accept loop stays below the limit from its check to its count.
\<close>

definition table_ok :: "'a Fine \<Rightarrow> bool" where
  "table_ok y \<longleftrightarrow> finite (dom (connections (fworld y))) \<and> finite {g. closing y g \<noteq> None} \<and>
     (\<forall>i c. connections (fworld y) i = Some c \<longrightarrow> c < length (heap (fworld y)) \<and> conn_id (conn (fworld y) c) = i) \<and>
     (\<forall>g c pc. closing y g = Some (c, pc) \<longrightarrow> c < length (heap (fworld y)))"

lemma finite_closing: "finite {g. f g \<noteq> None} \<Longrightarrow> finite {g'. (f(g := x)) g' \<noteq> None}"
  by (rule finite_subset [of _ "insert g {g. f g \<noteq> None}"]) auto

definition limit_ok :: "'a Server \<Rightarrow> 'a Fine \<Rightarrow> bool" where
  "limit_ok s y \<longleftrightarrow> connCount (fworld y) \<le> max 0 (maxConns s) \<and>
     (facc y \<noteq> Acc_wait \<longrightarrow> connCount (fworld y) < maxConns s)"

definition count_ok :: "'a Fine \<Rightarrow> bool" where
  "count_ok y \<longleftrightarrow> connCount (fworld y) + (if facc y = Acc_stored then 1 else 0) \<le>
     int (card (dom (connections (fworld y))) + card (deleting y) + reused y)"

lemma same_ids:
  assumes "map conn_id h = map conn_id h'"
  shows "length h = length h'" "c < length h' \<Longrightarrow> conn_id (h ! c) = conn_id (h' ! c)"
proof -
  show l: "length h = length h'" using assms by (rule map_eq_imp_length_eq)
  show "conn_id (h ! c) = conn_id (h' ! c)" if "c < length h'"
    using arg_cong [OF assms, of "\<lambda>xs. xs ! c"] that l by simp
qed

lemma close_act_table:
  assumes "close_act c pc w = (pc', w')"
  shows "map conn_id (heap w') = map conn_id (heap w)"
    "connections w' = (if pc = Close_shut then (connections w)(conn_id (conn w c) := None) else connections w)"
    "connCount w' = (if pc = Close_deleted then connCount w - 1 else connCount w)"
    "pc' = Close_deleted \<longleftrightarrow> pc = Close_shut"
proof -
  have m: "map conn_id (heap (modc c f w)) = map conn_id (heap w)" if "\<And>cn. conn_id (f cn) = conn_id cn" for f
    using same_books_modc [of f w c] that by (simp add: same_books_def)
  show "map conn_id (heap w') = map conn_id (heap w)" using assms m by (cases pc) (auto split: if_splits)
  show "connections w' = (if pc = Close_shut then (connections w)(conn_id (conn w c) := None) else connections w)"
    "connCount w' = (if pc = Close_deleted then connCount w - 1 else connCount w)"
    "pc' = Close_deleted \<longleftrightarrow> pc = Close_shut"
    using assms by (cases pc; auto split: if_splits)+
qed

lemma accept_act_table:
  assumes "accept_act s i pc w = (pc', w')"
  obtains "pc = Acc_wait" "w' = w" "pc' = (if connCount w \<ge> maxConns s then Acc_wait else Acc_checked)"
  | cn where "pc = Acc_checked" "pc' = Acc_stored" "heap w' = heap w @ [cn]" "conn_id cn = i"
    "connections w' = (connections w)(i \<mapsto> length (heap w))" "connCount w' = connCount w"
  | "pc = Acc_stored" "pc' = Acc_wait" "w' = w\<lparr>connCount := connCount w + 1\<rparr>"
  using assms by (cases pc) (auto simp: newConnection_def Let_def)

lemma fine_step_table:
  assumes "fine_step s y z" "table_ok y"
  shows "table_ok z"
  using assms(1)
proof cases
  case (fine_accept i pc w)
  then show ?thesis
    using assms(2) by (cases rule: accept_act_table [OF fine_accept(2)])
      (auto simp: table_ok_def nth_append less_Suc_eq split: if_splits)
next
  case (fine_call g c)
  then show ?thesis
    using assms(2) finite_closing [of "closing y" g] by (simp add: table_ok_def del: fun_upd_apply) (simp split: if_splits)
next
  case (fine_close g c pc pc' w)
  note t = close_act_table [OF fine_close(3)]
  have "finite {g. closing z g \<noteq> None}"
    using fine_close(1) assms(2) finite_closing [of "closing y" g] by (simp add: table_ok_def del: fun_upd_apply)
  moreover have "c < length (heap w) \<and> conn_id (conn w c) = i" if "connections w i = Some c" for i c
  proof -
    have "connections (fworld y) i = Some c" using that t(2) by (auto split: if_splits)
    then show ?thesis using same_ids [OF t(1)] assms(2) by (simp add: table_ok_def)
  qed
  moreover have "finite (dom (connections w))" using t(2) assms(2) by (simp add: table_ok_def)
  moreover have "c' < length (heap w)" if cl: "closing z g' = Some (c', p)" for g' c' p
  proof -
    obtain p' where "closing y g' = Some (c', p')" using cl fine_close(1,2) by (auto split: if_splits)
    then show ?thesis using same_ids(1) [OF t(1)] assms(2) unfolding table_ok_def by metis
  qed
  ultimately show ?thesis using fine_close(1) by (simp add: table_ok_def del: fun_upd_apply)
next
  case (fine_return g c pc)
  then show ?thesis
    using assms(2) finite_closing [of "closing y" g] by (simp add: table_ok_def del: fun_upd_apply) simp
next
  case (fine_other w)
  then show ?thesis
    using assms(2) same_ids [of "heap w" "heap (fworld y)"] by (auto simp: table_ok_def same_books_def)
qed

lemma fine_step_limit:
  assumes "fine_step s y z" "limit_ok s y"
  shows "limit_ok s z"
  using assms(1)
proof cases
  case (fine_accept i pc w)
  then show ?thesis
    using assms(2) by (cases rule: accept_act_table [OF fine_accept(2)]) (auto simp: limit_ok_def)
next
  case (fine_close g c pc pc' w)
  then show ?thesis using assms(2) close_act_table(3) [OF fine_close(3)] by (auto simp: limit_ok_def)
qed (use assms(2) in \<open>auto simp: limit_ok_def same_books_def\<close>)

lemma card_dom_delete: "int (card (dom (m(k := None)))) + 1 \<ge> int (card (dom m))"
  using card_Diff1_le [of "dom m" k] by (cases "finite (dom m)"; cases "k \<in> dom m") (auto simp: card_Suc_Diff1)

lemma fine_step_count:
  assumes "fine_step s y z" "table_ok y" "count_ok y"
  shows "count_ok z"
  using assms(1)
proof cases
  case (fine_accept i pc w)
  then have "deleting z = deleting y" by (simp add: deleting_def)
  with fine_accept assms(2,3) show ?thesis
    by (cases rule: accept_act_table [OF fine_accept(2)])
      (auto simp: count_ok_def table_ok_def collides_def insert_absorb domI card_insert_if split: if_splits)
next
  case (fine_call g c)
  then have "deleting z = deleting y" by (auto simp: deleting_def)
  with fine_call assms(3) show ?thesis by (simp add: count_ok_def)
next
  case (fine_close g c pc pc' w)
  note t = close_act_table [OF fine_close(3)]
  have fin: "finite (deleting y)"
    by (rule finite_subset [of _ "{g. closing y g \<noteq> None}"]) (use assms(2) in \<open>auto simp: deleting_def table_ok_def\<close>)
  have del: "deleting z = (if pc = Close_shut then insert g (deleting y) else deleting y - {g})"
    "g \<in> deleting y \<longleftrightarrow> pc = Close_deleted"
    using fine_close(1,2) t(4) by (auto simp: deleting_def)
  have "int (card (deleting z)) = int (card (deleting y)) + (if pc = Close_shut then 1 else if pc = Close_deleted then - 1 else 0)"
    using del fin card_Suc_Diff1 [of "deleting y" g] by auto
  then show ?thesis
    using fine_close(1) t(2,3) assms(3) card_dom_delete [of "connections (fworld y)" "conn_id (conn (fworld y) c)"]
    by (simp add: count_ok_def split: if_splits)
next
  case (fine_return g c pc)
  then have "deleting z = deleting y" by (auto simp: deleting_def)
  with fine_return assms(3) show ?thesis by (simp add: count_ok_def)
next
  case (fine_other w)
  then have "deleting z = deleting y" by (simp add: deleting_def)
  with fine_other assms(3) show ?thesis by (simp add: count_ok_def same_books_def)
qed

lemma fine_reachable_ok: "fine_reachable s y \<Longrightarrow> table_ok y \<and> limit_ok s y \<and> count_ok y"
proof (induction rule: fine_reachable.induct)
  case (fine_init t a)
  then show ?case by (simp add: at_rest_def NewWorld_def table_ok_def limit_ok_def count_ok_def)
qed (use fine_step_table fine_step_limit fine_step_count in blast)

section \<open>Property\<close>

text \<open>
  C22: the table and the counter, between any two atomic operations of any goroutines. A connection
  found under an identifier exists and has that identifier; the counter is at most the maximum
  number of connections; and it is at most the number of connections in the table, plus the number of goroutines
  that have deleted their connection from the table and not yet counted it down, plus the number of
  identifiers that were drawn while in use. In particular it never exceeds the number registered
  while no goroutine is between these two operations and no identifier was drawn twice.
\<close>

theorem table_and_counter:
  assumes "fine_reachable s y" and "0 \<le> maxConns s"
  shows "(\<forall>i c. GetConnection (fworld y) i = Some c \<longrightarrow> c < length (heap (fworld y)) \<and> ID (fworld y) c = i) \<and>
    ConnCount (fworld y) \<le> maxConns s \<and>
    ConnCount (fworld y) \<le> int (card (dom (connections (fworld y))) + card (deleting y) + reused y)"
proof -
  have "connCount (fworld y) \<le> int (card (dom (connections (fworld y))) + card (deleting y) + reused y)"
    using fine_reachable_ok [OF assms(1)] by (auto simp: count_ok_def split: if_splits)
  then show ?thesis
    using fine_reachable_ok [OF assms(1)] assms(2)
    by (auto simp: table_ok_def limit_ok_def GetConnection_def ID_def ConnCount_def split: option.splits)
qed

theorem table_and_counter_witness:
  "\<exists>y :: nat Fine. fine_reachable (example_server open_sockets) y \<and> ConnCount (fworld y) = 1 \<and>
    connections (fworld y) = Map.empty \<and> reused y = 0 \<and> 1 \<le> card (deleting y)"
proof -
  let ?s = "example_server open_sockets :: nat Server" and ?w = "NewWorld (Date 2026 6 15 18 48 30) 0 :: nat World"
  have m: "maxConns ?s = 50000" by (simp add: example_defs)
  obtain d w1 where w1: "Start_turn ?s (Inr (str ''id'')) ?w = (True, Some (0, d), w1)" "length (heap w1) = 1"
    "conn_state (conn w1 0) = ConnNew" "conn_id (conn w1 0) = str ''id''" "connections w1 = [str ''id'' \<mapsto> 0]" "connCount w1 = 1"
    by (simp add: Start_turn_def newConnection_def NewWorld_def m Let_def)
  have r: "fine_reachable ?s (at_rest 0 w1)"
    using fine_accepts [OF fine_init [where s = ?s] w1(1)] by (simp add: NewWorld_def)
  let ?y = "(at_rest 0 w1)\<lparr>closing := (\<lambda>_. None)(0 \<mapsto> (0, Close_start))\<rparr>"
  have "fine_step ?s (at_rest 0 w1) ?y" using fine_call [of "at_rest 0 w1" 0 0 ?s] w1(2) by (simp add: at_rest_def)
  moreover obtain w2 where w2: "((\<lambda>(pc, w). close_act 0 pc w) ^^ 5) (Close_start, w1) = (Close_deleted, w2)"
    "connections w2 = Map.empty" "connCount w2 = 1"
    using w1(2-6) by (simp add: eval_nat_numeral State_def)
  let ?z = "?y\<lparr>fworld := w2, closing := (closing ?y)(0 \<mapsto> (0, Close_deleted))\<rparr>"
  have "(fine_step ?s)\<^sup>*\<^sup>* ?y ?z" using close_acts_run [of ?y 0 0 Close_start 5 Close_deleted w2 ?s] w2(1) by (simp add: at_rest_def)
  ultimately have "fine_reachable ?s ?z" using r fine_next fine_runs by meson
  with table_and_counter [OF this] w2 m show ?thesis
    by (intro exI [of _ ?z]) (simp add: at_rest_def ConnCount_def)
qed

end
