(* ===== verification/Idle_Props.thy ===== *)
theory Idle_Props
  imports Server_Props
begin

text \<open>
  The idle check as a loop (\<^verbatim>\<open>idleCheckLoop\<close> of \<^verbatim>\<open>server.go\<close>): it never panics, and a connection that stays
  silent is closed by the next tick, whatever the other connections do and in whatever order they
  are visited.
\<close>

section \<open>Silence\<close>

text \<open>Registered connections are found under their own identifier, and \<open>k\<close> is the identifier of \<open>c\<close> only.\<close>

definition reg_ok :: "nat \<Rightarrow> gostring \<Rightarrow> 'a World \<Rightarrow> bool" where
  "reg_ok c k w \<longleftrightarrow>
     (\<forall>i c'. connections w i = Some c' \<longrightarrow> c' < length (heap w) \<and> conn_id (conn w c') = i) \<and>
     (\<forall>c' < length (heap w). conn_id (conn w c') = k \<longrightarrow> c' = c)"

text \<open>
  Connection \<open>c\<close>, registered under \<open>k\<close>, is closed or has been silent for longer than the timeout.
\<close>

definition silent :: "'a Server \<Rightarrow> nat \<Rightarrow> gostring \<Rightarrow> 'a World \<Rightarrow> bool" where
  "silent s c k w \<longleftrightarrow> reg_ok c k w \<and> c < length (heap w) \<and>
     (State w c = ConnClosed \<or> connections w k = Some c \<and> since_seen c w > idleTimeout s)"

text \<open>
  During a sleep of three seconds the rest of the program may do what it likes, but nothing is
  received on \<open>c\<close>; a connection that is closed stays closed, and \<open>c\<close> stays registered unless it
  is closed.
\<close>

definition stays_silent :: "nat \<Rightarrow> gostring \<Rightarrow> ('a World \<Rightarrow> 'a World) \<Rightarrow> bool" where
  "stays_silent c k sleep \<longleftrightarrow>
     (\<forall>w. reg_ok c k w \<longrightarrow> reg_ok c k (sleep w) \<and> length (heap w) \<le> length (heap (sleep w)) \<and>
        since_seen c (sleep w) \<ge> since_seen c w + 3 * second_ns \<and>
        (State (sleep w) c = ConnClosed \<or> State w c \<noteq> ConnClosed \<and> connections (sleep w) k = connections w k))"

section \<open>One connection\<close>

lemma reg_ok_modc: "reg_ok c k w \<Longrightarrow> (\<And>cn. conn_id (f cn) = conn_id cn) \<Longrightarrow> reg_ok c k (modc c' f w)"
  by (auto simp: reg_ok_def conn_modc split: if_splits)

lemma reg_ok_Close: "reg_ok c k w \<Longrightarrow> reg_ok c k (Close c' w)"
  by (auto simp: reg_ok_def conn_id_Close) (auto simp: Close_def split: if_splits)

lemma silent_write:
  assumes "silent s c k w"
  shows "silent s c k (modc c' (\<lambda>cn. cn\<lparr>written := written cn @ [pkt]\<rparr>) w)"
  using assms by (auto simp: silent_def since_seen_def LastSeen_def State_def conn_modc intro: reg_ok_modc)

lemma silent_Close:
  assumes "silent s c k w" "c' < length (heap w)"
  shows "silent s c k (Close c' w)" "c' = c \<Longrightarrow> State (Close c' w) c = ConnClosed"
proof -
  show "c' = c \<Longrightarrow> State (Close c' w) c = ConnClosed" using assms(2) by (simp add: State_Close)
  show "silent s c k (Close c' w)"
  proof (cases "State w c' = ConnClosed \<or> c' = c")
    case True
    then show ?thesis
      using assms by (auto simp: silent_def reg_ok_Close State_Close) (auto simp: Close_def)
  next
    case False
    then have c': "conn_id (conn w c') \<noteq> k" "State w c' \<noteq> ConnClosed" "c' \<noteq> c"
      using assms by (auto simp: silent_def reg_ok_def)
    note C = Close_simps [OF assms(2) c'(2)]
    show ?thesis
      using assms(1) c' C(3) [of c] by (auto simp: silent_def reg_ok_Close C(5) State_def since_seen_def LastSeen_def)
  qed
qed

lemma silent_sleep:
  assumes "silent s c k w" "stays_silent c k sleep"
  shows "silent s c k (sleep w)" "length (heap w) \<le> length (heap (sleep w))"
    "since_seen c (sleep w) \<ge> since_seen c w + 3 * second_ns"
proof -
  have sl: "reg_ok c k (sleep w)" "length (heap w) \<le> length (heap (sleep w))" "since_seen c (sleep w) \<ge> since_seen c w + 3 * second_ns"
    "State (sleep w) c = ConnClosed \<or> State w c \<noteq> ConnClosed \<and> connections (sleep w) k = connections w k"
    using assms by (auto simp: silent_def stays_silent_def)
  moreover have "0 \<le> second_ns" by (simp add: second_ns_def)
  ultimately show "silent s c k (sleep w)" "length (heap w) \<le> length (heap (sleep w))"
    "since_seen c (sleep w) \<ge> since_seen c w + 3 * second_ns" using assms(1) by (auto simp: silent_def)
qed

text \<open>A closed connection stays closed.\<close>

lemma closed_stays:
  assumes "State w c = ConnClosed" "c < length (heap w)"
  shows "State (modc c' (\<lambda>cn. cn\<lparr>written := written cn @ [pkt]\<rparr>) w) c = ConnClosed"
    "c' < length (heap w) \<Longrightarrow> State (Close c' w) c = ConnClosed"
    "c' < length (heap w) \<Longrightarrow> State (idle_recheck s c' w) c = ConnClosed"
proof -
  show "State (modc c' (\<lambda>cn. cn\<lparr>written := written cn @ [pkt]\<rparr>) w) c = ConnClosed"
    using assms by (auto simp: State_def conn_modc)
  show cl: "State (Close c' w) c = ConnClosed" if "c' < length (heap w)"
  proof (cases "State w c' = ConnClosed")
    case False
    then have "c \<noteq> c'" using assms(1) by auto
    then show ?thesis using assms Close_simps(3) [OF that False, of c] by (simp add: State_def)
  qed (use assms in \<open>simp add: Close_def\<close>)
  show "State (idle_recheck s c' w) c = ConnClosed" if "c' < length (heap w)"
    using assms(1) cl [OF that] by (simp add: idle_recheck_def)
qed

text \<open>The check of any connection keeps \<open>c\<close> silent or closes it, and the check of \<open>c\<close> closes it.\<close>

lemma idle_recheck_silent:
  assumes "silent s c k w" "c' < length (heap w)"
  shows "silent s c k (idle_recheck s c' w)"
  using assms(1) silent_Close(1) [OF assms] by (simp add: idle_recheck_def)

lemma idle_recheck_closes:
  assumes "silent s c k w" "State w c \<noteq> ConnClosed \<Longrightarrow> since_seen c w > idleTimeout s + 3 * second_ns"
  shows "State (idle_recheck s c w) c = ConnClosed"
  using assms by (auto simp: idle_recheck_def silent_def State_Close)

lemma idle_check_silent:
  assumes "silent s c k w" "stays_silent c k sleep" "connections w k' = Some c'"
  shows "\<exists>w'. idle_check s sleep c' w = Some w' \<and> silent s c k w' \<and>
    (c' = c \<or> State w c = ConnClosed \<longrightarrow> State w' c = ConnClosed)"
proof (cases "State w c' = ConnClosed \<or> since_seen c' w \<le> idleTimeout s")
  case True
  then show ?thesis using assms(1) by (auto simp: idle_check_def idle_probe_def silent_def)
next
  case False
  have c: "c < length (heap w)" using assms(1) by (simp add: silent_def)
  have c': "c' < length (heap w)" using assms(1,3) by (simp add: silent_def reg_ok_def)
  let ?hb = "encodeBCDTime (in_UTC (now w))"
  consider w1 err where "Send s c' CmdHeartbeat ?hb w = Some (w1, Some err)"
      "w1 = w \<or> (\<exists>part. w1 = modc c' (\<lambda>cn. cn\<lparr>written := written cn @ [part]\<rparr>) w)"
    | pkt where "Send s c' CmdHeartbeat ?hb w = Some (modc c' (\<lambda>cn. cn\<lparr>written := written cn @ [pkt]\<rparr>) w, None)"
    using Send_outcomes [of s c' CmdHeartbeat ?hb w] by blast
  then show ?thesis
  proof cases
    case (1 w1 err)
    then have "silent s c k w1" "length (heap w1) = length (heap w)" "State w c = ConnClosed \<Longrightarrow> State w1 c = ConnClosed"
      using assms(1) silent_write [OF assms(1)] closed_stays(1) c by auto
    then show ?thesis
      using 1(1) False silent_Close [of s c k w1 c'] closed_stays(2) [of w1 c c'] c c' by (auto simp: idle_check_def idle_probe_def State_Close)
  next
    case (2 pkt)
    let ?w1 = "modc c' (\<lambda>cn. cn\<lparr>written := written cn @ [pkt]\<rparr>) w"
    note w1 = silent_write [OF assms(1), of c' pkt]
    note w2 = silent_sleep [OF w1 assms(2)]
    have "idle_check s sleep c' w = Some (idle_recheck s c' (sleep ?w1))"
      using False 2 by (simp add: idle_check_def idle_probe_def)
    moreover have "silent s c k (idle_recheck s c' (sleep ?w1))"
      using w2(2) c' by (intro idle_recheck_silent [OF w2(1)]) simp
    moreover have "State (idle_recheck s c (sleep ?w1)) c = ConnClosed" if "c' = c"
    proof (rule idle_recheck_closes [OF w2(1)])
      have "since_seen c ?w1 = since_seen c w" using that c' by (simp add: since_seen_def LastSeen_def)
      then show "since_seen c (sleep ?w1) > idleTimeout s + 3 * second_ns" using False that w2(3) by simp
    qed
    moreover have "State (idle_recheck s c' (sleep ?w1)) c = ConnClosed" if "State w c = ConnClosed"
    proof (rule closed_stays(3))
      have "State ?w1 c = ConnClosed" using closed_stays(1) [OF that c] .
      then show "State (sleep ?w1) c = ConnClosed"
        using w1 assms(2) by (auto simp: silent_def stays_silent_def)
    qed (use c c' w2(2) in simp_all)
    ultimately show ?thesis by auto
  qed
qed

section \<open>One tick\<close>

lemma tick_silent:
  assumes "silent s c k w" "stays_silent c k sleep"
  shows "\<exists>w'. idleCheck_tick s sleep ks w = Some w' \<and> silent s c k w' \<and>
    (k \<in> set ks \<or> State w c = ConnClosed \<longrightarrow> State w' c = ConnClosed)"
  using assms(1)
proof (induction ks arbitrary: w)
  case (Cons k' ks)
  show ?case
  proof (cases "connections w k'")
    case None
    then have "k' = k \<Longrightarrow> State w c = ConnClosed" using Cons.prems by (auto simp: silent_def)
    then show ?thesis using Cons.IH [OF Cons.prems] None by auto
  next
    case (Some c')
    have "c' = c" if "k' = k" using Cons.prems Some that by (auto simp: silent_def reg_ok_def)
    moreover obtain w1 where "idle_check s sleep c' w = Some w1" "silent s c k w1"
      "c' = c \<or> State w c = ConnClosed \<longrightarrow> State w1 c = ConnClosed"
      using idle_check_silent [OF Cons.prems assms(2) Some] by blast
    ultimately show ?thesis using Some Cons.IH [of w1] by auto
  qed
qed simp

text \<open>
  C25: a connection that stays silent is closed by the next tick of the idle check. Whatever order
  the connections are visited in, whatever the others do meanwhile and whatever becomes of the
  probes, the tick ends without a panic, the loop goes on, and a connection that has been silent
  for longer than the timeout and receives nothing during the tick's sleeps is closed.
\<close>

theorem silent_closed_by_tick:
  assumes "silent s c k w" "stays_silent c k sleep" "k \<in> set ks"
  shows "\<exists>w'. idleCheckLoop s (Tick ks sleep # evs) w = idleCheckLoop s evs w' \<and> State w' c = ConnClosed"
  using tick_silent [OF assms(1,2), of ks] assms(3) by auto

text \<open>The sample connection, last heard from in 1970, while only the clock moves.\<close>

theorem silent_closed_by_tick_witness:
  "\<exists>w'. idleCheckLoop (example_server open_sockets)
      [Tick [str ''nobody'', conn_id sample_conn] (\<lambda>w. w\<lparr>now := (now w)\<lparr>tsec := tsec (now w) + 3\<rparr>\<rparr>), CtxDone]
      (sample_world sample_conn) = Some (False, w') \<and> State w' 0 = ConnClosed"
proof -
  let ?sleep = "\<lambda>w :: nat World. w\<lparr>now := (now w)\<lparr>tsec := tsec (now w) + 3\<rparr>\<rparr>" and ?w = "sample_world sample_conn"
  have "since_seen 0 ?w > idleTimeout (example_server open_sockets :: nat Server)"
    by (simp add: since_seen_def LastSeen_def sample_world_def sample_conn_def NewWorld_def time_Unix_def
        second_ns_def unix_epoch_def example_defs) code_simp
  then have "silent (example_server open_sockets) 0 (conn_id sample_conn) ?w"
    by (auto simp: silent_def reg_ok_def sample_world_def split: if_splits)
  moreover have "stays_silent 0 (conn_id sample_conn) ?sleep"
    by (auto simp: stays_silent_def reg_ok_def since_seen_def LastSeen_def State_def algebra_simps)
  ultimately show ?thesis
    using silent_closed_by_tick [of "example_server open_sockets" 0 "conn_id sample_conn" ?w ?sleep
        "[str ''nobody'', conn_id sample_conn]" "[CtxDone]"] by simp
qed

end
