(* ===== verification/Clients.thy ===== *)
theory Clients
  imports Messages
begin

text \<open>
  The two client programs, \<^verbatim>\<open>cmd/simclient\<close> (a simulated vehicle) and \<^verbatim>\<open>cmd/stresstest\<close> (a load
  generator): the packets they build, and what they do for every outcome of their reads and writes.
  A Go \<^verbatim>\<open>int\<close> is an \<open>int\<close>; the conversions to \<^verbatim>\<open>byte\<close>, \<^verbatim>\<open>uint16\<close> and \<^verbatim>\<open>uint32\<close> wrap. Sleeps and
  deadlines are left out.
\<close>

section \<open>The simulated vehicle (cmd/simclient)\<close>

definition sim_vin :: gostring where
  "sim_vin = str ''SIMUVIN1234567890''"

definition sim_loginData :: bytes where
  "sim_loginData =
     [0x26, 0x05, 0x0E, 0x0E, 0x30, 0x00, 0x00, 0x01, 0x10] @ str ''SIMCARD000000001'' @ [0x00]"

definition sim_logoutData :: bytes where
  "sim_logoutData = [0x26, 0x05, 0x0E, 0x0E, 0x35, 0x00, 0x00, 0x03]"

text \<open>
  The arrays \<^verbatim>\<open>v\<close>, \<^verbatim>\<open>p\<close> and \<^verbatim>\<open>e\<close> are filled from front to back; bytes that are not written stay zero.
\<close>

definition buildRealtimeData :: "int \<Rightarrow> bytes" where
  "buildRealtimeData sq =
     (let data = [0x26, 0x05, 0x0E, 0x0E, 0x30, word_of_int (sq * 10)];
          data = data @ [FieldVehicle];
          v = [0x01, 0x01, 0x01] @ PutUint16 (word_of_int (400 + sq * 50))
                @ PutUint32 (word_of_int (123450 + sq * 100)) @ PutUint16 (word_of_int (380 + sq))
                @ PutUint16 (word_of_int (200 + sq * 10)) @ [word_of_int (80 + sq), 0x01, 0x03]
                @ PutUint16 9999 @ [0, 0];
          data = data @ v;
          data = data @ [FieldPosition];
          p = PutUint32 (121473708 + word_of_int (sq * 1000)) @ PutUint32 (31235538 + word_of_int (sq * 500));
          data = data @ p;
          data = data @ [FieldExtreme];
          e = PutUint16 (4100 + word_of_int (sq * 10)) @ [0x05] @ PutUint16 3700
                @ [0x10, word_of_int (40 + sq), 0x03, 15, 0x1F];
          data = data @ e
      in data)"

definition sim_buildPacket :: "byte \<Rightarrow> gostring \<Rightarrow> bytes \<Rightarrow> bytes" where
  "sim_buildPacket command vin data =
     (let vinPadded = copy (replicate VINLength 0x20) vin;
          pkt = [StartMarker1, StartMarker2, command, 0x01] @ vinPadded @ [EncNone]
                  @ PutUint16 (word_of_nat (length data)) @ data;
          bcc = xor_loop 0 (drop 2 pkt)
      in pkt @ [bcc])"

text \<open>
  The program. Its outside: whether dialling failed, for every write whether it failed, and for every
  read the bytes it delivered (none after an error). A line of its log is a value of \<open>sim_log\<close>.
\<close>

record sim_net =
  sim_dial_err :: bool
  sim_write_err :: "nat \<Rightarrow> bool"
  sim_reads :: "nat \<Rightarrow> bytes"

datatype sim_log =
    ConnectFailed
  | Sent gostring nat
  | SendFailed gostring
  | LoginResp nat byte byte
  | HeartbeatResp nat
  | SimDone

definition sendPacket ::
    "byte \<Rightarrow> gostring \<Rightarrow> bytes \<Rightarrow> gostring \<Rightarrow> bool \<Rightarrow> bytes list \<times> sim_log list \<Rightarrow> bytes list \<times> sim_log list" where
  "sendPacket command vin data label err st =
     (case st of (out, lg) \<Rightarrow>
        let pkt = sim_buildPacket command vin data
        in if err then (out, lg @ [SendFailed label])
           else (out @ [pkt], lg @ [Sent label (length pkt)]))"

definition sim_main :: "sim_net \<Rightarrow> bytes list \<times> sim_log list" where
  "sim_main net =
     (if sim_dial_err net then ([], [ConnectFailed])
      else
        let st = sendPacket CmdLogin sim_vin sim_loginData (str ''LOGIN'') (sim_write_err net 0) ([], []);
            buf = copy (replicate 1024 0) (sim_reads net 0);
            n = min 1024 (length (sim_reads net 0));
            st = (if n > 0 then (fst st, snd st @ [LoginResp n (buf ! 2) (buf ! 3)]) else st);
            st = fold (\<lambda>i st.
                let realtimeData = buildRealtimeData (int i)
                in sendPacket CmdRealtime sim_vin realtimeData (str ''REALTIME #'' @ decimal i) (sim_write_err net i) st) [1..<4] st;
            st = fold (\<lambda>i st.
                let st = sendPacket CmdHeartbeat sim_vin [] (str ''HEARTBEAT #'' @ decimal i) (sim_write_err net (3 + i)) st;
                    n = min 1024 (length (sim_reads net i))
                in if n > 0 then (fst st, snd st @ [HeartbeatResp n]) else st) [1..<3] st;
            st = sendPacket CmdLogout sim_vin sim_logoutData (str ''LOGOUT'') (sim_write_err net 6) st
        in (fst st, snd st @ [SimDone]))"

text \<open>What \<^verbatim>\<open>main\<close> sends, in order.\<close>

definition sim_script :: "(byte \<times> bytes) list" where
  "sim_script =
     [(CmdLogin, sim_loginData)] @ map (\<lambda>i. (CmdRealtime, buildRealtimeData i)) [1, 2, 3]
     @ [(CmdHeartbeat, []), (CmdHeartbeat, [])] @ [(CmdLogout, sim_logoutData)]"

text \<open>The bytes that this script puts on the wire, which \<open>sim_main\<close> is compared with.\<close>

definition sim_stream :: bytes where
  "sim_stream = concat (map (\<lambda>(cmd, data). sim_buildPacket cmd sim_vin data) sim_script)"

section \<open>The load generator (cmd/stresstest)\<close>

text \<open>\<^verbatim>\<open>fmt.Sprintf("HC%013d", id)\<close> for a client number, which is not negative.\<close>

definition stress_vin :: "nat \<Rightarrow> gostring" where
  "stress_vin i = str ''HC'' @ replicate (13 - length (decimal i)) 48 @ decimal i"

definition stress_loginData :: "nat \<Rightarrow> bytes" where
  "stress_loginData i =
     [0x26, 0x05, 0x0E, 0x0E, 0x30, 0x00, word_of_nat (i div 256), word_of_nat i, 0x10]
     @ str ''SIM0000000000001'' @ [0x00]"

definition stress_logoutData :: bytes where
  "stress_logoutData = [0x26, 0x05, 0x0E, 0x0E, 0x35, 0x00, 0x00, 0x03]"

definition buildRealtime :: "nat \<Rightarrow> int \<Rightarrow> bytes" where
  "buildRealtime i sq =
     (let data = [0x26, 0x05, 0x0E, 0x0E, 0x30, word_of_int (sq * 10)];
          data = data @ [FieldVehicle];
          v = [0x01, 0x01, 0x01] @ PutUint16 (word_of_int (400 + sq * 50))
                @ PutUint32 (word_of_int (123450 + sq * 100)) @ PutUint16 380 @ PutUint16 200
                @ [85] @ replicate 6 0;
          data = data @ v;
          data = data @ [FieldPosition];
          p = PutUint32 121473708 @ PutUint32 31235538;
          data = data @ p
      in data)"

definition stress_buildPacket :: "byte \<Rightarrow> gostring \<Rightarrow> bytes \<Rightarrow> bytes" where
  "stress_buildPacket command vin data =
     (let vinBytes = copy (replicate VINLength 0) vin;
          pkt = [StartMarker1, StartMarker2, command, 0x01] @ vinBytes @ [EncNone]
                  @ PutUint16 (word_of_nat (length data)) @ data;
          bcc = xor_loop 0 (drop 2 pkt)
      in pkt @ [bcc])"

text \<open>
  The counters. \<open>totalLatency\<close> is the sum of measured durations; the measurement is an argument.
\<close>

record stats =
  conned :: int
  failed :: int
  authed :: int
  realdata :: int
  heartbeats :: int
  bytesSent :: int
  bytesRecv :: int
  totalLatency :: int
  latencyCount :: int

text \<open>
  The outside of a client: whether dialling failed, and for each of its writes and its read the
  number of bytes and whether there was an error. \<open>writes k\<close> is the outcome of write number \<open>k\<close>.
  The operations pass on the packets written so far and the counters.
\<close>

record net_run =
  dial_err :: bool
  writes :: "nat \<Rightarrow> int \<times> bool"
  read_resp :: "int \<times> bool"
  latency :: int

definition sendAndRecv ::
    "byte \<Rightarrow> gostring \<Rightarrow> bytes \<Rightarrow> int \<times> bool \<Rightarrow> int \<times> bool \<Rightarrow> bytes list \<times> stats \<Rightarrow> bool \<times> bytes list \<times> stats" where
  "sendAndRecv cmd vin data wr rd st =
     (case st of (out, s) \<Rightarrow>
        let pkt = stress_buildPacket cmd vin data;
            (n, err) = wr
        in if err then (False, out, s)
        else
          let out = out @ [pkt];
              s = s\<lparr>bytesSent := bytesSent s + n\<rparr>;
              (n, err) = rd
          in if err then (n > 0, out, s)
          else (True, out, s\<lparr>bytesRecv := bytesRecv s + n\<rparr>))"

definition sendOnly ::
    "byte \<Rightarrow> gostring \<Rightarrow> bytes \<Rightarrow> int \<times> bool \<Rightarrow> bytes list \<times> stats \<Rightarrow> bool \<times> bytes list \<times> stats" where
  "sendOnly cmd vin data wr st =
     (case st of (out, s) \<Rightarrow>
        let pkt = stress_buildPacket cmd vin data;
            (n, err) = wr
        in if err then (False, out, s)
        else (True, out @ [pkt], s\<lparr>bytesSent := bytesSent s + n\<rparr>))"

text \<open>The loop over the realtime messages: turn \<open>k\<close> of two is write number \<open>k + 1\<close>.\<close>

function client_loop ::
    "nat \<Rightarrow> gostring \<Rightarrow> net_run \<Rightarrow> nat \<Rightarrow> bytes list \<times> stats \<Rightarrow> bool \<times> bytes list \<times> stats" where
  "client_loop i vin net k st =
     (if k < 2 then
        let rt = buildRealtime i (int k);
            (ok, out, s) = sendOnly CmdRealtime vin rt (writes net (k + 1)) st
        in if \<not> ok then (False, out, s)
        else client_loop i vin net (k + 1) (out, s\<lparr>realdata := realdata s + 1\<rparr>)
      else (True, st))"
  by pat_completeness auto
termination
  by (relation "measure (\<lambda>(i, vin, net, k, st). 2 - k)") auto

declare client_loop.simps [simp del]

definition runClient :: "nat \<Rightarrow> net_run \<Rightarrow> bytes list \<times> stats \<Rightarrow> bytes list \<times> stats" where
  "runClient i net st =
     (let vin = stress_vin i;
          (out, s) = st
      in if dial_err net then (out, s\<lparr>failed := failed s + 1\<rparr>)
      else
        let s = s\<lparr>conned := conned s + 1\<rparr>;
            (ok, out, s) = sendAndRecv CmdLogin vin (stress_loginData i) (writes net 0) (read_resp net) (out, s)
        in if \<not> ok then (out, s\<lparr>failed := failed s + 1\<rparr>)
        else
          let s = s\<lparr>totalLatency := totalLatency s + latency net\<rparr>;
              s = s\<lparr>latencyCount := latencyCount s + 1\<rparr>;
              s = s\<lparr>authed := authed s + 1\<rparr>;
              (ok, out, s) = client_loop i vin net 0 (out, s)
          in if \<not> ok then (out, s)
          else
            let (ok, out, s) = sendOnly CmdHeartbeat vin [] (writes net 3) (out, s)
            in if \<not> ok then (out, s)
            else
              let s = s\<lparr>heartbeats := heartbeats s + 1\<rparr>
              in snd (sendOnly CmdLogout vin stress_logoutData (writes net 4) (out, s)))"

text \<open>
  \<^verbatim>\<open>main\<close> starts one client per number. The counters are atomic and every client only adds to
  them, so the clients are taken one after the other; \<open>nets i\<close> is the outside of client \<open>i\<close>.
\<close>

definition zero_stats :: stats where
  "zero_stats = \<lparr>conned = 0, failed = 0, authed = 0, realdata = 0, heartbeats = 0, bytesSent = 0,
     bytesRecv = 0, totalLatency = 0, latencyCount = 0\<rparr>"

definition stress_main :: "nat \<Rightarrow> (nat \<Rightarrow> net_run) \<Rightarrow> stats" where
  "stress_main conns nets = fold (\<lambda>i s. snd (runClient i (nets i) ([], s))) [0..<conns] zero_stats"

text \<open>What a client that meets no error sends, in order.\<close>

definition stress_script :: "nat \<Rightarrow> (byte \<times> bytes) list" where
  "stress_script i =
     [(CmdLogin, stress_loginData i)] @ map (\<lambda>k. (CmdRealtime, buildRealtime i k)) [0, 1]
     @ [(CmdHeartbeat, []), (CmdLogout, stress_logoutData)]"

text \<open>The two turns of the loop, written out.\<close>

lemma client_loop_unroll:
  "client_loop i vin net 0 st =
     (let (ok, out, s) = sendOnly CmdRealtime vin (buildRealtime i 0) (writes net 1) st
      in if \<not> ok then (False, out, s)
      else let (ok, out, s) = sendOnly CmdRealtime vin (buildRealtime i 1) (writes net 2)
             (out, s\<lparr>realdata := realdata s + 1\<rparr>)
        in if \<not> ok then (False, out, s) else (True, out, s\<lparr>realdata := realdata s + 1\<rparr>))"
  by (simp add: client_loop.simps Let_def split_def numeral_2_eq_2)

end
