(* ===== verification/Clients_Props.thy ===== *)
theory Clients_Props
  imports Clients Server_Props
begin

text \<open>
  The clients against the server: what \<^verbatim>\<open>cmd/simclient\<close> and \<^verbatim>\<open>cmd/stresstest\<close> send is what the example
  server decodes, answers and forwards, and the counters of the load generator add up.
\<close>

section \<open>Packets\<close>

definition client_packet :: "byte \<Rightarrow> gostring \<Rightarrow> bytes \<Rightarrow> Packet" where
  "client_packet cmd vin data =
     \<lparr>Command = cmd, Response = 0x01, VIN = vin, EncryptType = EncNone, Data = data,
      Length = word_of_nat (length data)\<rparr>"

lemma client_packet_simps [simp]:
  "Command (client_packet cmd vin data) = cmd" "VIN (client_packet cmd vin data) = vin"
  "Data (client_packet cmd vin data) = data" "EncryptType (client_packet cmd vin data) = EncNone"
  by (simp_all add: client_packet_def)

lemma wf_client_packet: "length vin = 17 \<Longrightarrow> length data < 65536 \<Longrightarrow> wf_packet (client_packet cmd vin data)"
  by (simp add: wf_packet_def client_packet_def unat_of_nat_uint16)

lemma sim_buildPacket_frame:
  "length vin = 17 \<Longrightarrow> sim_buildPacket cmd vin data = wire_frame (client_packet cmd vin data)"
  by (simp add: sim_buildPacket_def client_packet_def wire_frame_def frame_body_def Let_def)

lemma stress_buildPacket_frame:
  "length vin \<le> 17 \<Longrightarrow>
   stress_buildPacket cmd vin data = wire_frame (client_packet cmd (vin @ replicate (17 - length vin) 0) data)"
  by (simp add: stress_buildPacket_def client_packet_def wire_frame_def frame_body_def Let_def copy_def)

text \<open>An answer to a heartbeat: the time, under the key of the session.\<close>

definition heartbeat_reply :: "bytes \<Rightarrow> gostring \<Rightarrow> Time \<Rightarrow> bytes \<Rightarrow> bool" where
  "heartbeat_reply key vin t frame \<longleftrightarrow> (\<exists>p. frame = wire_frame p \<and> wf_packet p \<and> Command p = CmdHeartbeat \<and>
     VIN p = vin \<and> opened (Some key) p = Some (encodeBCDTime (in_UTC t)))"

lemma length_DeriveAESKey: "length (DeriveAESKey token) = 16"
  by (simp add: DeriveAESKey_eq)

lemma modc_modc: "modc c f (modc c g w) = modc c (\<lambda>cn. f (g cn)) w"
  by (cases "c < length (heap w)") (simp_all add: modc_def list_update_beyond)

lemma modc_id: "modc c (\<lambda>cn. cn) w = w"
  by (simp add: modc_def)

section \<open>A vehicle session with the example handler\<close>

text \<open>The packets of a session: a login, realtime messages, heartbeats and a logout.\<close>

definition session_packets :: "gostring \<Rightarrow> bytes \<Rightarrow> bytes list \<Rightarrow> nat \<Rightarrow> bytes \<Rightarrow> Packet list" where
  "session_packets vin ldata datas n lodata =
     [client_packet CmdLogin vin ldata] @ map (client_packet CmdRealtime vin) datas
     @ replicate n (client_packet CmdHeartbeat vin []) @ [client_packet CmdLogout vin lodata]"

text \<open>What is left of a session: the final connection, what was written, and what was forwarded.\<close>

definition session_result ::
    "nat list \<Rightarrow> nat \<Rightarrow> gostring \<Rightarrow> VehicleLoginData \<Rightarrow> RealtimeMessage list \<Rightarrow> nat \<Rightarrow> VehicleLogoutData \<Rightarrow>
     'a World \<Rightarrow> 'a World \<Rightarrow> bool" where
  "session_result fs c vin ld msgs n lo w w' \<longleftrightarrow>
     State w' c = ConnLoggedIn \<and> Conn_VIN w' c = vin \<and> Conn_ICCID w' c = ICCID ld \<and>
     encryptKey (conn w' c) = None \<and>
     (\<exists>hs. written (conn w' c) = written (conn w c) @
        wire_frame (response_packet CmdLogin vin EncNone (EncodeLoginResponse (example_response ld))) # hs \<and>
        length hs = n \<and> list_all (heartbeat_reply (DeriveAESKey (str ''TOKEN123'')) vin (now w)) hs) \<and>
     forwarded w' = forwarded w @ concat (map (\<lambda>m. map (\<lambda>f. (f, m)) fs)
       ([newForwardMsg ''login'' vin (FLogin ld)] @ map (\<lambda>m. newForwardMsg ''realtime'' vin (FRealtime m)) msgs
        @ [newForwardMsg ''logout'' vin (FLogout lo)]))"

text \<open>
  What the session lemmas need of a server: the example handler, an authenticator that accepts
  every login, and a socket that takes what is written on connection \<open>c\<close>.
\<close>

locale example_session =
  fixes s :: "'a Server" and c :: nat
  assumes my_handler: "handler s = Some MyHandler"
    and accepted: "login_auth s pkt w = (w, True)"
    and socket_open: "socket s w c p = None"
begin

lemma realtime_forwarded:
  assumes "DecodeRealtimeData data = Some (Inr msg)"
  shows "handlePacket s c (client_packet CmdRealtime vin data) w =
    Some (forward s (newForwardMsg ''realtime'' vin (FRealtime msg)) w)"
  using assms
  by (auto simp: handlePacket_def dispatch_def handle_realtime_def notify_def my_handler MyHandler_def
      split: option.splits)

lemma realtimes_forwarded:
  assumes "list_all2 (\<lambda>data msg. DecodeRealtimeData data = Some (Inr msg)) datas msgs"
  shows "handle_all s c (map (client_packet CmdRealtime vin) datas) w =
    Some (fold (forward s) (map (\<lambda>m. newForwardMsg ''realtime'' vin (FRealtime m)) msgs) w)"
  using assms
proof (induction arbitrary: w rule: list_all2_induct)
  case (Cons data datas msg msgs)
  then show ?case using realtime_forwarded by simp
qed simp

lemma heartbeat_answered:
  assumes "c < length (heap w)" "State w c \<noteq> ConnClosed" "\<not> sock_closed (conn w c)"
    and "encryptKey (conn w c) = Some key" "length key = 16" "length (conn_vin (conn w c)) = 17"
  shows "\<exists>f. heartbeat_reply key (conn_vin (conn w c)) (now w) f \<and>
    handlePacket s c (client_packet CmdHeartbeat vin []) w =
      Some (modc c (\<lambda>cn. cn\<lparr>written := written cn @ [f]\<rparr>) w)"
proof -
  have "handlePacket s c (client_packet CmdHeartbeat vin []) w =
      map_option fst (Send s c CmdHeartbeat (encodeBCDTime (in_UTC (now w))) w)"
    by (simp add: handlePacket_def assms(4) dispatch_def handle_heartbeat_def notify_def my_handler MyHandler_def)
  moreover obtain p where "wf_packet p" "Command p = CmdHeartbeat" "VIN p = conn_vin (conn w c)"
    "opened (Some key) p = Some (encodeBCDTime (in_UTC (now w)))"
    "Send s c CmdHeartbeat (encodeBCDTime (in_UTC (now w))) w = Some (Write s c (wire_frame p) w)"
  proof -
    obtain e t where e: "length e = sealed_length (Some key) (encodeBCDTime (in_UTC (now w)))"
      "opened (Some key) (response_packet CmdHeartbeat (conn_vin (conn w c)) t e) = Some (encodeBCDTime (in_UTC (now w)))"
      "Send s c CmdHeartbeat (encodeBCDTime (in_UTC (now w))) w =
        Some (Write s c (wire_frame (response_packet CmdHeartbeat (conn_vin (conn w c)) t e)) w)"
      using Send_packet [OF assms(2) _ assms(6), of "encodeBCDTime (in_UTC (now w))" CmdHeartbeat s] assms(4,5)
      by (auto simp: key_ok_def)
    have "length e < 65536" using e(1) by (simp add: sealed_length_def encodeBCDTime_def)
    then have "wf_packet (response_packet CmdHeartbeat (conn_vin (conn w c)) t e)"
      using assms(6) by (simp add: wf_response_packet)
    then show ?thesis using that e(2,3) by (simp add: response_packet_def)
  qed
  moreover have "Write s c pkt w = (modc c (\<lambda>cn. cn\<lparr>written := written cn @ [pkt]\<rparr>) w, None)" for pkt
    using assms(3) by (simp add: Write_def socket_open)
  ultimately show ?thesis by (auto simp: heartbeat_reply_def)
qed

lemma heartbeats_answered:
  assumes "c < length (heap w)" "State w c \<noteq> ConnClosed" "\<not> sock_closed (conn w c)"
    and "encryptKey (conn w c) = Some key" "length key = 16" "length (conn_vin (conn w c)) = 17"
  shows "\<exists>fs. length fs = n \<and> list_all (heartbeat_reply key (conn_vin (conn w c)) (now w)) fs \<and>
    handle_all s c (replicate n (client_packet CmdHeartbeat vin [])) w =
      Some (modc c (\<lambda>cn. cn\<lparr>written := written cn @ fs\<rparr>) w)"
  using assms
proof (induction n arbitrary: w)
  case 0
  then show ?case by (simp add: modc_id)
next
  case (Suc n)
  obtain f where f: "heartbeat_reply key (conn_vin (conn w c)) (now w) f"
    "handlePacket s c (client_packet CmdHeartbeat vin []) w = Some (modc c (\<lambda>cn. cn\<lparr>written := written cn @ [f]\<rparr>) w)"
    using heartbeat_answered [OF Suc.prems] by blast
  let ?w = "modc c (\<lambda>cn. cn\<lparr>written := written cn @ [f]\<rparr>) w"
  have c: "conn ?w c = (conn w c)\<lparr>written := written (conn w c) @ [f]\<rparr>" using Suc.prems(1) by simp
  obtain fs where "length fs = n" "list_all (heartbeat_reply key (conn_vin (conn w c)) (now w)) fs"
    "handle_all s c (replicate n (client_packet CmdHeartbeat vin [])) ?w =
      Some (modc c (\<lambda>cn. cn\<lparr>written := written cn @ fs\<rparr>) ?w)"
    using Suc.IH [of ?w] Suc.prems c by (auto simp: State_def)
  then show ?case using f by (intro exI [of _ "f # fs"]) (simp add: modc_modc)
qed

lemma logout_forwarded:
  assumes "DecodeLogoutData data = Some (Inr lo)"
  shows "handlePacket s c (client_packet CmdLogout vin data) w =
    Some (forward s (newForwardMsg ''logout'' vin (FLogout lo)) (modc c (\<lambda>cn. cn\<lparr>encryptKey := None\<rparr>) w))"
  using assms
  by (auto simp: handlePacket_def dispatch_def handle_logout_def notify_def my_handler MyHandler_def Let_def
      split: option.splits)

lemma fold_forward:
  "heap (fold (forward s) ms w) = heap w" "now (fold (forward s) ms w) = now w"
  "forwarded (fold (forward s) ms w) = forwarded w @ concat (map (\<lambda>m. map (\<lambda>f. (f, m)) (forwarders s)) ms)"
  by (induction ms arbitrary: w) (simp_all add: forward_def)

lemma vehicle_session:
  assumes "c < length (heap w)" "encryptKey (conn w c) = None" "\<not> sock_closed (conn w c)"
    and "length vin = 17" "DecodeLoginData ldata = Some (Inr ld)" "DecodeLogoutData lodata = Some (Inr lo)"
    and "list_all2 (\<lambda>data msg. DecodeRealtimeData data = Some (Inr msg)) datas msgs"
  shows "\<exists>w'. handle_all s c (session_packets vin ldata datas n lodata) w = Some w' \<and>
    session_result (forwarders s) c vin ld msgs n lo w w'"
proof -
  let ?key = "DeriveAESKey (str ''TOKEN123'')"
  obtain w1 where w1: "handlePacket s c (client_packet CmdLogin vin ldata) w = Some w1" "State w1 c = ConnLoggedIn"
    "conn_vin (conn w1 c) = vin" "conn_iccid (conn w1 c) = ICCID ld" "encryptKey (conn w1 c) = Some ?key"
    "written (conn w1 c) = written (conn w c) @
      [wire_frame (response_packet CmdLogin vin EncNone (EncodeLoginResponse (example_response ld)))]"
    "length (heap w1) = length (heap w)" "\<not> sock_closed (conn w1 c)" "now w1 = now w"
    "forwarded w1 = forwarded w @ map (\<lambda>f. (f, newForwardMsg ''login'' vin (FLogin ld))) (forwarders s)"
    using example_login [of s "client_packet CmdLogin vin ldata" w c ld] my_handler accepted socket_open assms(1-5)
    by (auto simp: Conn_VIN_def Conn_ICCID_def)
  define w2 where "w2 = fold (forward s) (map (\<lambda>m. newForwardMsg ''realtime'' vin (FRealtime m)) msgs) w1"
  have w2: "handle_all s c (map (client_packet CmdRealtime vin) datas) w1 = Some w2" "conn w2 c = conn w1 c"
    "length (heap w2) = length (heap w)" "now w2 = now w"
    using realtimes_forwarded [OF assms(7)] w1(7,9) by (simp_all add: w2_def fold_forward)
  obtain hs where hs: "length hs = n" "list_all (heartbeat_reply ?key vin (now w)) hs"
    "handle_all s c (replicate n (client_packet CmdHeartbeat vin [])) w2 =
      Some (modc c (\<lambda>cn. cn\<lparr>written := written cn @ hs\<rparr>) w2)"
    using heartbeats_answered [of w2 ?key n vin] w1 w2 assms(1,4) length_DeriveAESKey by (auto simp: State_def)
  let ?w4 = "forward s (newForwardMsg ''logout'' vin (FLogout lo))
      (modc c (\<lambda>cn. cn\<lparr>encryptKey := None\<rparr>) (modc c (\<lambda>cn. cn\<lparr>written := written cn @ hs\<rparr>) w2))"
  have "handle_all s c (session_packets vin ldata datas n lodata) w = Some ?w4"
    using w1(1) w2(1) hs(3) logout_forwarded [OF assms(6)] by (simp add: session_packets_def handle_all_append)
  moreover have "conn ?w4 c = (conn w1 c)\<lparr>written := written (conn w1 c) @ hs, encryptKey := None\<rparr>"
    using assms(1) w2(2,3) by simp
  moreover have "forwarded ?w4 = forwarded w @ concat (map (\<lambda>m. map (\<lambda>f. (f, m)) (forwarders s))
      ([newForwardMsg ''login'' vin (FLogin ld)] @ map (\<lambda>m. newForwardMsg ''realtime'' vin (FRealtime m)) msgs
       @ [newForwardMsg ''logout'' vin (FLogout lo)]))"
    by (simp add: forward_def w2_def fold_forward w1(10))
  ultimately show ?thesis
    using w1 hs(1,2)
    by (intro exI [of _ ?w4]) (simp add: session_result_def State_def Conn_VIN_def Conn_ICCID_def)
qed

lemma session_stream:
  assumes "decoder_inv d" "pending d = []" "list_all wf_packet (session_packets vin ldata datas n lodata)"
    and "c < length (heap w)" "encryptKey (conn w c) = None" "\<not> sock_closed (conn w c)"
    and "length vin = 17" "DecodeLoginData ldata = Some (Inr ld)" "DecodeLogoutData lodata = Some (Inr lo)"
    and "list_all2 (\<lambda>data msg. DecodeRealtimeData data = Some (Inr msg)) datas msgs"
  shows "\<exists>d1 d2 w'. Feed d (concat (map wire_frame (session_packets vin ldata datas n lodata))) = Some d1 \<and>
    processPackets s c d1 w = Some (d2, w') \<and> pending d2 = [] \<and>
    session_result (forwarders s) c vin ld msgs n lo w w'"
  using feed_process_frames [OF assms(1-3), of s c w] vehicle_session [OF assms(4-10), of n] by auto

end

text \<open>The example server with forwarders, on a network without write errors.\<close>

interpretation ex: example_session "WithForwarder fs (example_server open_sockets)" c
  by unfold_locales
    (simp_all add: example_defs login_auth_def AllowAll_Authenticate_def open_sockets_def)

section \<open>What the clients send\<close>

lemmas bcd_eval = decodeTime6_def defaultDecoder_def parseBCDTime6_def bcd_value_def slice_def wire

lemma client_time:
  "decodeTime6 defaultDecoder [0x26, 0x05, 0x0E, 0x0E, m, b] =
     Some (Date 2026 5 14 14 (bcd_value m) (bcd_value b))"
  by (simp add: bcd_eval)

text \<open>The login both programs send, up to the sequence number and the ICCID.\<close>

lemma client_login_decoded:
  assumes "length ic = 16"
  shows "DecodeLoginData ([0x26, 0x05, 0x0E, 0x0E, 0x30, 0x00, a, b, 0x10] @ ic @ [0x00]) = Some (Inr
     \<lparr>LoginTime = Date 2026 5 14 14 30 0, Sequence = be16 a b, ICCID = ic, ConfigDataCnt = 0, ConfigData = []\<rparr>)"
proof -
  let ?h = "[0x26, 0x05, 0x0E, 0x0E, 0x30, 0x00, a, b, 0x10] :: bytes"
  have "slice (?h @ ic @ [0]) 9 25 = Some ic" using assms by (intro slice_append_mid) simp_all
  moreover have "idx (?h @ ic @ [0]) 25 = Some 0" using assms by (simp add: idx_def nth_append)
  moreover have "decodeTime6 defaultDecoder [0x26, 0x05, 0x0E, 0x0E, 0x30, 0x00] = Some (Date 2026 5 14 14 30 0)"
    by (simp add: client_time bcd_value_def)
  moreover have "slice (?h @ ic @ [0]) 0 6 = Some [0x26, 0x05, 0x0E, 0x0E, 0x30, 0x00]" by (simp add: slice_def)
  ultimately show ?thesis
    using assms by (simp add: DecodeLoginData_def Decoder_DecodeLoginData_def config_loop.simps wire)
qed

lemma client_logout_decoded:
  "DecodeLogoutData [0x26, 0x05, 0x0E, 0x0E, 0x35, 0x00, 0x00, 0x03] =
     Some (Inr \<lparr>LogoutTime = Date 2026 5 14 14 35 0, LogoutSequence = 3\<rparr>)"
  by (simp add: DecodeLogoutData_def Decoder_DecodeLogoutData_def client_time bcd_value_def slice_def wire be16_def)

lemma realtime_wire:
  assumes "length tb = 6" "decodeTime6 defaultDecoder tb = Some t" "list_all framed xs"
  shows "DecodeRealtimeData (tb @ fields_wire xs) = Some (Inr (fields_message t xs))"
proof -
  have "6 \<le> length (tb @ fields_wire xs)" using assms(1) by simp
  from decode_both [OF this, of defaultDecoder] decodeRealtimeItem_fields [OF assms, of "[]"]
  show ?thesis by (auto simp: DecodeRealtimeData_def stops_def)
qed

definition sim_message :: "int \<Rightarrow> RealtimeMessage" where
  "sim_message sq =
     (emptyMessage (Date 2026 5 14 14 30 (bcd_value (word_of_int (sq * 10)))))
     \<lparr>VehicleData := Some
        \<lparr>VehicleStatus = 1, ChargingStatus = 1, RunMode = 1, Speed = word_of_int (400 + sq * 50),
         Odometer = word_of_int (123450 + sq * 100), TotalVoltage = word_of_int (380 + sq),
         TotalCurrent = word_of_int (200 + sq * 10), SOC = word_of_int (80 + sq), DCStatus = 1, Gear = 3,
         InsulationRes = 9999\<rparr>,
      PositionData := Some
        \<lparr>Longitude = word_of_int (121473708 + sq * 1000), Latitude = word_of_int (31235538 + sq * 500)\<rparr>,
      ExtremeData := Some
        \<lparr>MaxBatteryVoltage = word_of_int (4100 + sq * 10), MaxBatteryVoltageCode = 5, MinBatteryVoltage = 3700,
         MinBatteryVoltageCode = 16, MaxTemp = word_of_int (40 + sq), MaxTempCode = 3, MinTemp = 15,
         MinTempCode = 31\<rparr>\<rparr>"

definition stress_message :: "int \<Rightarrow> RealtimeMessage" where
  "stress_message sq =
     (emptyMessage (Date 2026 5 14 14 30 (bcd_value (word_of_int (sq * 10)))))
     \<lparr>VehicleData := Some
        \<lparr>VehicleStatus = 1, ChargingStatus = 1, RunMode = 1, Speed = word_of_int (400 + sq * 50),
         Odometer = word_of_int (123450 + sq * 100), TotalVoltage = 380, TotalCurrent = 200, SOC = 85,
         DCStatus = 0, Gear = 0, InsulationRes = 0\<rparr>,
      PositionData := Some \<lparr>Longitude = 121473708, Latitude = 31235538\<rparr>\<rparr>"

lemma buildRealtimeData_decoded: "DecodeRealtimeData (buildRealtimeData sq) = Some (Inr (sim_message sq))"
proof -
  let ?tb = "[0x26, 0x05, 0x0E, 0x0E, 0x30, word_of_int (sq * 10)] :: bytes"
  let ?xs = "[DVehicle \<lparr>VehicleStatus_c = 1, ChargingStatus_c = 1, RunMode_c = 1, Speed_c = word_of_int (400 + sq * 50),
         Odometer_c = word_of_int (123450 + sq * 100), TotalVoltage_c = word_of_int (380 + sq),
         TotalCurrent_c = word_of_int (200 + sq * 10), SOC_c = word_of_int (80 + sq), DCStatus_c = 1, Gear_c = 3,
         InsulationRes_c = 9999, Reserved_c = 0\<rparr>,
      DPosition \<lparr>Longitude_c = word_of_int (121473708 + sq * 1000), Latitude_c = word_of_int (31235538 + sq * 500)\<rparr>,
      DExtreme \<lparr>MaxBatteryVoltage_c = word_of_int (4100 + sq * 10), MaxBatteryVoltageCode_c = 5,
         MinBatteryVoltage_c = 3700, MinBatteryVoltageCode_c = 16, MaxTemp_c = word_of_int (40 + sq),
         MaxTempCode_c = 3, MinTemp_c = 15, MinTempCode_c = 31\<rparr>]"
  have "buildRealtimeData sq = ?tb @ fields_wire ?xs"
    by (simp add: buildRealtimeData_def Let_def vehicle_layout_def position_layout_def extreme_layout_def PutUint16_def)
  moreover have "list_all framed ?xs" by (simp add: framed_def)
  moreover have "fields_message (Date 2026 5 14 14 30 (bcd_value (word_of_int (sq * 10)))) ?xs = sim_message sq"
    by (simp add: fields_message_def sim_message_def toVehicle_def toPosition_def toExtreme_def)
  ultimately show ?thesis using realtime_wire [OF _ client_time, of "0x30" "word_of_int (sq * 10)" ?xs]
    by (simp add: bcd_value_def [of "0x30"])
qed

lemma buildRealtime_decoded: "DecodeRealtimeData (buildRealtime i sq) = Some (Inr (stress_message sq))"
proof -
  let ?tb = "[0x26, 0x05, 0x0E, 0x0E, 0x30, word_of_int (sq * 10)] :: bytes"
  let ?xs = "[DVehicle \<lparr>VehicleStatus_c = 1, ChargingStatus_c = 1, RunMode_c = 1, Speed_c = word_of_int (400 + sq * 50),
         Odometer_c = word_of_int (123450 + sq * 100), TotalVoltage_c = 380, TotalCurrent_c = 200, SOC_c = 85,
         DCStatus_c = 0, Gear_c = 0, InsulationRes_c = 0, Reserved_c = 0\<rparr>,
      DPosition \<lparr>Longitude_c = 121473708, Latitude_c = 31235538\<rparr>]"
  have "buildRealtime i sq = ?tb @ fields_wire ?xs"
    by (simp add: buildRealtime_def Let_def vehicle_layout_def position_layout_def PutUint16_def eval_nat_numeral)
  moreover have "list_all framed ?xs" by (simp add: framed_def)
  moreover have "fields_message (Date 2026 5 14 14 30 (bcd_value (word_of_int (sq * 10)))) ?xs = stress_message sq"
    by (simp add: fields_message_def stress_message_def toVehicle_def toPosition_def)
  ultimately show ?thesis using realtime_wire [OF _ client_time, of "0x30" "word_of_int (sq * 10)" ?xs]
    by (simp add: bcd_value_def [of "0x30"])
qed

section \<open>The load generator's numbers\<close>

lemma length_stress_vin: "i < 10 ^ 13 \<Longrightarrow> length (stress_vin i) = 15"
  using length_decimal [of i 13] by (simp add: stress_vin_def str_def)

text \<open>One client: it counts once, as failed or as logged in, and the later counters follow the login.\<close>

definition counters_ok :: "int \<Rightarrow> stats \<Rightarrow> bool" where
  "counters_ok n s \<longleftrightarrow> authed s + failed s = n \<and> authed s \<le> conned s \<and> conned s \<le> n \<and>
     latencyCount s = authed s \<and> realdata s \<le> 2 * authed s \<and> 2 * heartbeats s \<le> realdata s"

lemma sendOnly_effect:
  obtains ok out' x where "sendOnly cmd vin data wr (out, s) = (ok, out', s\<lparr>bytesSent := x\<rparr>)"
proof -
  obtain n err where "wr = (n, err)" by (cases wr)
  then show ?thesis
    by (cases err) (auto simp: sendOnly_def Let_def intro: that [of False out "bytesSent s"] that)
qed

lemma sendAndRecv_effect:
  obtains ok out' x y where
    "sendAndRecv cmd vin data wr rd (out, s) = (ok, out', s\<lparr>bytesSent := x, bytesRecv := y\<rparr>)"
proof -
  obtain n err m err' where "wr = (n, err)" "rd = (m, err')" by (cases wr, cases rd)
  then show ?thesis
    by (intro that [of "\<not> err \<and> (\<not> err' \<or> m > 0)" "if err then out else out @ [stress_buildPacket cmd vin data]"
          "if err \<or> err' then bytesRecv s else bytesRecv s + m" "if err then bytesSent s else bytesSent s + n"])
      (simp add: sendAndRecv_def Let_def)
qed

lemma client_loop_effect:
  obtains ok out' x r where
    "client_loop i vin net 0 (out, s) = (ok, out', s\<lparr>bytesSent := x, realdata := realdata s + r\<rparr>)"
    "0 \<le> r" "r \<le> 2" "ok \<longrightarrow> r = 2"
proof -
  obtain ok1 out1 x1 where 1: "sendOnly CmdRealtime vin (buildRealtime i 0) (writes net 1) (out, s) =
      (ok1, out1, s\<lparr>bytesSent := x1\<rparr>)" by (rule sendOnly_effect)
  obtain ok2 out2 x2 where 2: "sendOnly CmdRealtime vin (buildRealtime i 1) (writes net 2)
      (out1, s\<lparr>bytesSent := x1, realdata := realdata s + 1\<rparr>) =
      (ok2, out2, s\<lparr>bytesSent := x1, realdata := realdata s + 1, bytesSent := x2\<rparr>)" by (rule sendOnly_effect)
  have "client_loop i vin net 0 (out, s) =
      (ok1 \<and> ok2, if ok1 then out2 else out1, s\<lparr>bytesSent := (if ok1 then x2 else x1),
       realdata := realdata s + (if ok1 then if ok2 then 2 else 1 else 0)\<rparr>)"
    using 1 2 by (simp add: client_loop_unroll Let_def)
  then show ?thesis by (rule that) simp_all
qed

lemma runClient_counters:
  assumes "counters_ok n s"
  shows "counters_ok (n + 1) (snd (runClient i net (out, s)))"
proof (cases "dial_err net")
  case True
  then show ?thesis using assms by (simp add: runClient_def Let_def counters_ok_def)
next
  case False
  let ?v = "stress_vin i" and ?s = "s\<lparr>conned := conned s + 1\<rparr>"
  obtain ok1 out1 x1 y1 where 1: "sendAndRecv CmdLogin ?v (stress_loginData i) (writes net 0) (read_resp net) (out, ?s) =
      (ok1, out1, ?s\<lparr>bytesSent := x1, bytesRecv := y1\<rparr>)" by (rule sendAndRecv_effect)
  let ?s1 = "?s\<lparr>bytesSent := x1, bytesRecv := y1, totalLatency := totalLatency s + latency net,
      latencyCount := latencyCount s + 1, authed := authed s + 1\<rparr>"
  obtain ok2 out2 x2 r where 2: "client_loop i ?v net 0 (out1, ?s1) =
      (ok2, out2, ?s1\<lparr>bytesSent := x2, realdata := realdata ?s1 + r\<rparr>)" and r: "0 \<le> r" "r \<le> 2" "ok2 \<longrightarrow> r = 2"
    by (rule client_loop_effect)
  let ?s2 = "?s1\<lparr>bytesSent := x2, realdata := realdata ?s1 + r\<rparr>"
  obtain ok3 out3 x3 where 3: "sendOnly CmdHeartbeat ?v [] (writes net 3) (out2, ?s2) =
      (ok3, out3, ?s2\<lparr>bytesSent := x3\<rparr>)" by (rule sendOnly_effect)
  let ?s3 = "?s2\<lparr>bytesSent := x3, heartbeats := heartbeats s + 1\<rparr>"
  obtain ok4 out4 x4 where 4: "sendOnly CmdLogout ?v stress_logoutData (writes net 4) (out3, ?s3) =
      (ok4, out4, ?s3\<lparr>bytesSent := x4\<rparr>)" by (rule sendOnly_effect)
  show ?thesis
    using assms r False 1 2 3 4
    by (cases ok1; cases ok2; cases ok3) (simp_all add: runClient_def Let_def counters_ok_def)
qed

lemma stress_main_counters: "counters_ok (int conns) (stress_main conns nets)"
proof (induction conns)
  case 0
  then show ?case by (simp add: stress_main_def counters_ok_def zero_stats_def)
next
  case (Suc n)
  have "stress_main (Suc n) nets = snd (runClient n (nets n) ([], stress_main n nets))"
    by (simp add: stress_main_def)
  with runClient_counters [OF Suc] show ?case by (simp add: add.commute)
qed

lemma runClient_packets:
  assumes "\<not> dial_err net" "\<And>k. k \<le> 4 \<Longrightarrow> \<not> snd (writes net k)" "\<not> snd (read_resp net)"
  shows "fst (runClient i net (out, s)) = out @ map (\<lambda>(cmd, data). stress_buildPacket cmd (stress_vin i) data) (stress_script i)"
  using assms(1,3) assms(2) [of 0] assms(2) [of 1] assms(2) [of 2] assms(2) [of 3] assms(2) [of 4]
  by (simp add: runClient_def client_loop_unroll sendAndRecv_def sendOnly_def Let_def split_def stress_script_def)

section \<open>Properties\<close>

definition sim_login :: VehicleLoginData where
  "sim_login = \<lparr>LoginTime = Date 2026 5 14 14 30 0, Sequence = 1, ICCID = str ''SIMCARD000000001'',
     ConfigDataCnt = 0, ConfigData = []\<rparr>"

definition stress_login :: "nat \<Rightarrow> VehicleLoginData" where
  "stress_login i = \<lparr>LoginTime = Date 2026 5 14 14 30 0, Sequence = be16 (word_of_nat (i div 256)) (word_of_nat i),
     ICCID = str ''SIM0000000000001'', ConfigDataCnt = 0, ConfigData = []\<rparr>"

definition client_logout :: VehicleLogoutData where
  "client_logout = \<lparr>LogoutTime = Date 2026 5 14 14 35 0, LogoutSequence = 3\<rparr>"

lemma sim_login_decoded: "DecodeLoginData sim_loginData = Some (Inr sim_login)"
  using client_login_decoded [of "str ''SIMCARD000000001''" 0 1]
  by (simp add: sim_loginData_def sim_login_def str_def be16_def)

lemma stress_login_decoded: "DecodeLoginData (stress_loginData i) = Some (Inr (stress_login i))"
  using client_login_decoded [of "str ''SIM0000000000001''"]
  by (simp add: stress_loginData_def stress_login_def str_def)

lemma logout_decoded:
  "DecodeLogoutData sim_logoutData = Some (Inr client_logout)" "DecodeLogoutData stress_logoutData = Some (Inr client_logout)"
  using client_logout_decoded by (simp_all add: sim_logoutData_def stress_logoutData_def client_logout_def)

lemma length_realtime: "length (buildRealtimeData sq) = 47" "length (buildRealtime i sq) = 36"
  by (simp_all add: buildRealtimeData_def buildRealtime_def Let_def)

lemma sim_stream_frames:
  "sim_stream = concat (map wire_frame
     (session_packets sim_vin sim_loginData (map buildRealtimeData [1, 2, 3]) 2 sim_logoutData))"
  by (simp add: sim_stream_def sim_script_def session_packets_def sim_buildPacket_frame sim_vin_def str_def
      numeral_2_eq_2)

lemma sim_packets_wf:
  "list_all wf_packet (session_packets sim_vin sim_loginData (map buildRealtimeData [1, 2, 3]) 2 sim_logoutData)"
  by (simp add: session_packets_def list_all_iff wf_client_packet length_realtime sim_vin_def str_def
      sim_loginData_def sim_logoutData_def)

text \<open>
  What the simulator writes, whatever it reads: the packets of its script, in order, without those
  whose write failed; a failed write does not end the program.
\<close>

lemma fst_sendPacket: "fst (sendPacket cmd vin data label err st) = fst st @ (if err then [] else [sim_buildPacket cmd vin data])"
  by (simp add: sendPacket_def split_def Let_def)

lemma sim_main_packets:
  assumes "\<not> sim_dial_err net"
  shows "fst (sim_main net) = map (\<lambda>(k, cmd, data). sim_buildPacket cmd sim_vin data)
    (filter (\<lambda>(k, x). \<not> sim_write_err net k) (enumerate 0 sim_script))"
proof -
  have "[1..<4] = [1, 2, 3 :: nat]" "[1..<3] = [1, 2 :: nat]" by (simp_all add: upt_rec)
  moreover have m: "map f (filter P xs) = concat (map (\<lambda>x. if \<not> P x then [] else [f x]) xs)"
    for f :: "nat \<times> byte \<times> bytes \<Rightarrow> bytes" and P xs by (induction xs) simp_all
  moreover have "fst (if b then (fst st, x) else st) = fst st" for b x and st :: "bytes list \<times> sim_log list" by simp
  ultimately show ?thesis
    using assms unfolding m sim_main_def Let_def sim_script_def
    by (simp add: fst_sendPacket split del: if_split) (simp add: eval_nat_numeral cong: if_cong split del: if_split)
qed

lemma sim_main_stream:
  "\<not> sim_dial_err net \<Longrightarrow> (\<And>k. \<not> sim_write_err net k) \<Longrightarrow> concat (fst (sim_main net)) = sim_stream"
  by (simp add: sim_main_packets sim_stream_def sim_script_def)

text \<open>
  C5: the simulated vehicle against the example server. Everything \<^verbatim>\<open>cmd/simclient\<close> sends (if its writes
  succeed, and whatever it reads), read by the
  server on a connection without a key, is decoded and handled: the vehicle is logged in under its
  VIN and ICCID; the login, the three realtime messages with the values the simulator put in, and
  the logout go to every forwarder in this order; the server answers the login in plain text and
  both heartbeats under the key of the login token; and after the logout the key is gone.
\<close>

theorem sim_session:
  assumes "decoder_inv d" and "pending d = []"
    and "c < length (heap w)" and "encryptKey (conn w c) = None" and "\<not> sock_closed (conn w c)"
    and "\<not> sim_dial_err net" and "\<And>k. \<not> sim_write_err net k"
  shows "\<exists>d1 d2 w'. Feed d (concat (fst (sim_main net))) = Some d1 \<and>
    processPackets (WithForwarder fs (example_server open_sockets)) c d1 w = Some (d2, w') \<and> pending d2 = [] \<and>
    session_result fs c sim_vin sim_login [sim_message 1, sim_message 2, sim_message 3] 2 client_logout w w'"
proof -
  have "length sim_vin = 17" by (simp add: sim_vin_def str_def)
  moreover have "list_all2 (\<lambda>data msg. DecodeRealtimeData data = Some (Inr msg)) (map buildRealtimeData [1, 2, 3])
      [sim_message 1, sim_message 2, sim_message 3]" by (simp add: buildRealtimeData_decoded)
  moreover have "forwarders (WithForwarder fs (example_server open_sockets)) = fs" by (simp add: example_defs)
  ultimately show ?thesis
    using ex.session_stream [OF assms(1,2) sim_packets_wf assms(3-5) _ sim_login_decoded logout_decoded(1)]
    unfolding sim_main_stream [OF assms(6,7)] sim_stream_frames by metis
qed

theorem sim_session_witness:
  "\<exists>d1 d2 w'. Feed NewDecoder (concat (fst (sim_main \<lparr>sim_dial_err = False, sim_write_err = \<lambda>_. False, sim_reads = \<lambda>_. []\<rparr>))) = Some d1 \<and>
    processPackets (WithForwarder [0] (example_server open_sockets)) 0 d1
      (sample_world (sample_conn\<lparr>conn_state := ConnNew, encryptKey := None\<rparr>)) = Some (d2, w') \<and>
    State w' 0 = ConnLoggedIn \<and> Conn_VIN w' 0 = sim_vin \<and> length (forwarded w') = 5"
proof -
  let ?w = "sample_world (sample_conn\<lparr>conn_state := ConnNew, encryptKey := None\<rparr>)"
  have "forwarded ?w = []" by (simp add: sample_world_def NewWorld_def)
  with sim_session [OF NewDecoder_ok, of 0 ?w "\<lparr>sim_dial_err = False, sim_write_err = \<lambda>_. False, sim_reads = \<lambda>_. []\<rparr>" "[0]"] show ?thesis
    by (auto simp: sample_conn_def session_result_def)
qed

text \<open>
  A client of the load generator against the example server. For every client number below ten
  to the thirteen, a client that meets no network error writes packets that the server handles as
  one session, under the client's VIN padded with two zero bytes.
\<close>

theorem stress_session:
  assumes "i < 10 ^ 13" and "\<not> dial_err net" and "\<And>k. k \<le> 4 \<Longrightarrow> \<not> snd (writes net k)" and "\<not> snd (read_resp net)"
    and "decoder_inv d" and "pending d = []"
    and "c < length (heap w)" and "encryptKey (conn w c) = None" and "\<not> sock_closed (conn w c)"
  shows "\<exists>d1 d2 w'. Feed d (concat (fst (runClient i net ([], st)))) = Some d1 \<and>
    processPackets (WithForwarder fs (example_server open_sockets)) c d1 w = Some (d2, w') \<and> pending d2 = [] \<and>
    session_result fs c (stress_vin i @ [0, 0]) (stress_login i) [stress_message 0, stress_message 1] 1 client_logout w w'"
proof -
  let ?ps = "session_packets (stress_vin i @ [0, 0]) (stress_loginData i) (map (buildRealtime i) [0, 1]) 1 stress_logoutData"
  have v: "length (stress_vin i) = 15" using assms(1) by (rule length_stress_vin)
  have "concat (fst (runClient i net ([], st))) = concat (map wire_frame ?ps)"
    using runClient_packets [of net i "[]" st, OF assms(2-4)] v
    by (simp add: stress_script_def session_packets_def stress_buildPacket_frame numeral_2_eq_2)
  moreover have "list_all wf_packet ?ps"
    using v by (simp add: session_packets_def list_all_iff wf_client_packet length_realtime
        stress_loginData_def stress_logoutData_def str_def)
  moreover have "list_all2 (\<lambda>data msg. DecodeRealtimeData data = Some (Inr msg)) (map (buildRealtime i) [0, 1])
      [stress_message 0, stress_message 1]" by (simp add: buildRealtime_decoded)
  moreover have "forwarders (WithForwarder fs (example_server open_sockets)) = fs" by (simp add: example_defs)
  moreover have "length (stress_vin i @ [0, 0]) = 17" using v by simp
  ultimately show ?thesis
    using ex.session_stream [OF assms(5,6) _ assms(7-9) _ stress_login_decoded logout_decoded(2)] by metis
qed

theorem stress_session_witness:
  "\<exists>d1 d2 w'. Feed NewDecoder (concat (fst (runClient 7
      \<lparr>dial_err = False, writes = (\<lambda>_. (60, False)), read_resp = (42, False), latency = 5\<rparr> ([], zero_stats)))) = Some d1 \<and>
    processPackets (WithForwarder [0] (example_server open_sockets)) 0 d1
      (sample_world (sample_conn\<lparr>conn_state := ConnNew, encryptKey := None\<rparr>)) = Some (d2, w') \<and>
    State w' 0 = ConnLoggedIn \<and> length (forwarded w') = 4"
proof -
  let ?w = "sample_world (sample_conn\<lparr>conn_state := ConnNew, encryptKey := None\<rparr>)"
  have "forwarded ?w = []" by (simp add: sample_world_def NewWorld_def)
  with stress_session [of 7 "\<lparr>dial_err = False, writes = (\<lambda>_. (60, False)), read_resp = (42, False), latency = 5\<rparr>",
      OF _ _ _ _ NewDecoder_ok, of 0 ?w zero_stats "[0]"]
  show ?thesis by (auto simp: sample_conn_def session_result_def)
qed

text \<open>
  The counters of the load generator add up, whatever the network does: every client is counted
  once, as failed or as logged in; the latency counter counts the logins; a client that is not
  connected is not logged in; two realtime messages precede every heartbeat and no client sends
  more than two.
\<close>

theorem stress_counters:
  "authed (stress_main conns nets) + failed (stress_main conns nets) = int conns \<and>
   authed (stress_main conns nets) \<le> conned (stress_main conns nets) \<and>
   conned (stress_main conns nets) \<le> int conns \<and>
   latencyCount (stress_main conns nets) = authed (stress_main conns nets) \<and>
   2 * heartbeats (stress_main conns nets) \<le> realdata (stress_main conns nets) \<and>
   realdata (stress_main conns nets) \<le> 2 * authed (stress_main conns nets)"
  using stress_main_counters [of conns nets] by (simp add: counters_ok_def)

end
