(* ===== verification/Json.thy ===== *)
theory Json
  imports Server_State
begin

text \<open>
  The bodies that the forwarders publish: what \<^verbatim>\<open>json.Marshal\<close> makes of a \<^verbatim>\<open>*ForwardMsg\<close>.
  The encoder walks the structures of \<^verbatim>\<open>packet.go\<close> by reflection; here every structure has a function
  that gives the value tree of its fields, in the order of the declaration and under the name of
  the field or of its tag, and \<open>encode\<close> writes such a tree as the package \<^verbatim>\<open>encoding/json\<close> of the
  standard library does: numbers in decimal, strings escaped, byte slices in base64, times in
  RFC 3339, nil pointers and nil slices as null. A time outside the years 0 to 9999 is an error.

  A slice that is empty in the model is nil in the code exactly where the code only appends to it
  (\<open>ConfigData\<close>, \<open>MotorData\<close>, \<open>SubsystemVoltages\<close>, \<open>Cells\<close>); the decoders make the others with
  \<^verbatim>\<open>make\<close>.
\<close>

section \<open>The encoder of encoding/json\<close>

datatype jval =
    JNull
  | JUint nat
  | JString gostring
  | JBytes bytes
  | JTime Time
  | JArray "jval list"
  | JObject "(string \<times> jval) list"

text \<open>
  Strings. \<open>json_piece\<close> is what the loop appends for the code point \<open>c\<close> that starts \<open>s\<close> and has
  \<open>n\<close> bytes: itself, or an escape for quote, backslash, control characters, the characters of HTML
  markup, line separators, and an invalid byte.
\<close>

definition json_escape :: "nat \<Rightarrow> gostring" where
  "json_escape c =
     (if c = 34 \<or> c = 92 then [92, word_of_nat c]
      else if c = 8 then [92, 98]
      else if c = 12 then [92, 102]
      else if c = 10 then [92, 110]
      else if c = 13 then [92, 114]
      else if c = 9 then [92, 116]
      else [92] @ str ''u00'' @ [hex_digit (c div 16), hex_digit (c mod 16)])"

definition htmlSafe :: "nat \<Rightarrow> bool" where
  "htmlSafe c \<longleftrightarrow> 32 \<le> c \<and> c \<noteq> 34 \<and> c \<noteq> 38 \<and> c \<noteq> 60 \<and> c \<noteq> 62 \<and> c \<noteq> 92"

definition json_piece :: "nat \<Rightarrow> nat \<Rightarrow> gostring \<Rightarrow> gostring" where
  "json_piece c n s =
     (if c < 128 then if htmlSafe c then take n s else json_escape c
      else if c = 0xFFFD \<and> n = 1 then [92] @ str ''ufffd''
      else if c = 0x2028 \<or> c = 0x2029 then [92] @ str ''u202'' @ [hex_digit (c mod 16)]
      else take n s)"

function quote_body :: "gostring \<Rightarrow> gostring" where
  "quote_body s =
     (if s = [] then []
      else let (c, n) = DecodeRune s in json_piece c n s @ quote_body (drop n s))"
  by pat_completeness auto
termination
  by (relation "measure length") (use DecodeRune_width in \<open>auto, metis diff_less length_greater_0_conv snd_conv\<close>)

declare quote_body.simps [simp del]

definition quote :: "gostring \<Rightarrow> gostring" where
  "quote s = [34] @ quote_body s @ [34]"

text \<open>Byte slices: \<^verbatim>\<open>base64.StdEncoding\<close>.\<close>

definition b64_char :: "nat \<Rightarrow> byte" where
  "b64_char n = word_of_nat
     (if n < 26 then 65 + n else if n < 52 then 71 + n else if n < 62 then n - 4 else if n = 62 then 43 else 47)"

definition b64_quad :: "nat \<Rightarrow> nat list" where
  "b64_quad n = [n div 262144 mod 64, n div 4096 mod 64, n div 64 mod 64, n mod 64]"

fun base64 :: "bytes \<Rightarrow> gostring" where
  "base64 (a # b # c # bs) =
     map b64_char (b64_quad (unat a * 65536 + unat b * 256 + unat c)) @ base64 bs"
| "base64 [a, b] = map b64_char (take 3 (b64_quad (unat a * 65536 + unat b * 256))) @ [61]"
| "base64 [a] = map b64_char (take 2 (b64_quad (unat a * 65536))) @ [61, 61]"
| "base64 [] = []"

text \<open>
  Times: \<^verbatim>\<open>Time.MarshalJSON\<close>, RFC 3339 with the digits of the fraction that are needed. The offset is
  given in minutes, and as \<^verbatim>\<open>Z\<close> if it is zero.
\<close>

definition pad_decimal :: "nat \<Rightarrow> int \<Rightarrow> gostring" where
  "pad_decimal k n = replicate (k - length (decimal (nat n))) 48 @ decimal (nat n)"

definition format_fraction :: "Time \<Rightarrow> gostring" where
  "format_fraction t =
     (if tnsec t = 0 then []
      else str ''.'' @ rev (dropWhile (\<lambda>b. b = 48) (rev (pad_decimal 9 (tnsec t)))))"

definition format_zone :: "Time \<Rightarrow> gostring" where
  "format_zone t =
     (if toff t = 0 then str ''Z''
      else
        let zone = toff t sdiv 60; a = \<bar>zone\<bar>
        in (if zone < 0 then str ''-'' else str ''+'') @ pad_decimal 2 (a div 60) @ str '':'' @ pad_decimal 2 (a mod 60))"

definition format_RFC3339Nano :: "Time \<Rightarrow> gostring" where
  "format_RFC3339Nano t =
     pad_decimal 4 (Year t) @ str ''-'' @ pad_decimal 2 (Month t) @ str ''-'' @ pad_decimal 2 (Day t) @ str ''T'' @
     pad_decimal 2 (Hour t) @ str '':'' @ pad_decimal 2 (Minute t) @ str '':'' @ pad_decimal 2 (Second t) @
     format_fraction t @ format_zone t"

definition MarshalJSON :: "Time \<Rightarrow> go_error + gostring" where
  "MarshalJSON t =
     (if \<not> (0 \<le> Year t \<and> Year t \<le> 9999) then
        Inl (Errorf ''json: error calling MarshalJSON for type time.Time: Time.MarshalJSON: year outside of range [0,9999]'' [])
      else if \<bar>toff t sdiv 60\<bar> div 60 \<ge> 24 then
        Inl (Errorf ''json: error calling MarshalJSON for type time.Time: Time.MarshalJSON: timezone hour outside of range [0,23]'' [])
      else Inr ([34] @ format_RFC3339Nano t @ [34]))"

text \<open>Values. Every element after the first is preceded by a comma.\<close>

fun encode :: "jval \<Rightarrow> go_error + gostring"
  and encode_elems :: "bool \<Rightarrow> jval list \<Rightarrow> go_error + gostring"
  and encode_fields :: "bool \<Rightarrow> (string \<times> jval) list \<Rightarrow> go_error + gostring" where
  "encode JNull = Inr (str ''null'')"
| "encode (JUint n) = Inr (decimal n)"
| "encode (JString s) = Inr (quote s)"
| "encode (JBytes bs) = Inr ([34] @ base64 bs @ [34])"
| "encode (JTime t) = MarshalJSON t"
| "encode (JArray vs) = map_sum id (\<lambda>b. str ''['' @ b @ str '']'') (encode_elems True vs)"
| "encode (JObject fs) = map_sum id (\<lambda>b. str ''{'' @ b @ str ''}'') (encode_fields True fs)"
| "encode_elems first [] = Inr []"
| "encode_elems first (v # vs) =
     (case encode v of
        Inl err \<Rightarrow> Inl err
      | Inr b \<Rightarrow> map_sum id (\<lambda>r. (if first then [] else str '','') @ b @ r) (encode_elems False vs))"
| "encode_fields first [] = Inr []"
| "encode_fields first ((k, v) # fs) =
     (case encode v of
        Inl err \<Rightarrow> Inl err
      | Inr b \<Rightarrow> map_sum id (\<lambda>r. (if first then [] else str '','') @ quote (str k) @ str '':'' @ b @ r) (encode_fields False fs))"

section \<open>The structures of packet.go\<close>

abbreviation jnum :: "'w :: len word \<Rightarrow> jval" where
  "jnum x \<equiv> JUint (unat x)"

definition jpointer :: "('a \<Rightarrow> jval) \<Rightarrow> 'a option \<Rightarrow> jval" where
  "jpointer f p = (case p of None \<Rightarrow> JNull | Some x \<Rightarrow> f x)"

definition jslice :: "('a \<Rightarrow> jval) \<Rightarrow> 'a list \<Rightarrow> jval" where
  "jslice f xs = (if xs = [] then JNull else JArray (map f xs))"

definition json_ConfigField :: "ConfigField \<Rightarrow> jval" where
  "json_ConfigField c = JObject
     [(''ID'', jnum (ConfigID c)), (''Length'', jnum (ConfigLength c)), (''Value'', JBytes (ConfigValue c))]"

definition json_VehicleLoginData :: "VehicleLoginData \<Rightarrow> jval" where
  "json_VehicleLoginData d = JObject
     [(''LoginTime'', JTime (LoginTime d)), (''Sequence'', jnum (Sequence d)), (''ICCID'', JString (ICCID d)),
      (''ConfigDataCnt'', jnum (ConfigDataCnt d)), (''ConfigData'', jslice json_ConfigField (ConfigData d))]"

definition json_VehicleLogoutData :: "VehicleLogoutData \<Rightarrow> jval" where
  "json_VehicleLogoutData d = JObject
     [(''LogoutTime'', JTime (LogoutTime d)), (''Sequence'', jnum (LogoutSequence d))]"

definition json_VehicleBaseInfo :: "VehicleBaseInfo \<Rightarrow> jval" where
  "json_VehicleBaseInfo v = JObject
     [(''VehicleStatus'', jnum (VehicleStatus v)), (''ChargingStatus'', jnum (ChargingStatus v)),
      (''RunMode'', jnum (RunMode v)), (''Speed'', jnum (Speed v)), (''Odometer'', jnum (Odometer v)),
      (''TotalVoltage'', jnum (TotalVoltage v)), (''TotalCurrent'', jnum (TotalCurrent v)), (''SOC'', jnum (SOC v)),
      (''DCStatus'', jnum (DCStatus v)), (''Gear'', jnum (Gear v)), (''InsulationRes'', jnum (InsulationRes v))]"

definition json_MotorInfo :: "MotorInfo \<Rightarrow> jval" where
  "json_MotorInfo m = JObject
     [(''MotorSeq'', jnum (MotorSeq m)), (''MotorStatus'', jnum (MotorStatus m)),
      (''ControllerTemp'', jnum (ControllerTemp m)), (''MotorSpeed'', jnum (MotorSpeed m)),
      (''MotorTorque'', jnum (MotorTorque m)), (''MotorTemp'', jnum (MotorTemp m)),
      (''MotorVoltage'', jnum (MotorVoltage m)), (''MotorCurrent'', jnum (MotorCurrent m))]"

definition json_FuelCellInfo :: "FuelCellInfo \<Rightarrow> jval" where
  "json_FuelCellInfo f = JObject
     [(''CellVoltage'', jnum (CellVoltage f)), (''CellCurrent'', jnum (CellCurrent f)),
      (''FuelConsumption'', jnum (FuelConsumption f)), (''ProbeCount'', jnum (ProbeCount f)),
      (''ProbeTemps'', JBytes (ProbeTemps f)), (''H2MaxTemp'', jnum (H2MaxTemp f)),
      (''H2MaxTempProbe'', jnum (H2MaxTempProbe f)), (''H2MaxConcentration'', jnum (H2MaxConcentration f)),
      (''H2MaxConcentrationSensor'', jnum (H2MaxConcentrationSensor f)), (''H2PressureMax'', jnum (H2PressureMax f)),
      (''H2PressureMaxSensor'', jnum (H2PressureMaxSensor f)), (''H2PressureMin'', jnum (H2PressureMin f)),
      (''H2PressureMinSensor'', jnum (H2PressureMinSensor f)), (''DCDCStatus'', jnum (DCDCStatus f))]"

definition json_EngineInfo :: "EngineInfo \<Rightarrow> jval" where
  "json_EngineInfo e = JObject
     [(''EngineStatus'', jnum (EngineStatus e)), (''CrankSpeed'', jnum (CrankSpeed e)), (''FuelRate'', jnum (FuelRate e))]"

definition json_PositionInfo :: "PositionInfo \<Rightarrow> jval" where
  "json_PositionInfo p = JObject [(''Longitude'', jnum (Longitude p)), (''Latitude'', jnum (Latitude p))]"

definition json_ExtremeInfo :: "ExtremeInfo \<Rightarrow> jval" where
  "json_ExtremeInfo e = JObject
     [(''MaxBatteryVoltage'', jnum (MaxBatteryVoltage e)), (''MaxBatteryVoltageCode'', jnum (MaxBatteryVoltageCode e)),
      (''MinBatteryVoltage'', jnum (MinBatteryVoltage e)), (''MinBatteryVoltageCode'', jnum (MinBatteryVoltageCode e)),
      (''MaxTemp'', jnum (MaxTemp e)), (''MaxTempCode'', jnum (MaxTempCode e)),
      (''MinTemp'', jnum (MinTemp e)), (''MinTempCode'', jnum (MinTempCode e))]"

definition json_AlarmInfo :: "AlarmInfo \<Rightarrow> jval" where
  "json_AlarmInfo a = JObject
     [(''MaxLevel'', jnum (MaxLevel a)), (''AlarmByteLen'', jnum (AlarmByteLen a)), (''AlarmBytes'', JBytes (AlarmBytes a))]"

definition json_CellInfo :: "CellInfo \<Rightarrow> jval" where
  "json_CellInfo c = JObject [(''Voltage'', jnum (CellInfoVoltage c)), (''Temp'', jnum (CellInfoTemp c))]"

definition json_CellVoltage :: "CellVoltageItem \<Rightarrow> jval" where
  "json_CellVoltage c = JObject [(''CellNo'', jnum (CellNo c)), (''CellInfo'', json_CellInfo (CellInfo_of c))]"

definition json_SubsystemVoltage :: "SubsystemVoltage \<Rightarrow> jval" where
  "json_SubsystemVoltage s = JObject
     [(''SubsysNo'', jnum (SubsysNo s)), (''Voltage'', jnum (Voltage s)), (''Current'', jnum (Current s)),
      (''CellCount'', jnum (CellCount s)), (''Cells'', jslice json_CellVoltage (Cells s))]"

definition json_VoltageInfo :: "VoltageInfo \<Rightarrow> jval" where
  "json_VoltageInfo v = JObject
     [(''SubsysCount'', jnum (SubsysCount v)),
      (''SubsystemVoltages'', jslice json_SubsystemVoltage (SubsystemVoltages v))]"

definition json_RealtimeMessage :: "RealtimeMessage \<Rightarrow> jval" where
  "json_RealtimeMessage m = JObject
     [(''InfoTime'', JTime (InfoTime m)),
      (''VehicleData'', jpointer json_VehicleBaseInfo (VehicleData m)),
      (''MotorData'', jslice json_MotorInfo (MotorData m)),
      (''FuelCellData'', jpointer json_FuelCellInfo (FuelCellData m)),
      (''EngineData'', jpointer json_EngineInfo (EngineData m)),
      (''PositionData'', jpointer json_PositionInfo (PositionData m)),
      (''ExtremeData'', jpointer json_ExtremeInfo (ExtremeData m)),
      (''AlarmData'', jpointer json_AlarmInfo (AlarmData m)),
      (''VoltageData'', jpointer json_VoltageInfo (VoltageData m))]"

text \<open>\<open>DataItems\<close> is made by the decoder, so an empty one is an empty array.\<close>

definition json_ReissueMessage :: "ReissueMessage \<Rightarrow> jval" where
  "json_ReissueMessage m = JObject
     [(''InfoTime'', JTime (ReissueTime m)), (''DataItems'', JArray (map json_RealtimeMessage (DataItems m)))]"

fun json_fwd_data :: "fwd_data \<Rightarrow> jval" where
  "json_fwd_data (FLogin d) = json_VehicleLoginData d"
| "json_fwd_data (FLogout d) = json_VehicleLogoutData d"
| "json_fwd_data (FRealtime m) = json_RealtimeMessage m"
| "json_fwd_data (FReissue m) = json_ReissueMessage m"

definition json_ForwardMsg :: "ForwardMsg \<Rightarrow> jval" where
  "json_ForwardMsg m = JObject
     [(''type'', JString (str (FType m))), (''vin'', JString (FVIN m)), (''data'', json_fwd_data (FData m))]"

definition Marshal :: "ForwardMsg \<Rightarrow> go_error + bytes" where
  "Marshal m = encode (json_ForwardMsg m)"

end
