(* ===== verification/Forwarders.thy ===== *)
theory Forwarders
  imports Json
begin

text \<open>
  The forwarders (\<^verbatim>\<open>forward/config.go\<close>, \<^verbatim>\<open>forward/kafka_forwarder.go\<close>, \<^verbatim>\<open>forward/mqtt_forwarder.go\<close>).
  The Kafka client (sarama) and the MQTT client (paho) are arguments of the definitions: functions
  on the state \<open>'e\<close> of the outside, with the libraries' handles and outcomes as values. Nothing is
  assumed of them here; what a property relies on is its hypothesis. \<^verbatim>\<open>json.Marshal\<close> is the encoder
  of theory \<open>Json\<close>.
\<close>

section \<open>Configuration (config.go)\<close>

record KafkaConfig =
  Brokers :: "gostring list"
  KTopic :: gostring

record MQTTConfig =
  Broker :: gostring
  ClientID :: gostring
  MTopic :: gostring
  Username :: gostring
  Password :: gostring

section \<open>Kafka\<close>

text \<open>
  The settings that the constructor changes in the library's default configuration, and the
  operations of the library: make a producer from brokers and settings, send a body to a topic
  (without key), close.
\<close>

datatype sarama_setting =
    RequiredAcks_WaitForLocal
  | Compression_Snappy
  | Return_Successes bool
  | Retry_Max nat
  | DialTimeout int
  | Net_ReadTimeout int
  | Net_WriteTimeout int

record ('e, 'p) sarama =
  NewSyncProducer :: "gostring list \<Rightarrow> sarama_setting list \<Rightarrow> 'e \<Rightarrow> 'e \<times> (go_error + 'p)"
  SendMessage :: "'p \<Rightarrow> gostring \<Rightarrow> bytes \<Rightarrow> 'e \<Rightarrow> 'e \<times> go_error option"
  Producer_Close :: "'p \<Rightarrow> 'e \<Rightarrow> 'e \<times> go_error option"

record 'p KafkaForwarder =
  producer :: 'p
  kafka_topic :: gostring

definition NewKafkaForwarder ::
    "('e, 'p) sarama \<Rightarrow> KafkaConfig \<Rightarrow> 'e \<Rightarrow> 'e \<times> (go_error + 'p KafkaForwarder)" where
  "NewKafkaForwarder lib cfg e =
     (if length (Brokers cfg) = 0 then (e, Inl (Errorf ''kafka: no brokers configured'' []))
      else if KTopic cfg = [] then (e, Inl (Errorf ''kafka: no topic configured'' []))
      else
        let saramaCfg = [RequiredAcks_WaitForLocal, Compression_Snappy, Return_Successes True, Retry_Max 3,
              DialTimeout (5 * second_ns), Net_ReadTimeout (5 * second_ns), Net_WriteTimeout (5 * second_ns)]
        in case NewSyncProducer lib (Brokers cfg) saramaCfg e of
          (e, Inl err) \<Rightarrow> (e, Inl err)
        | (e, Inr p) \<Rightarrow> (e, Inr \<lparr>producer = p, kafka_topic = KTopic cfg\<rparr>))"

definition Kafka_Forward ::
    "('e, 'p) sarama \<Rightarrow> 'p KafkaForwarder \<Rightarrow> ForwardMsg \<Rightarrow> 'e \<Rightarrow> 'e \<times> go_error option" where
  "Kafka_Forward lib k msg e =
     (case Marshal msg of
        Inl err \<Rightarrow> (e, Some err)
      | Inr body \<Rightarrow> SendMessage lib (producer k) (kafka_topic k) body e)"

definition Kafka_Close :: "('e, 'p) sarama \<Rightarrow> 'p KafkaForwarder \<Rightarrow> 'e \<Rightarrow> 'e \<times> go_error option" where
  "Kafka_Close lib k e = Producer_Close lib (producer k) e"

section \<open>MQTT\<close>

text \<open>
  The calls on the options, in order. \<^verbatim>\<open>Connect\<close> and \<^verbatim>\<open>Publish\<close> return a token; its outcome within
  the time given to \<^verbatim>\<open>WaitTimeout\<close> is \<open>Timeout\<close> or the value of \<^verbatim>\<open>token.Error()\<close>.
\<close>

datatype mqtt_option =
    AddBroker gostring
  | SetClientID gostring
  | SetUsername gostring
  | SetPassword gostring
  | SetConnectTimeout int
  | SetAutoReconnect bool
  | SetMaxReconnectInterval int

datatype token = Timeout | TokenError "go_error option"

record ('e, 'c) paho =
  Connect :: "mqtt_option list \<Rightarrow> int \<Rightarrow> 'e \<Rightarrow> 'e \<times> 'c \<times> token"
  Publish :: "'c \<Rightarrow> gostring \<Rightarrow> byte \<Rightarrow> bool \<Rightarrow> bytes \<Rightarrow> int \<Rightarrow> 'e \<Rightarrow> 'e \<times> token"
  Disconnect :: "'c \<Rightarrow> nat \<Rightarrow> 'e \<Rightarrow> 'e"

record 'c MQTTForwarder =
  client :: 'c
  mqtt_topic :: gostring

definition NewMQTTForwarder ::
    "('e, 'c) paho \<Rightarrow> MQTTConfig \<Rightarrow> 'e \<Rightarrow> 'e \<times> (go_error + 'c MQTTForwarder)" where
  "NewMQTTForwarder lib cfg e =
     (if Broker cfg = [] then (e, Inl (Errorf ''mqtt: no broker configured'' []))
      else if MTopic cfg = [] then (e, Inl (Errorf ''mqtt: no topic configured'' []))
      else
        let opts = [AddBroker (Broker cfg), SetClientID (ClientID cfg)];
            opts = (if Username cfg \<noteq> [] then opts @ [SetUsername (Username cfg)] else opts);
            opts = (if Password cfg \<noteq> [] then opts @ [SetPassword (Password cfg)] else opts);
            opts = opts @ [SetConnectTimeout (10 * second_ns), SetAutoReconnect True,
              SetMaxReconnectInterval (30 * second_ns)]
        in case Connect lib opts (15 * second_ns) e of
          (e, c, Timeout) \<Rightarrow> (e, Inl (Errorf ''mqtt: connect timeout'' []))
        | (e, c, TokenError (Some err)) \<Rightarrow> (e, Inl err)
        | (e, c, TokenError None) \<Rightarrow> (e, Inr \<lparr>client = c, mqtt_topic = MTopic cfg\<rparr>))"

definition MQTT_Forward ::
    "('e, 'c) paho \<Rightarrow> 'c MQTTForwarder \<Rightarrow> ForwardMsg \<Rightarrow> 'e \<Rightarrow> 'e \<times> go_error option" where
  "MQTT_Forward lib m msg e =
     (case Marshal msg of
        Inl err \<Rightarrow> (e, Some err)
      | Inr body \<Rightarrow>
          (case Publish lib (client m) (mqtt_topic m) 1 False body (5 * second_ns) e of
             (e, Timeout) \<Rightarrow> (e, Some (Errorf ''mqtt: publish timeout'' []))
           | (e, TokenError err) \<Rightarrow> (e, err)))"

definition MQTT_Close :: "('e, 'c) paho \<Rightarrow> 'c MQTTForwarder \<Rightarrow> 'e \<Rightarrow> 'e \<times> go_error option" where
  "MQTT_Close lib m e = (Disconnect lib (client m) 500 e, None)"

section \<open>What the server does with a forwarder\<close>

text \<open>
  The interface \<^verbatim>\<open>Forwarder\<close> (\<^verbatim>\<open>interfaces.go\<close>) and its two implementations, and the body of a
  goroutine that \<^verbatim>\<open>forward\<close> starts: an error is only logged.
\<close>

record 'e Forwarder =
  Forward :: "ForwardMsg \<Rightarrow> 'e \<Rightarrow> 'e \<times> go_error option"
  Forwarder_Close :: "'e \<Rightarrow> 'e \<times> go_error option"

definition forward_goroutine :: "'e Forwarder \<Rightarrow> ForwardMsg \<Rightarrow> 'e \<Rightarrow> 'e" where
  "forward_goroutine fw msg e = fst (Forward fw msg e)"

definition Kafka :: "('e, 'p) sarama \<Rightarrow> 'p KafkaForwarder \<Rightarrow> 'e Forwarder" where
  "Kafka lib k = \<lparr>Forward = Kafka_Forward lib k, Forwarder_Close = Kafka_Close lib k\<rparr>"

definition MQTT :: "('e, 'c) paho \<Rightarrow> 'c MQTTForwarder \<Rightarrow> 'e Forwarder" where
  "MQTT lib m = \<lparr>Forward = MQTT_Forward lib m, Forwarder_Close = MQTT_Close lib m\<rparr>"

section \<open>The contract of a forwarder\<close>

text \<open>
  A forwarder encodes a message and makes one call \<open>publish\<close> of its library with the body; to close it is
  one call \<open>hang_up\<close>. Nothing is said about what these calls do.
\<close>

locale publisher =
  fixes fw :: "'e Forwarder"
    and publish :: "bytes \<Rightarrow> 'e \<Rightarrow> 'e"
    and hang_up :: "'e \<Rightarrow> 'e"
  assumes encode_error: "Marshal msg = Inl err \<Longrightarrow> Forward fw msg e = (e, Some err)"
    and encode_publish: "Marshal msg = Inr body \<Longrightarrow> fst (Forward fw msg e) = publish body e"
    and close_call: "fst (Forwarder_Close fw e) = hang_up e"
begin

lemma goroutine_publishes: "Marshal msg = Inr body \<Longrightarrow> forward_goroutine fw msg = publish body"
  by (simp add: fun_eq_iff forward_goroutine_def encode_publish)

end

interpretation kafka: publisher "Kafka lib k" "\<lambda>body e. fst (SendMessage lib (producer k) (kafka_topic k) body e)"
  "\<lambda>e. fst (Producer_Close lib (producer k) e)"
  by unfold_locales (simp_all add: Kafka_def Kafka_Forward_def Kafka_Close_def)

interpretation mqtt: publisher "MQTT lib m"
  "\<lambda>body e. fst (Publish lib (client m) (mqtt_topic m) 1 False body (5 * second_ns) e)" "Disconnect lib (client m) 500"
  by unfold_locales (auto simp: MQTT_def MQTT_Forward_def MQTT_Close_def split: prod.splits token.splits)

text \<open>The options of an MQTT connection.\<close>

definition mqtt_options :: "MQTTConfig \<Rightarrow> mqtt_option list" where
  "mqtt_options cfg = [AddBroker (Broker cfg), SetClientID (ClientID cfg)]
     @ (if Username cfg \<noteq> [] then [SetUsername (Username cfg)] else [])
     @ (if Password cfg \<noteq> [] then [SetPassword (Password cfg)] else [])
     @ [SetConnectTimeout (10 * second_ns), SetAutoReconnect True, SetMaxReconnectInterval (30 * second_ns)]"

lemma NewMQTTForwarder_ok:
  "snd (NewMQTTForwarder lib cfg e) = Inr m \<longleftrightarrow> Broker cfg \<noteq> [] \<and> MTopic cfg \<noteq> [] \<and>
     mqtt_topic m = MTopic cfg \<and> snd (Connect lib (mqtt_options cfg) (15 * second_ns) e) = (client m, TokenError None)"
proof -
  obtain e1 c1 t1 where 1: "Connect lib (mqtt_options cfg) (15 * second_ns) e = (e1, c1, t1)" by (metis prod_cases3)
  have "NewMQTTForwarder lib cfg e =
     (if Broker cfg = [] then (e, Inl (Errorf ''mqtt: no broker configured'' []))
      else if MTopic cfg = [] then (e, Inl (Errorf ''mqtt: no topic configured'' []))
      else case t1 of
          Timeout \<Rightarrow> (e1, Inl (Errorf ''mqtt: connect timeout'' []))
        | TokenError (Some err) \<Rightarrow> (e1, Inl err)
        | TokenError None \<Rightarrow> (e1, Inr \<lparr>client = c1, mqtt_topic = MTopic cfg\<rparr>))"
    using 1 by (cases "Username cfg = []"; cases "Password cfg = []")
      (simp_all add: NewMQTTForwarder_def mqtt_options_def Let_def)
  with 1 show ?thesis by (cases m) (auto split: token.splits option.splits)
qed

section \<open>Properties\<close>

text \<open>
  The constructors. A configuration without broker or topic is refused without a call to the
  client library; with both, the forwarder exists exactly if the library could connect, and then
  has the library's handle and the configured topic. MQTT credentials are passed on exactly if
  they are not empty.
\<close>

theorem forwarder_constructors:
  "(Brokers kc = [] \<or> KTopic kc = [] \<longrightarrow> (\<exists>t. \<forall>lib :: ('e, 'p) sarama. NewKafkaForwarder lib kc e = (e, Inl (Errorf t [])))) \<and>
   (Broker mc = [] \<or> MTopic mc = [] \<longrightarrow> (\<exists>t. \<forall>lib :: ('e, 'c) paho. NewMQTTForwarder lib mc e = (e, Inl (Errorf t [])))) \<and>
   (\<exists>settings. \<forall>k. snd (NewKafkaForwarder klib kc e) = Inr k \<longleftrightarrow> Brokers kc \<noteq> [] \<and> KTopic kc \<noteq> [] \<and>
      kafka_topic k = KTopic kc \<and> snd (NewSyncProducer klib (Brokers kc) settings e) = Inr (producer k)) \<and>
   (\<exists>opts. (\<forall>u. SetUsername u \<in> set opts \<longleftrightarrow> u \<noteq> [] \<and> u = Username mc) \<and>
      (\<forall>u. SetPassword u \<in> set opts \<longleftrightarrow> u \<noteq> [] \<and> u = Password mc) \<and>
      (\<forall>m. snd (NewMQTTForwarder plib mc e) = Inr m \<longleftrightarrow> Broker mc \<noteq> [] \<and> MTopic mc \<noteq> [] \<and>
        mqtt_topic m = MTopic mc \<and> snd (Connect plib opts (15 * second_ns) e) = (client m, TokenError None)))"
proof (intro conjI)
  show "Brokers kc = [] \<or> KTopic kc = [] \<longrightarrow>
      (\<exists>t. \<forall>lib :: ('e, 'p) sarama. NewKafkaForwarder lib kc e = (e, Inl (Errorf t [])))"
    by (cases "Brokers kc = []") (simp_all add: NewKafkaForwarder_def)
  show "Broker mc = [] \<or> MTopic mc = [] \<longrightarrow>
      (\<exists>t. \<forall>lib :: ('e, 'c) paho. NewMQTTForwarder lib mc e = (e, Inl (Errorf t [])))"
    by (cases "Broker mc = []") (simp_all add: NewMQTTForwarder_def)
  show "\<exists>settings. \<forall>k. snd (NewKafkaForwarder klib kc e) = Inr k \<longleftrightarrow> Brokers kc \<noteq> [] \<and> KTopic kc \<noteq> [] \<and>
      kafka_topic k = KTopic kc \<and> snd (NewSyncProducer klib (Brokers kc) settings e) = Inr (producer k)"
    by (rule exI [of _ "[RequiredAcks_WaitForLocal, Compression_Snappy, Return_Successes True, Retry_Max 3,
        DialTimeout (5 * second_ns), Net_ReadTimeout (5 * second_ns), Net_WriteTimeout (5 * second_ns)]"])
      (auto simp: NewKafkaForwarder_def split: prod.splits sum.splits)
  show "\<exists>opts. (\<forall>u. SetUsername u \<in> set opts \<longleftrightarrow> u \<noteq> [] \<and> u = Username mc) \<and>
      (\<forall>u. SetPassword u \<in> set opts \<longleftrightarrow> u \<noteq> [] \<and> u = Password mc) \<and>
      (\<forall>m. snd (NewMQTTForwarder plib mc e) = Inr m \<longleftrightarrow> Broker mc \<noteq> [] \<and> MTopic mc \<noteq> [] \<and>
        mqtt_topic m = MTopic mc \<and> snd (Connect plib opts (15 * second_ns) e) = (client m, TokenError None))"
    using NewMQTTForwarder_ok [of plib mc e]
    by (intro exI [of _ "mqtt_options mc"]) (auto simp: mqtt_options_def)
qed

text \<open>
  A concrete outside: the list of bodies published, a Kafka library that appends to it and an MQTT
  library whose token times out although the message was taken.
\<close>

definition list_sarama :: "(bytes list, unit) sarama" where
  "list_sarama = \<lparr>NewSyncProducer = (\<lambda>bs cfg e. (e, Inr ())), SendMessage = (\<lambda>p t body e. (e @ [body], None)),
     Producer_Close = (\<lambda>p e. (e, None))\<rparr>"

definition list_paho :: "(bytes list, unit) paho" where
  "list_paho = \<lparr>Connect = (\<lambda>opts t e. (e, (), TokenError None)),
     Publish = (\<lambda>c t q r body d e. (e @ [body], Timeout)), Disconnect = (\<lambda>c n e. e)\<rparr>"

theorem forwarder_constructors_witness:
  "snd (NewKafkaForwarder list_sarama \<lparr>Brokers = [str ''b''], KTopic = str ''t''\<rparr> []) = Inr \<lparr>producer = (), kafka_topic = str ''t''\<rparr> \<and>
   (\<exists>t. NewMQTTForwarder list_paho \<lparr>Broker = [], ClientID = [], MTopic = [], Username = [], Password = []\<rparr> [] =
     ([], Inl (Errorf t [])))"
  using forwarder_constructors [of "\<lparr>Brokers = [str ''b''], KTopic = str ''t''\<rparr>" "[]"
      "\<lparr>Broker = [], ClientID = [], MTopic = [], Username = [], Password = []\<rparr>" list_sarama list_paho]
  by (auto simp: list_sarama_def str_def)

end
