(* ===== verification/Json_Props.thy ===== *)
theory Json_Props
  imports Json Payload_Props Message_Props
begin

text \<open>
  What the published bodies mean. \<open>json_read\<close> is a reader of JSON texts on code points, written from
  the grammar of RFC 8259 (without white space, fractions and the literals true and false, which
  the encoder never writes); it is independent of the encoder. Every text that the encoder writes
  is valid UTF-8 and reads back as the tree of its values.
\<close>

section \<open>A reader\<close>

datatype jtree =
    TNull
  | TNum nat
  | TStr "nat list"
  | TArr "jtree list"
  | TObj "(nat list \<times> jtree) list"

definition hex_value :: "nat \<Rightarrow> nat option" where
  "hex_value c =
     (if 48 \<le> c \<and> c \<le> 57 then Some (c - 48)
      else if 97 \<le> c \<and> c \<le> 102 then Some (c - 87)
      else if 65 \<le> c \<and> c \<le> 70 then Some (c - 55)
      else None)"

definition hex4 :: "nat list \<Rightarrow> nat option" where
  "hex4 cs = (case cs of
      [a, b, c, d] \<Rightarrow> do {
        a \<leftarrow> hex_value a; b \<leftarrow> hex_value b; c \<leftarrow> hex_value c; d \<leftarrow> hex_value d;
        Some (4096 * a + 256 * b + 16 * c + d)
      }
    | _ \<Rightarrow> None)"

text \<open>The character that a short escape stands for.\<close>

definition short_escape :: "nat \<Rightarrow> nat option" where
  "short_escape c = map_of [(34, 34), (92, 92), (47, 47), (98, 8), (102, 12), (110, 10), (114, 13), (116, 9)] c"

definition push :: "'a \<Rightarrow> ('a list \<times> 'b) option \<Rightarrow> ('a list \<times> 'b) option" where
  "push x r = map_option (\<lambda>(xs, cs). (x # xs, cs)) r"

text \<open>The rest of a string after its opening quote. Surrogates are not accepted.\<close>

fun read_string :: "nat list \<Rightarrow> (nat list \<times> nat list) option" where
  "read_string [] = None"
| "read_string (c # cs) =
     (if c = 34 then Some ([], cs)
      else if c = 92 then
        (case cs of
           [] \<Rightarrow> None
         | e # r \<Rightarrow>
             if e = 117 then
               (case hex4 (take 4 r) of
                  None \<Rightarrow> None
                | Some x \<Rightarrow> if 0xD800 \<le> x \<and> x < 0xE000 then None else push x (read_string (drop 4 r)))
             else
               (case short_escape e of
                  None \<Rightarrow> None
                | Some x \<Rightarrow> push x (read_string r)))
      else if c < 32 then None
      else push c (read_string cs))"

definition is_digit :: "nat \<Rightarrow> bool" where
  "is_digit c \<longleftrightarrow> 48 \<le> c \<and> c \<le> 57"

definition digits_value :: "nat list \<Rightarrow> nat" where
  "digits_value cs = foldl (\<lambda>n c. 10 * n + (c - 48)) 0 cs"

definition read_number :: "nat list \<Rightarrow> (nat \<times> nat list) option" where
  "read_number cs =
     (let ds = takeWhile is_digit cs
      in if ds = [] \<or> hd ds = 48 \<and> length ds > 1 then None
         else Some (digits_value ds, dropWhile is_digit cs))"

text \<open>The first argument is fuel.\<close>

fun read_value :: "nat \<Rightarrow> nat list \<Rightarrow> (jtree \<times> nat list) option"
  and read_elems :: "nat \<Rightarrow> nat list \<Rightarrow> (jtree list \<times> nat list) option"
  and read_members :: "nat \<Rightarrow> nat list \<Rightarrow> ((nat list \<times> jtree) list \<times> nat list) option" where
  "read_value 0 cs = None"
| "read_value (Suc n) cs =
     (case cs of
        [] \<Rightarrow> None
      | c # r \<Rightarrow>
          if c = 110 then if take 3 r = [117, 108, 108] then Some (TNull, drop 3 r) else None
          else if c = 34 then map_option (\<lambda>(s, r). (TStr s, r)) (read_string r)
          else if c = 91 then
            if take 1 r = [93] then Some (TArr [], drop 1 r)
            else map_option (\<lambda>(vs, r). (TArr vs, r)) (read_elems n r)
          else if c = 123 then
            if take 1 r = [125] then Some (TObj [], drop 1 r)
            else map_option (\<lambda>(vs, r). (TObj vs, r)) (read_members n r)
          else map_option (\<lambda>(k, r). (TNum k, r)) (read_number cs))"
| "read_elems 0 cs = None"
| "read_elems (Suc n) cs =
     (case read_value n cs of
        None \<Rightarrow> None
      | Some (v, r) \<Rightarrow>
          if take 1 r = [44] then push v (read_elems n (drop 1 r))
          else if take 1 r = [93] then Some ([v], drop 1 r)
          else None)"
| "read_members 0 cs = None"
| "read_members (Suc n) cs =
     (if take 1 cs \<noteq> [34] then None
      else case read_string (drop 1 cs) of
        None \<Rightarrow> None
      | Some (k, r) \<Rightarrow>
          if take 1 r \<noteq> [58] then None
          else case read_value n (drop 1 r) of
            None \<Rightarrow> None
          | Some (v, r) \<Rightarrow>
              if take 1 r = [44] then push (k, v) (read_members n (drop 1 r))
              else if take 1 r = [125] then Some ([(k, v)], drop 1 r)
              else None)"

text \<open>
  A whole text. The bytes are valid UTF-8 if they are the encoding of their code points, that is
  if no byte had to be replaced.
\<close>

function valid_utf8 :: "bytes \<Rightarrow> bool" where
  "valid_utf8 s =
     (if s = [] then True
      else DecodeRune s \<noteq> (0xFFFD, 1) \<and> valid_utf8 (drop (snd (DecodeRune s)) s))"
  by pat_completeness auto
termination
  by (relation "measure length") (use DecodeRune_width in auto)

declare valid_utf8.simps [simp del]

definition json_read :: "bytes \<Rightarrow> jtree option" where
  "json_read bs =
     (let cs = range_runes bs
      in case read_value (2 * length cs) cs of
           Some (v, []) \<Rightarrow> if valid_utf8 bs then Some v else None
         | _ \<Rightarrow> None)"


section \<open>Bytes that spell code points\<close>

text \<open>\<open>bs\<close> is valid UTF-8 for \<open>cs\<close>, whatever follows.\<close>

definition spells :: "bytes \<Rightarrow> nat list \<Rightarrow> bool" where
  "spells bs cs \<longleftrightarrow> (\<forall>r. range_runes (bs @ r) = cs @ range_runes r \<and> (valid_utf8 (bs @ r) \<longleftrightarrow> valid_utf8 r))"

lemma spells_Nil: "spells [] []"
  by (simp add: spells_def)

lemma spells_append: "spells a x \<Longrightarrow> spells b y \<Longrightarrow> spells (a @ b) (x @ y)"
  by (simp add: spells_def)

lemma spells_rune:
  assumes "bs \<noteq> []" "\<And>r. DecodeRune (bs @ r) = (c, length bs)" "(c, length bs) \<noteq> (0xFFFD, 1)"
  shows "spells bs [c]"
  unfolding spells_def
  using assms by (subst range_runes.simps, subst valid_utf8.simps) simp

lemma spells_ascii: "list_all (\<lambda>b. b < 0x80) bs \<Longrightarrow> spells bs (map unat bs)"
proof (induction bs)
  case (Cons b bs)
  have "spells [b] [unat b]"
    by (rule spells_rune) (use Cons.prems DecodeRune_ascii [of b] in \<open>auto simp: word_less_nat_alt\<close>)
  then show ?case using spells_append [of "[b]" "[unat b]" bs "map unat bs"] Cons by simp
qed (simp add: spells_Nil)

lemma spells_whole: "spells bs cs \<Longrightarrow> range_runes bs = cs \<and> valid_utf8 bs"
  unfolding spells_def
  by (metis append.right_neutral append_Nil2 range_runes.simps valid_utf8.simps)

section \<open>Strings read back\<close>

lemma DecodeRune_low: "s \<noteq> [] \<Longrightarrow> fst (DecodeRune s) < 128 \<Longrightarrow> hd s < 0x80"
  using DecodeRune_high [of "hd s" "tl s"] by (cases "hd s < 0x80") simp_all

lemma DecodeRune_complete:
  assumes "DecodeRune s = (c, n)" "c \<noteq> 0xFFFD \<or> n \<noteq> 1" "s \<noteq> []"
  shows "n \<le> length s" "DecodeRune (take n s @ r) = (c, n)"
proof -
  obtain b0 s1 where s: "s = b0 # s1" using assms(3) by (cases s) auto
  note D = DecodeRune_def s
  have "n \<le> length s \<and> DecodeRune (take n s @ r) = (c, n)"
  proof (cases "b0 < 0x80")
    case True
    then show ?thesis using assms(1) by (auto simp add: D)
  next
    case 1: False
    show ?thesis
    proof (cases "0xC2 \<le> b0 \<and> b0 \<le> 0xDF")
      case True
      then show ?thesis using 1 assms(1,2) by (cases s1) (auto simp add: D split: if_splits)
    next
      case 2: False
      show ?thesis
      proof (cases "0xE0 \<le> b0 \<and> b0 \<le> 0xEF")
        case True
        then show ?thesis
          using 1 2 assms(1,2)
          by (cases s1; cases "tl s1") (simp_all only: D list.case list.sel if_False if_True, auto split: if_splits)
      next
        case 3: False
        then show ?thesis
          using 1 2 assms(1,2)
          by (cases s1; cases "tl s1"; cases "tl (tl s1)")
            (simp_all only: D list.case list.sel if_False if_True, auto split: if_splits)
      qed
    qed
  qed
  then show "n \<le> length s" "DecodeRune (take n s @ r) = (c, n)" by blast+
qed

text \<open>\<open>bs\<close> is a piece of a string that reads as the code point \<open>c\<close>.\<close>

definition reads_rune :: "bytes \<Rightarrow> nat \<Rightarrow> bool" where
  "reads_rune bs c \<longleftrightarrow> (\<exists>cs. spells bs cs \<and> (\<forall>r. read_string (cs @ r) = push c (read_string r)))"

lemma hex_value_hex_digit: "m < 16 \<Longrightarrow> hex_value (unat (hex_digit m)) = Some m"
  by (auto simp: hex_digit_def unat_of_nat_byte hex_value_def)

lemma hex_digit_ascii: "m < 16 \<Longrightarrow> hex_digit m < 0x80"
  by (auto simp: hex_digit_def word_less_nat_alt unat_of_nat_byte)

lemma reads_unicode:
  assumes "list_all (\<lambda>b. b < 0x80) h" "hex4 (map unat h) = Some c" "length h = 4" "\<not> (0xD800 \<le> c \<and> c < 0xE000)"
  shows "reads_rune ([92, 117] @ h) c"
  unfolding reads_rune_def
proof (intro exI conjI allI)
  show "spells ([92, 117] @ h) (map unat ([92, 117] @ h))"
    by (rule spells_ascii) (use assms(1) in simp)
  show "read_string (map unat ([92, 117] @ h) @ r) = push c (read_string r)" for r
    using assms by auto
qed

lemma reads_short:
  assumes "b < 0x80" "b \<noteq> 117" "short_escape (unat b) = Some c"
  shows "reads_rune [92, b] c"
  unfolding reads_rune_def
proof (intro exI conjI allI)
  show "spells [92, b] (map unat [92, b])" by (rule spells_ascii) (use assms(1) in simp)
  have "unat b \<noteq> unat (117 :: byte)" using assms(2) by (simp only: word_unat_eq_iff not_False_eq_True)
  then show "read_string (map unat [92, b] @ r) = push c (read_string r)" for r
    using assms(3) by simp
qed

lemma reads_plain:
  assumes "spells bs [c]" "32 \<le> c" "c \<noteq> 34" "c \<noteq> 92"
  shows "reads_rune bs c"
  unfolding reads_rune_def using assms by (intro exI [of _ "[c]"]) simp

lemma reads_escape:
  assumes "c < 128" "\<not> htmlSafe c"
  shows "reads_rune (json_escape c) c"
proof (cases "c \<in> {34, 92, 8, 12, 10, 13, 9}")
  case True
  then show ?thesis by (auto simp: json_escape_def short_escape_def intro!: reads_short)
next
  case False
  have h: "c div 16 < 16" "c mod 16 < 16" using assms(1) by simp_all
  have "reads_rune ([92, 117] @ [48, 48, hex_digit (c div 16), hex_digit (c mod 16)]) c"
    by (rule reads_unicode)
      (use h assms(1) in \<open>simp_all add: hex_digit_ascii hex4_def hex_value_hex_digit, simp_all add: hex_value_def\<close>)
  then show ?thesis using False by (simp add: json_escape_def str_def)
qed

lemma reads_piece:
  assumes "DecodeRune s = (c, n)" "s \<noteq> []"
  shows "reads_rune (json_piece c n s) c"
proof (cases "c < 128")
  case True
  then have "hd s < 0x80" using DecodeRune_low [OF assms(2)] assms(1) by simp
  then have "take n s = [hd s]" "c = unat (hd s)"
    using DecodeRune_ascii [of "hd s" "tl s"] assms by (auto simp: take_Suc)
  moreover from this have "htmlSafe c \<Longrightarrow> reads_rune [hd s] c"
    using spells_ascii [of "[hd s]"] \<open>hd s < 0x80\<close> by (intro reads_plain) (auto simp: htmlSafe_def)
  ultimately show ?thesis using True reads_escape by (simp add: json_piece_def)
next
  case False
  consider (invalid) "c = 0xFFFD" "n = 1" | (line) "c = 0x2028 \<or> c = 0x2029" | (plain) "c \<noteq> 0xFFFD \<or> n \<noteq> 1" "c \<noteq> 0x2028" "c \<noteq> 0x2029"
    by blast
  then show ?thesis
  proof cases
    case invalid
    have "reads_rune ([92, 117] @ [102, 102, 102, 100]) 0xFFFD"
      by (rule reads_unicode) (simp_all add: hex4_def hex_value_def)
    then show ?thesis using invalid by (simp add: json_piece_def str_def)
  next
    case line
    then have "reads_rune ([92, 117] @ [50, 48, 50, hex_digit (c mod 16)]) c"
      by (intro reads_unicode) (auto simp: hex4_def hex_value_def hex_digit_def)
    then show ?thesis using line by (auto simp: json_piece_def str_def)
  next
    case plain
    note dc = DecodeRune_complete [OF assms(1) plain(1) assms(2)]
    have "spells (take n s) [c]"
      using dc plain(1) assms DecodeRune_width [of s] by (intro spells_rune) (auto simp: min_def)
    then show ?thesis using False plain by (auto simp: json_piece_def intro: reads_plain)
  qed
qed

lemma quote_body_reads: "\<exists>cs. spells (quote_body s) cs \<and> (\<forall>r. read_string (cs @ 34 # r) = Some (range_runes s, r))"
proof (induction s rule: quote_body.induct)
  case (1 s)
  show ?case
  proof (cases "s = []")
    case True
    then show ?thesis
      by (intro exI [of _ "[]"]) (simp add: spells_Nil quote_body.simps [of "[]"] range_runes.simps [of "[]"])
  next
    case False
    obtain c n where d: "DecodeRune s = (c, n)" by fastforce
    obtain xs where xs: "spells (quote_body (drop n s)) xs"
        "\<And>r. read_string (xs @ 34 # r) = Some (range_runes (drop n s), r)"
      using 1 [OF False d [symmetric] refl] by blast
    obtain ys where ys: "spells (json_piece c n s) ys" "\<And>r. read_string (ys @ r) = push c (read_string r)"
      using reads_piece [OF d False] by (auto simp: reads_rune_def)
    have "quote_body s = json_piece c n s @ quote_body (drop n s)" "range_runes s = c # range_runes (drop n s)"
      using False d by (subst quote_body.simps range_runes.simps, simp)+
    then show ?thesis
      using xs ys by (intro exI [of _ "ys @ xs"]) (simp add: spells_append push_def)
  qed
qed

section \<open>Plain text and numbers read back\<close>

definition plain_char :: "byte \<Rightarrow> bool" where
  "plain_char b \<longleftrightarrow> 32 \<le> b \<and> b < 0x80 \<and> b \<noteq> 34 \<and> b \<noteq> 92"

lemma plain_char_unat:
  assumes "plain_char b"
  shows "32 \<le> unat b" "unat b \<noteq> 34" "unat b \<noteq> 92"
proof -
  have "unat b \<noteq> unat (34 :: byte)" "unat b \<noteq> unat (92 :: byte)"
    using assms by (simp_all only: plain_char_def word_unat_eq_iff not_False_eq_True)
  then show "32 \<le> unat b" "unat b \<noteq> 34" "unat b \<noteq> 92"
    using assms by (simp_all add: plain_char_def word_le_nat_alt)
qed

lemma plain_spells: "list_all plain_char bs \<Longrightarrow> spells bs (map unat bs)"
  by (rule spells_ascii) (auto simp: plain_char_def list_all_iff)

lemma plain_read: "list_all plain_char bs \<Longrightarrow> read_string (map unat bs @ 34 # r) = Some (map unat bs, r)"
  by (induction bs) (auto simp: push_def dest: plain_char_unat)

lemma unat_digit: "m < 10 \<Longrightarrow> unat (word_of_nat (48 + m) :: byte) = 48 + m"
  by (simp only: unat_of_nat_byte)

lemma plain_digit: "m < 10 \<Longrightarrow> plain_char (word_of_nat (48 + m))"
  by (auto simp: plain_char_def word_le_nat_alt word_less_nat_alt word_unat_eq_iff unat_digit simp del: of_nat_add)

lemma is_digit_digit: "m < 10 \<Longrightarrow> is_digit (48 + m)"
  by (simp add: is_digit_def)

lemma decimal_digits: "list_all plain_char (decimal n) \<and> list_all is_digit (map unat (decimal n))"
proof (induction n rule: decimal.induct)
  case (1 n)
  then show ?case
    by (subst (1 2) decimal.simps) (simp add: plain_digit unat_digit is_digit_digit del: of_nat_add)
qed

lemma decimal_not_Nil: "decimal n \<noteq> []"
  by (subst decimal.simps) simp

lemma decimal_value: "digits_value (map unat (decimal n)) = n"
proof (induction n rule: decimal.induct)
  case (1 n)
  then show ?case
    by (subst decimal.simps) (simp add: digits_value_def unat_digit del: of_nat_add)
qed

lemma decimal_hd: "10 \<le> n \<Longrightarrow> unat (hd (decimal n)) \<noteq> 48"
proof (induction n rule: decimal.induct)
  case (1 n)
  show ?case
  proof (cases "n div 10 < 10")
    case True
    then have "decimal (n div 10) = [word_of_nat (48 + n div 10)]" by (subst decimal.simps) simp
    then show ?thesis using "1.prems" True by (subst decimal.simps) (simp add: unat_digit del: of_nat_add)
  next
    case False
    then show ?thesis using 1 decimal_not_Nil by (subst decimal.simps) simp
  qed
qed

lemma read_decimal:
  assumes "list_all (\<lambda>c. \<not> is_digit c) (take 1 r)"
  shows "read_number (map unat (decimal n) @ r) = Some (n, r)"
proof -
  let ?ds = "map unat (decimal n)"
  have "takeWhile is_digit (?ds @ r) = ?ds" "dropWhile is_digit (?ds @ r) = r"
    using decimal_digits [of n] assms
    by (cases r; simp add: takeWhile_append dropWhile_append list_all_iff)+
  moreover have "?ds \<noteq> []" by (simp add: decimal_not_Nil)
  moreover have "\<not> (hd ?ds = 48 \<and> length ?ds > 1)"
  proof (cases "n < 10")
    case True
    then show ?thesis by (subst (2) decimal.simps) simp
  next
    case False
    then show ?thesis using decimal_hd [of n] \<open>?ds \<noteq> []\<close> by (simp add: hd_map)
  qed
  ultimately show ?thesis by (simp add: read_number_def Let_def decimal_value)
qed

lemma plain_b64: "n < 64 \<Longrightarrow> plain_char (b64_char n)"
  by (auto simp: b64_char_def plain_char_def word_le_nat_alt word_less_nat_alt word_unat_eq_iff unat_of_nat_byte
      simp del: of_nat_add of_nat_diff)

lemma plain_base64: "list_all plain_char (base64 bs)"
  by (induction bs rule: base64.induct)
    (simp_all add: b64_quad_def plain_b64, simp_all add: plain_char_def)

lemma plain_pad: "list_all plain_char (pad_decimal k n)"
  using decimal_digits [of "nat n"] plain_digit [of 0] by (auto simp: pad_decimal_def list_all_iff)

lemma plain_format: "list_all plain_char (format_RFC3339Nano t)"
proof -
  have "list_all plain_char (rev (dropWhile P (rev bs)))" if "list_all plain_char bs" for P bs
    using that by (auto simp: list_all_iff dest: set_dropWhileD)
  then have "list_all plain_char (format_fraction t)"
    using plain_pad by (simp add: format_fraction_def str_def plain_char_def)
  moreover have "list_all plain_char (format_zone t)"
    using plain_pad by (simp add: format_zone_def str_def Let_def plain_char_def)
  ultimately show ?thesis
    using plain_pad by (simp add: format_RFC3339Nano_def str_def, simp add: plain_char_def)
qed

section \<open>Values read back\<close>

text \<open>What a value means to a reader: strings are sequences of code points.\<close>

fun tree_of :: "jval \<Rightarrow> jtree" where
  "tree_of JNull = TNull"
| "tree_of (JUint n) = TNum n"
| "tree_of (JString s) = TStr (range_runes s)"
| "tree_of (JBytes bs) = TStr (map unat (base64 bs))"
| "tree_of (JTime t) = TStr (map unat (format_RFC3339Nano t))"
| "tree_of (JArray vs) = TArr (map tree_of vs)"
| "tree_of (JObject fs) = TObj (map (\<lambda>(k, v). (range_runes (str k), tree_of v)) fs)"

text \<open>The fuel that reading a value needs.\<close>

fun jsize :: "jval \<Rightarrow> nat" where
  "jsize (JArray vs) = Suc (sum_list (map (\<lambda>v. Suc (jsize v)) vs))"
| "jsize (JObject fs) = Suc (sum_list (map (\<lambda>(k, v). Suc (jsize v)) fs))"
| "jsize _ = 1"

definition reads :: "bytes \<Rightarrow> nat \<Rightarrow> jtree \<Rightarrow> bool" where
  "reads bs k v \<longleftrightarrow>
     (\<exists>cs. spells bs cs \<and> k < 2 * length cs \<and> take 1 cs \<noteq> [93] \<and> take 1 cs \<noteq> [125] \<and>
        (\<forall>n r. k \<le> n \<longrightarrow> list_all (\<lambda>c. \<not> is_digit c) (take 1 r) \<longrightarrow> read_value n (cs @ r) = Some (v, r)))"

text \<open>
  A sequence of elements (or members) that ends with the bracket \<open>e\<close>; all but the first part of a
  sequence begins with a comma.
\<close>

definition reads_seq :: "(nat \<Rightarrow> nat list \<Rightarrow> ('a list \<times> nat list) option) \<Rightarrow> nat \<Rightarrow> bytes \<Rightarrow> bool \<Rightarrow> nat \<Rightarrow> 'a list \<Rightarrow> bool" where
  "reads_seq rd e bs first k xs \<longleftrightarrow>
     (\<exists>cs. spells bs ((if first \<or> xs = [] then [] else [44]) @ cs) \<and> k \<le> 2 * length cs \<and>
        (if xs = [] then cs = []
         else take 1 cs \<noteq> [e] \<and> cs \<noteq> [] \<and> (\<forall>n r. k \<le> n \<longrightarrow> rd n (cs @ e # r) = Some (xs, r))))"

lemma readsI:
  assumes "spells bs cs" "k < 2 * length cs" "take 1 cs \<noteq> [93]" "take 1 cs \<noteq> [125]"
    and "\<And>n r. k \<le> Suc n \<Longrightarrow> list_all (\<lambda>c. \<not> is_digit c) (take 1 r) \<Longrightarrow> read_value (Suc n) (cs @ r) = Some (v, r)" "0 < k"
  shows "reads bs k v"
  unfolding reads_def
proof (intro exI [of _ cs] conjI allI impI assms(1-4))
  fix n r
  assume "k \<le> n" "list_all (\<lambda>c. \<not> is_digit c) (take 1 r)"
  then show "read_value n (cs @ r) = Some (v, r)" using assms(5) [of "n - 1" r] assms(6) by (cases n) auto
qed

lemma reads_quoted:
  assumes "spells bs cs" "\<And>r. read_string (cs @ 34 # r) = Some (x, r)"
  shows "reads ([34] @ bs @ [34]) 1 (TStr x)"
proof (rule readsI)
  have "spells [34 :: byte] [34]" using spells_ascii [of "[34]"] by simp
  then show "spells ([34] @ bs @ [34]) ([34] @ cs @ [34])" using assms(1) by (intro spells_append)
qed (use assms(2) in simp_all)

lemma reads_plain_string: "list_all plain_char bs \<Longrightarrow> reads ([34] @ bs @ [34]) 1 (TStr (map unat bs))"
  by (rule reads_quoted [OF plain_spells plain_read])

lemma reads_decimal: "reads (decimal n) 1 (TNum n)"
proof (rule readsI)
  let ?ds = "map unat (decimal n)"
  have d: "list_all is_digit ?ds" and p: "list_all plain_char (decimal n)" using decimal_digits by blast+
  obtain c ds where c: "?ds = c # ds" using decimal_not_Nil [of n] by (cases "decimal n") auto
  then have "is_digit c" using d by simp
  then have nc: "c \<noteq> 93" "c \<noteq> 125" "c \<noteq> 110" "c \<noteq> 34" "c \<noteq> 91" "c \<noteq> 123" by (auto simp: is_digit_def)
  show "spells (decimal n) ?ds" by (rule plain_spells [OF p])
  show "1 < 2 * length ?ds" "take 1 ?ds \<noteq> [93]" "take 1 ?ds \<noteq> [125]" using c nc by simp_all
  show "read_value (Suc m) (?ds @ r) = Some (TNum n, r)" if "list_all (\<lambda>c. \<not> is_digit c) (take 1 r)" for m r
    using read_decimal [OF that, of n] c nc by simp
qed simp

lemma reads_null: "reads (str ''null'') 1 TNull"
proof (rule readsI)
  show "spells (str ''null'') (map unat (str ''null''))" by (rule spells_ascii) (simp add: str_def)
qed (simp_all add: str_def)

lemma spells_byte: "b < 0x80 \<Longrightarrow> spells [b] [unat b]"
  using spells_ascii [of "[b]"] by simp

lemma reads_seq_Nil: "reads_seq rd e [] first 0 []"
  by (simp add: reads_seq_def spells_Nil)

lemma reads_array:
  assumes "reads_seq read_elems 93 b True k xs"
  shows "reads ([91] @ b @ [93]) (Suc k) (TArr xs)"
proof -
  obtain cs where cs: "spells b cs" "k \<le> 2 * length cs"
      "if xs = [] then cs = [] else take 1 cs \<noteq> [93] \<and> cs \<noteq> [] \<and> (\<forall>n r. k \<le> n \<longrightarrow> read_elems n (cs @ 93 # r) = Some (xs, r))"
    using assms by (auto simp: reads_seq_def)
  show ?thesis
  proof (rule readsI)
    show "spells ([91] @ b @ [93]) ([unat (91 :: byte)] @ cs @ [unat (93 :: byte)])"
      by (intro spells_append cs(1) spells_byte) simp_all
    show "read_value (Suc n) (([unat (91 :: byte)] @ cs @ [unat (93 :: byte)]) @ r) = Some (TArr xs, r)"
      if "Suc k \<le> Suc n" for n r
      using cs(3) that by (cases cs) (auto split: if_splits)
  qed (use cs(2) in simp_all)
qed

lemma reads_object:
  assumes "reads_seq read_members 125 b True k xs"
  shows "reads ([123] @ b @ [125]) (Suc k) (TObj xs)"
proof -
  obtain cs where cs: "spells b cs" "k \<le> 2 * length cs"
      "if xs = [] then cs = [] else take 1 cs \<noteq> [125] \<and> cs \<noteq> [] \<and> (\<forall>n r. k \<le> n \<longrightarrow> read_members n (cs @ 125 # r) = Some (xs, r))"
    using assms by (auto simp: reads_seq_def)
  show ?thesis
  proof (rule readsI)
    show "spells ([123] @ b @ [125]) ([unat (123 :: byte)] @ cs @ [unat (125 :: byte)])"
      by (intro spells_append cs(1) spells_byte) simp_all
    show "read_value (Suc n) (([unat (123 :: byte)] @ cs @ [unat (125 :: byte)]) @ r) = Some (TObj xs, r)"
      if "Suc k \<le> Suc n" for n r
      using cs(3) that by (cases cs) (auto split: if_splits)
  qed (use cs(2) in simp_all)
qed

lemma reads_seq_Cons:
  assumes x: "spells b cs" "k < 2 * length cs" "take 1 cs \<noteq> [e]"
    and one: "\<And>n r. k \<le> n \<Longrightarrow> rd (Suc n) (cs @ e # r) = Some ([x], r)"
    and more: "\<And>n r. k \<le> n \<Longrightarrow> rd (Suc n) (cs @ 44 # r) = push x (rd n r)"
    and rest: "reads_seq rd e b' False k' xs"
  shows "reads_seq rd e ((if first then [] else [44]) @ b @ b') first (Suc (k + k')) (x # xs)"
proof -
  obtain cs' where cs': "spells b' ((if xs = [] then [] else [44]) @ cs')" "k' \<le> 2 * length cs'"
      "if xs = [] then cs' = [] else (\<forall>n r. k' \<le> n \<longrightarrow> rd n (cs' @ e # r) = Some (xs, r))"
    using rest by (auto simp: reads_seq_def split: if_splits)
  let ?cs = "cs @ (if xs = [] then [] else [44]) @ cs'"
  have "spells (b @ b') ?cs" by (rule spells_append [OF x(1) cs'(1)])
  moreover from this have "spells ([44] @ b @ b') ([unat (44 :: byte)] @ ?cs)"
    by (intro spells_append [of "[44]"] spells_byte) simp_all
  ultimately have "spells ((if first then [] else [44]) @ b @ b') ((if first then [] else [unat (44 :: byte)]) @ ?cs)"
    by simp
  moreover have "rd n (?cs @ e # r) = Some (x # xs, r)" if "Suc (k + k') \<le> n" for n r
  proof -
    define m where "m = n - 1"
    then have m: "n = Suc m" "k \<le> m" "k' \<le> m" using that by simp_all
    then show ?thesis using one [of m r] more [of m "cs' @ e # r"] cs'(3) by (auto simp: push_def split: if_splits)
  qed
  moreover have "Suc (k + k') \<le> 2 * length ?cs" using x(2) cs'(2) by simp
  moreover have "take 1 ?cs \<noteq> [e]" "?cs \<noteq> []" using x(2,3) by (cases cs; simp)+
  ultimately show ?thesis
    unfolding reads_seq_def by (intro exI [of _ ?cs]) auto
qed

lemma reads_elems_Cons:
  assumes "reads b k x" "reads_seq read_elems 93 b' False k' xs"
  shows "reads_seq read_elems 93 ((if first then [] else [44]) @ b @ b') first (Suc (k + k')) (x # xs)"
proof -
  obtain cs where cs: "spells b cs" "k < 2 * length cs" "take 1 cs \<noteq> [93]"
      "\<And>n r. k \<le> n \<Longrightarrow> list_all (\<lambda>c. \<not> is_digit c) (take 1 r) \<Longrightarrow> read_value n (cs @ r) = Some (x, r)"
    using assms(1) by (auto simp: reads_def)
  show ?thesis
    by (rule reads_seq_Cons [OF cs(1-3) _ _ assms(2)]) (simp_all add: cs(4) is_digit_def)
qed

lemma reads_members_Cons:
  assumes "reads b k x" "reads_seq read_members 125 b' False k' xs"
  shows "reads_seq read_members 125 ((if first then [] else [44]) @ (quote key @ [58] @ b) @ b') first (Suc (k + k'))
    ((range_runes key, x) # xs)"
proof -
  obtain cs where cs: "spells b cs" "k < 2 * length cs"
      "\<And>n r. k \<le> n \<Longrightarrow> list_all (\<lambda>c. \<not> is_digit c) (take 1 r) \<Longrightarrow> read_value n (cs @ r) = Some (x, r)"
    using assms(1) by (auto simp: reads_def)
  obtain ks where ks: "spells (quote_body key) ks" "\<And>r. read_string (ks @ 34 # r) = Some (range_runes key, r)"
    using quote_body_reads by blast
  have "spells (quote key @ [58] @ b) (([unat (34 :: byte)] @ ks @ [unat (34 :: byte)]) @ [unat (58 :: byte)] @ cs)"
    unfolding quote_def by (intro spells_append ks(1) cs(1) spells_byte) simp_all
  then show ?thesis
    by (rule reads_seq_Cons [OF _ _ _ _ _ assms(2)]) (use cs(2) in \<open>simp_all add: cs(3) ks(2) is_digit_def\<close>)
qed

lemma map_sum_Inr_iff: "map_sum id f x = Inr y \<longleftrightarrow> (\<exists>z. x = Inr z \<and> y = f z)"
  by (cases x) auto

lemmas reads_leaf =
  reads_null [unfolded str_def, simplified] reads_decimal [simplified]
  reads_plain_string [OF plain_base64, simplified] reads_plain_string [OF plain_format, simplified]

lemma encode_reads:
  "encode v = Inr b \<Longrightarrow> reads b (jsize v) (tree_of v)"
  "encode_elems first vs = Inr b \<Longrightarrow>
     reads_seq read_elems 93 b first (sum_list (map (\<lambda>v. Suc (jsize v)) vs)) (map tree_of vs)"
  "encode_fields first fs = Inr b \<Longrightarrow>
     reads_seq read_members 125 b first (sum_list (map (\<lambda>(k, v). Suc (jsize v)) fs))
       (map (\<lambda>(k, v). (range_runes (str k), tree_of v)) fs)"
proof (induction v and first vs and first fs arbitrary: b and b and b rule: encode_encode_elems_encode_fields.induct)
  case (3 s)
  then show ?case using quote_body_reads [of s] reads_quoted by (auto simp: quote_def)
next
  case (9 first v vs)
  then obtain x r where "encode v = Inr x" "encode_elems False vs = Inr r" "b = (if first then [] else [44]) @ x @ r"
    by (auto simp: str_def map_sum_Inr_iff split: sum.splits)
  then show ?case using 9 reads_elems_Cons by fastforce
next
  case (11 first k v fs)
  then obtain x r where "encode v = Inr x" "encode_fields False fs = Inr r"
      "b = (if first then [] else [44]) @ (quote (str k) @ [58] @ x) @ r"
    by (auto simp: str_def map_sum_Inr_iff split: sum.splits)
  then show ?case using 11 reads_members_Cons by fastforce
qed (auto simp: map_sum_Inr_iff MarshalJSON_def reads_seq_Nil str_def reads_leaf reads_array [simplified] reads_object [simplified]
    split: if_splits)


section \<open>Whole texts\<close>

lemma json_read_encode:
  assumes "encode v = Inr b"
  shows "json_read b = Some (tree_of v)"
proof -
  obtain cs where cs: "spells b cs" "jsize v < 2 * length cs"
      "\<And>n r. jsize v \<le> n \<Longrightarrow> list_all (\<lambda>c. \<not> is_digit c) (take 1 r) \<Longrightarrow> read_value n (cs @ r) = Some (tree_of v, r)"
    using encode_reads(1) [OF assms] by (auto simp: reads_def)
  then have "range_runes b = cs" "valid_utf8 b" using spells_whole by blast+
  then show ?thesis using cs(2) cs(3) [of "2 * length cs" "[]"] by (simp add: json_read_def)
qed

text \<open>A message, and its body byte by byte (92 is the backslash of an escape).\<close>

definition sample_msg :: "gostring \<Rightarrow> ForwardMsg" where
  "sample_msg vin = newForwardMsg ''logout'' vin (FLogout \<lparr>LogoutTime = Date 2026 6 15 18 48 30, LogoutSequence = 7\<rparr>)"

lemma sample_body:
  \<open>Marshal (sample_msg (str ''A<1'')) =
     Inr (str ''{"type":"logout","vin":"A'' @ [92] @ str ''u003c1","data":{"LogoutTime":"2026-06-15T18:48:30Z","Sequence":7}}'')\<close>
  by code_simp

end
