(* ===== verification/Json_Lossless.thy ===== *)
theory Json_Lossless
  imports Json_Props
begin

text \<open>
  Nothing of a message is lost in its body: base64 can be decoded, the text of a time determines
  the time, and so two messages with the same body are equal. Then the messages that the
  decoders make: their times are in UTC and in the years that can be encoded, so encoding them
  never fails.
\<close>

section \<open>Byte slices\<close>

definition b64_value :: "byte \<Rightarrow> nat" where
  "b64_value b =
     (let c = unat b
      in if 65 \<le> c \<and> c \<le> 90 then c - 65 else if 97 \<le> c \<and> c \<le> 122 then c - 71
         else if 48 \<le> c \<and> c \<le> 57 then c + 4 else if c = 43 then 62 else if c = 47 then 63 else 0)"

definition b64_bytes :: "nat \<Rightarrow> bytes" where
  "b64_bytes n = [word_of_nat (n div 65536), word_of_nat (n div 256 mod 256), word_of_nat (n mod 256)]"

fun unbase64 :: "gostring \<Rightarrow> bytes" where
  "unbase64 (a # b # c # d # r) =
     take (if c = 61 then 1 else if d = 61 then 2 else 3)
       (b64_bytes (b64_value a * 262144 + b64_value b * 4096 + b64_value c * 64 + b64_value d)) @ unbase64 r"
| "unbase64 _ = []"

lemma b64_value_char: "n < 64 \<Longrightarrow> b64_value (b64_char n) = n"
  by (auto simp: b64_value_def b64_char_def Let_def unat_of_nat_byte simp del: of_nat_add of_nat_diff)

lemma b64_char_not_pad: "n < 64 \<Longrightarrow> b64_char n \<noteq> 61"
proof
  assume n: "n < 64" and "b64_char n = 61"
  then have "unat (b64_char n) = 61" by simp
  with n show False by (auto simp: b64_char_def unat_of_nat_byte simp del: of_nat_add of_nat_diff split: if_splits)
qed

lemma b64_value_pad: "b64_value 61 = 0"
  by (simp add: b64_value_def)

lemma b64_quad_sum:
  assumes "n < (16777216 :: nat)"
  shows "n div 262144 mod 64 * 262144 + n div 4096 mod 64 * 4096 + n div 64 mod 64 * 64 + n mod 64 = n"
proof -
  have "n div 4096 = 64 * (n div 262144) + n div 4096 mod 64" "n div 64 = 64 * (n div 4096) + n div 64 mod 64"
    "n = 64 * (n div 64) + n mod 64" "n div 262144 mod 64 = n div 262144"
    using assms mult_div_mod_eq [of 64 "n div 4096"] mult_div_mod_eq [of 64 "n div 64"]
    by (simp_all add: div_mult2_eq [symmetric] less_mult_imp_div_less)
  then show ?thesis by linarith
qed

lemma b64_bytes_eq:
  assumes "a < 256" "b < 256" "c < 256"
  shows "b64_bytes (a * 65536 + b * 256 + c) = [word_of_nat a, word_of_nat b, word_of_nat c]"
proof -
  let ?n = "a * 65536 + b * 256 + c"
  have "?n = c + 256 * (256 * a + b)" by simp
  then have "?n mod 256 = c" using assms(3) by (simp only: mod_mult_self2 mod_less)
  moreover have "?n div 65536 = a" "?n div 256 = a * 256 + b" "(a * 256 + b) mod 256 = b"
    using assms by (simp_all add: div_nat_eqI)
  ultimately show ?thesis by (simp add: b64_bytes_def)
qed

lemma unbase64_base64: "unbase64 (base64 bs) = bs"
proof (induction bs rule: base64.induct)
  case (1 a b c bs)
  let ?n = "unat a * 65536 + unat b * 256 + unat c"
  have "?n < 16777216" using unat_byte_less [of a] unat_byte_less [of b] unat_byte_less [of c] by linarith
  then show ?case
    using 1 b64_bytes_eq [of "unat a" "unat b" "unat c"] b64_quad_sum [of ?n]
    by (simp add: b64_quad_def b64_value_char b64_char_not_pad unat_byte_less)
next
  case (2 a b)
  let ?n = "unat a * 65536 + unat b * 256"
  have "?n < 16777216" using unat_byte_less [of a] unat_byte_less [of b] by linarith
  moreover have "?n mod 64 = 0" by (simp add: mod_add_eq [symmetric] mod_mult_right_eq [symmetric] mod_mult_left_eq [symmetric])
  ultimately show ?case
    using b64_bytes_eq [of "unat a" "unat b" 0] b64_quad_sum [of ?n]
    by (simp add: b64_quad_def b64_value_char b64_char_not_pad b64_value_pad unat_byte_less)
next
  case (3 a)
  let ?n = "unat a * 65536"
  have "?n < 16777216" using unat_byte_less [of a] by linarith
  moreover have "?n mod 64 = 0" "?n div 64 mod 64 = 0"
    by (simp_all add: mod_mult_right_eq [symmetric] div_mult_swap [symmetric])
  moreover have "unat a div 4 mod 64 = unat a div 4" using unat_byte_less [of a] by (simp add: less_mult_imp_div_less)
  ultimately show ?case
    using b64_bytes_eq [of "unat a" 0 0] b64_quad_sum [of ?n]
    by (simp add: b64_quad_def b64_value_char b64_char_not_pad b64_value_pad unat_byte_less)
qed simp

lemma base64_inject: "base64 bs = base64 bs' \<longleftrightarrow> bs = bs'"
  by (metis unbase64_base64)

section \<open>Times\<close>

lemma length_pad_decimal: "0 \<le> n \<Longrightarrow> n < 10 ^ k \<Longrightarrow> 0 < k \<Longrightarrow> length (pad_decimal k n) = k"
  using length_decimal [of "nat n" k] by (simp add: pad_decimal_def nat_less_iff)

lemma digits_value_pad: "digits_value (map unat (pad_decimal k n)) = nat n"
proof -
  have "foldl (\<lambda>n c. 10 * n + (c - 48)) 0 (map unat (replicate j (48 :: byte))) = 0" for j
    by (induction j) simp_all
  then show ?thesis using decimal_value [of "nat n"] by (simp add: pad_decimal_def digits_value_def)
qed

lemma pad_decimal_inject: "0 \<le> n \<Longrightarrow> 0 \<le> m \<Longrightarrow> pad_decimal k n = pad_decimal k m \<longleftrightarrow> n = m"
  by (metis digits_value_pad nat_0_le)

definition utc_second :: "Time \<Rightarrow> bool" where
  "utc_second t \<longleftrightarrow> toff t = 0 \<and> tnsec t = 0"

definition encodable_time :: "Time \<Rightarrow> bool" where
  "encodable_time t \<longleftrightarrow> utc_second t \<and> 0 \<le> Year t \<and> Year t \<le> 9999"

lemma MarshalJSON_encodable: "encodable_time t \<Longrightarrow> MarshalJSON t = Inr ([34] @ format_RFC3339Nano t @ [34])"
  by (simp add: encodable_time_def utc_second_def MarshalJSON_def)

lemma format_inject:
  assumes "encodable_time t" "encodable_time t'" "format_RFC3339Nano t = format_RFC3339Nano t'"
  shows "t = t'"
proof -
  have l4: "length (pad_decimal 4 (Year u)) = 4" if "encodable_time u" for u
    using that by (intro length_pad_decimal) (simp_all add: encodable_time_def)
  have l2: "length (pad_decimal 2 (Month u)) = 2" "length (pad_decimal 2 (Day u)) = 2" "length (pad_decimal 2 (Hour u)) = 2"
    "length (pad_decimal 2 (Minute u)) = 2" "length (pad_decimal 2 (Second u)) = 2" for u
    using accessor_ranges [of u] by (simp_all add: length_pad_decimal)
  have nn: "0 \<le> Month u" "0 \<le> Day u" "0 \<le> Hour u" "0 \<le> Minute u" "0 \<le> Second u" for u
    using accessor_ranges [of u] by linarith+
  have "pad_decimal 4 (Year t) = pad_decimal 4 (Year t') \<and> pad_decimal 2 (Month t) = pad_decimal 2 (Month t') \<and>
      pad_decimal 2 (Day t) = pad_decimal 2 (Day t') \<and> pad_decimal 2 (Hour t) = pad_decimal 2 (Hour t') \<and>
      pad_decimal 2 (Minute t) = pad_decimal 2 (Minute t') \<and> pad_decimal 2 (Second t) = pad_decimal 2 (Second t')"
    using assms(3) l4 [OF assms(1)] l4 [OF assms(2)] by (simp add: format_RFC3339Nano_def l2)
  moreover have "0 \<le> Year t" "0 \<le> Year t'" using assms(1,2) by (simp_all add: encodable_time_def)
  ultimately have "Year t = Year t'" "Month t = Month t'" "Day t = Day t'" "Hour t = Hour t'" "Minute t = Minute t'" "Second t = Second t'"
    by (simp_all only: pad_decimal_inject nn)
  moreover have "Date (Year u) (Month u) (Day u) (Hour u) (Minute u) (Second u) = u" if "encodable_time u" for u
    using that by (intro Date_accessors) (simp_all add: encodable_time_def utc_second_def)
  ultimately show ?thesis using assms(1,2) by metis
qed

section \<open>Structures\<close>

text \<open>The tree of a structure determines the structure.\<close>

lemma unat_inject: "unat x = unat y \<longleftrightarrow> x = y"
  by (simp add: word_unat_eq_iff)

lemma map_unat_inject: "map unat xs = map unat ys \<longleftrightarrow> xs = (ys :: byte list)"
  by (simp add: inj_map_eq_map inj_def word_unat_eq_iff)

lemmas tree_simps = unat_inject map_unat_inject base64_inject

lemma tree_jslice:
  "(\<And>x y. tree_of (f x) = tree_of (f y) \<longleftrightarrow> x = y) \<Longrightarrow> tree_of (jslice f xs) = tree_of (jslice f ys) \<longleftrightarrow> xs = ys"
  by (auto simp: jslice_def inj_def comp_def intro: map_injective)

lemma tree_jpointer:
  assumes "\<And>x y. tree_of (f x) = tree_of (f y) \<longleftrightarrow> x = y" "\<And>x. \<exists>fs. f x = JObject fs"
  shows "tree_of (jpointer f p) = tree_of (jpointer f q) \<longleftrightarrow> p = q"
  using assms(1) assms(2) by (cases p; cases q) (auto simp: jpointer_def, (metis jtree.distinct(7) tree_of.simps(7))+)

lemma tree_struct:
  "tree_of (json_VehicleBaseInfo v) = tree_of (json_VehicleBaseInfo v') \<longleftrightarrow> v = v'"
  "tree_of (json_MotorInfo m) = tree_of (json_MotorInfo m') \<longleftrightarrow> m = m'"
  "tree_of (json_FuelCellInfo f) = tree_of (json_FuelCellInfo f') \<longleftrightarrow> f = f'"
  "tree_of (json_EngineInfo e) = tree_of (json_EngineInfo e') \<longleftrightarrow> e = e'"
  "tree_of (json_PositionInfo p) = tree_of (json_PositionInfo p') \<longleftrightarrow> p = p'"
  "tree_of (json_ExtremeInfo x) = tree_of (json_ExtremeInfo x') \<longleftrightarrow> x = x'"
  "tree_of (json_AlarmInfo a) = tree_of (json_AlarmInfo a') \<longleftrightarrow> a = a'"
  "tree_of (json_CellInfo ci) = tree_of (json_CellInfo ci') \<longleftrightarrow> ci = ci'"
  "tree_of (json_ConfigField cf) = tree_of (json_ConfigField cf') \<longleftrightarrow> cf = cf'"
proof -
  show "tree_of (json_VehicleBaseInfo v) = tree_of (json_VehicleBaseInfo v') \<longleftrightarrow> v = v'"
    by (cases v; cases v') (auto simp: json_VehicleBaseInfo_def tree_simps)
  show "tree_of (json_MotorInfo m) = tree_of (json_MotorInfo m') \<longleftrightarrow> m = m'"
    by (cases m; cases m') (auto simp: json_MotorInfo_def tree_simps)
  show "tree_of (json_FuelCellInfo f) = tree_of (json_FuelCellInfo f') \<longleftrightarrow> f = f'"
    by (cases f; cases f') (auto simp: json_FuelCellInfo_def tree_simps)
  show "tree_of (json_EngineInfo e) = tree_of (json_EngineInfo e') \<longleftrightarrow> e = e'"
    by (cases e; cases e') (auto simp: json_EngineInfo_def tree_simps)
  show "tree_of (json_PositionInfo p) = tree_of (json_PositionInfo p') \<longleftrightarrow> p = p'"
    by (cases p; cases p') (auto simp: json_PositionInfo_def tree_simps)
  show "tree_of (json_ExtremeInfo x) = tree_of (json_ExtremeInfo x') \<longleftrightarrow> x = x'"
    by (cases x; cases x') (auto simp: json_ExtremeInfo_def tree_simps)
  show "tree_of (json_AlarmInfo a) = tree_of (json_AlarmInfo a') \<longleftrightarrow> a = a'"
    by (cases a; cases a') (auto simp: json_AlarmInfo_def tree_simps)
  show "tree_of (json_CellInfo ci) = tree_of (json_CellInfo ci') \<longleftrightarrow> ci = ci'"
    by (cases ci; cases ci') (auto simp: json_CellInfo_def tree_simps)
  show "tree_of (json_ConfigField cf) = tree_of (json_ConfigField cf') \<longleftrightarrow> cf = cf'"
    by (cases cf; cases cf') (auto simp: json_ConfigField_def tree_simps)
qed

lemma tree_CellVoltage: "tree_of (json_CellVoltage c) = tree_of (json_CellVoltage c') \<longleftrightarrow> c = c'"
  by (cases c; cases c') (auto simp: json_CellVoltage_def tree_simps tree_struct)

lemma tree_SubsystemVoltage: "tree_of (json_SubsystemVoltage s) = tree_of (json_SubsystemVoltage s') \<longleftrightarrow> s = s'"
  by (cases s; cases s') (auto simp: json_SubsystemVoltage_def tree_simps tree_jslice tree_CellVoltage)

lemma tree_VoltageInfo: "tree_of (json_VoltageInfo v) = tree_of (json_VoltageInfo v') \<longleftrightarrow> v = v'"
  by (cases v; cases v') (auto simp: json_VoltageInfo_def tree_simps tree_jslice tree_SubsystemVoltage)

lemma json_struct_object:
  "\<exists>fs. json_VehicleBaseInfo v = JObject fs" "\<exists>fs. json_FuelCellInfo f = JObject fs" "\<exists>fs. json_EngineInfo e = JObject fs"
  "\<exists>fs. json_PositionInfo p = JObject fs" "\<exists>fs. json_ExtremeInfo x = JObject fs" "\<exists>fs. json_AlarmInfo a = JObject fs"
  "\<exists>fs. json_VoltageInfo i = JObject fs"
  by (auto simp: json_VehicleBaseInfo_def json_FuelCellInfo_def json_EngineInfo_def json_PositionInfo_def
      json_ExtremeInfo_def json_AlarmInfo_def json_VoltageInfo_def)

lemma tree_time:
  "encodable_time t \<Longrightarrow> encodable_time t' \<Longrightarrow> tree_of (JTime t) = tree_of (JTime t') \<longleftrightarrow> t = t'"
  using format_inject by (auto simp: map_unat_inject)

lemma tree_RealtimeMessage:
  assumes "encodable_time (InfoTime m)" "encodable_time (InfoTime m')"
    and "tree_of (json_RealtimeMessage m) = tree_of (json_RealtimeMessage m')"
  shows "m = m'"
  using assms
  by (cases m; cases m')
    (simp add: json_RealtimeMessage_def tree_time tree_jslice tree_jpointer tree_struct tree_VoltageInfo json_struct_object
      del: tree_of.simps(5))

text \<open>ASCII strings are determined by their code points.\<close>

definition ascii :: "gostring \<Rightarrow> bool" where
  "ascii s \<longleftrightarrow> list_all (\<lambda>b. b < 0x80) s"

lemma range_runes_ascii: "ascii s \<Longrightarrow> range_runes s = map unat s"
  using spells_whole [OF spells_ascii] by (simp add: ascii_def)

lemma tree_ascii: "ascii s \<Longrightarrow> ascii s' \<Longrightarrow> range_runes s = range_runes s' \<longleftrightarrow> s = s'"
  by (simp add: range_runes_ascii map_unat_inject)

lemma tree_ReissueMessage:
  assumes "encodable_time (ReissueTime m)" "encodable_time (ReissueTime m')"
    and "list_all (\<lambda>i. encodable_time (InfoTime i)) (DataItems m)" "list_all (\<lambda>i. encodable_time (InfoTime i)) (DataItems m')"
    and "tree_of (json_ReissueMessage m) = tree_of (json_ReissueMessage m')"
  shows "m = m'"
proof -
  have "xs = ys" if "map (tree_of \<circ> json_RealtimeMessage) xs = map (tree_of \<circ> json_RealtimeMessage) ys"
    "list_all (\<lambda>i. encodable_time (InfoTime i)) xs" "list_all (\<lambda>i. encodable_time (InfoTime i)) ys" for xs ys
    using that
  proof (induction xs arbitrary: ys)
    case (Cons x xs)
    then show ?case using tree_RealtimeMessage by (cases ys) auto
  qed simp
  then show ?thesis
    using assms by (cases m; cases m') (auto simp: json_ReissueMessage_def tree_time simp del: tree_of.simps(5))
qed

section \<open>Messages that can be encoded\<close>

text \<open>Encoding fails exactly if one of the times in the value cannot be encoded.\<close>

fun jtimes :: "jval \<Rightarrow> Time list" where
  "jtimes (JTime t) = [t]"
| "jtimes (JArray vs) = concat (map jtimes vs)"
| "jtimes (JObject fs) = concat (map (\<lambda>(k, v). jtimes v) fs)"
| "jtimes _ = []"

lemma isl_map_sum: "isl (map_sum id f x) \<longleftrightarrow> isl x"
  by (cases x) simp_all

lemma isl_encode:
  "isl (encode v) \<longleftrightarrow> (\<exists>t\<in>set (jtimes v). isl (MarshalJSON t))"
  "isl (encode_elems first vs) \<longleftrightarrow> (\<exists>t\<in>set (concat (map jtimes vs)). isl (MarshalJSON t))"
  "isl (encode_fields first fs) \<longleftrightarrow> (\<exists>t\<in>set (concat (map (\<lambda>(k, v). jtimes v) fs)). isl (MarshalJSON t))"
  by (induction v and first vs and first fs rule: encode_encode_elems_encode_fields.induct)
    (auto simp: isl_map_sum split: sum.splits)

fun msg_times :: "fwd_data \<Rightarrow> Time list" where
  "msg_times (FLogin d) = [LoginTime d]"
| "msg_times (FLogout d) = [LogoutTime d]"
| "msg_times (FRealtime m) = [InfoTime m]"
| "msg_times (FReissue m) = ReissueTime m # map InfoTime (DataItems m)"

lemma jtimes_struct:
  "jtimes (json_VehicleBaseInfo v) = []" "jtimes (json_MotorInfo m) = []" "jtimes (json_FuelCellInfo f) = []"
  "jtimes (json_EngineInfo e) = []" "jtimes (json_PositionInfo p) = []" "jtimes (json_ExtremeInfo x) = []"
  "jtimes (json_AlarmInfo a) = []" "jtimes (json_CellInfo c) = []" "jtimes (json_ConfigField cf) = []"
  by (simp_all add: json_VehicleBaseInfo_def json_MotorInfo_def json_FuelCellInfo_def json_EngineInfo_def
      json_PositionInfo_def json_ExtremeInfo_def json_AlarmInfo_def json_CellInfo_def json_ConfigField_def)

lemma jtimes_slice: "(\<And>x. jtimes (f x) = []) \<Longrightarrow> jtimes (jslice f xs) = []"
  by (simp add: jslice_def)

lemma jtimes_pointer: "(\<And>x. jtimes (f x) = []) \<Longrightarrow> jtimes (jpointer f p) = []"
  by (simp add: jpointer_def split: option.split)

lemma jtimes_VoltageInfo: "jtimes (json_VoltageInfo v) = []"
proof -
  have "jtimes (json_CellVoltage c) = []" for c by (simp add: json_CellVoltage_def jtimes_struct)
  then have "jtimes (json_SubsystemVoltage s) = []" for s by (simp add: json_SubsystemVoltage_def jtimes_slice)
  then show ?thesis by (simp add: json_VoltageInfo_def jtimes_slice)
qed

lemma jtimes_RealtimeMessage: "jtimes (json_RealtimeMessage m) = [InfoTime m]"
  by (simp add: json_RealtimeMessage_def jtimes_slice jtimes_pointer jtimes_struct jtimes_VoltageInfo)

lemma jtimes_ForwardMsg: "jtimes (json_ForwardMsg m) = msg_times (FData m)"
proof -
  have "concat (map (\<lambda>i. [InfoTime i]) xs) = map InfoTime xs" for xs by (induction xs) simp_all
  then show ?thesis
    by (cases "FData m")
      (simp_all add: json_ForwardMsg_def json_VehicleLoginData_def json_VehicleLogoutData_def json_ReissueMessage_def
        jtimes_RealtimeMessage jtimes_slice jtimes_struct comp_def)
qed

lemma Marshal_fails_iff: "isl (Marshal m) \<longleftrightarrow> (\<exists>t\<in>set (msg_times (FData m)). isl (MarshalJSON t))"
  by (simp add: Marshal_def isl_encode jtimes_ForwardMsg)

section \<open>Times from the wire\<close>

lemma Date_year_bounds:
  assumes "2000 \<le> y" "y \<le> 2255" "0 \<le> mo" "mo \<le> 255" "0 \<le> d" "d \<le> 255" "0 \<le> h" "h \<le> 255" "0 \<le> mi" "mi \<le> 255" "0 \<le> s" "s \<le> 255"
  shows "0 \<le> Year (Date y mo d h mi s) \<and> Year (Date y mo d h mi s) \<le> 9999"
proof -
  define y' m' where "y' = y + (mo - 1) div 12" and "m' = (mo - 1) mod 12 + 1"
  have y': "1999 \<le> y'" "y' \<le> 2277" using assms by (simp_all add: y'_def)
  define k where "k = sum_list (take (nat (m' - 1)) (month_lengths y'))"
  have "0 \<le> sum_list (drop (nat (m' - 1)) (month_lengths y'))"
    by (intro sum_list_nonneg) (metis in_set_dropD month_lengths_simps(2) less_imp_le)
  moreover have "k + sum_list (drop (nat (m' - 1)) (month_lengths y')) = year_length y'"
    unfolding k_def by (metis append_take_drop_id month_lengths_simps(3) sum_list_append)
  moreover have "0 \<le> k"
    unfolding k_def by (intro sum_list_nonneg) (metis in_set_takeD month_lengths_simps(2) less_imp_le)
  ultimately have k: "0 \<le> k" "k \<le> 366" by (simp_all add: year_length_def split: if_splits)
  let ?t = "Date y mo d h mi s"
  define x r where "x = days_before_year y' + k + (d - 1)" and "r = 3600 * h + 60 * mi + s"
  have "days_of_civil y' m' d = x" by (simp add: days_of_civil_def k_def x_def)
  then have "tsec ?t + toff ?t = r + 86400 * x" by (simp add: Date_def y'_def m'_def r_def)
  then have "local_days ?t = (r + 86400 * x) div 86400" by (simp only: local_days_def)
  then have "local_days ?t = r div 86400 + x" by (simp only: div_mult_self2)
  moreover have "0 \<le> r div 86400" "r div 86400 \<le> 12" using assms by (simp_all add: r_def)
  ultimately have n: "days_before_year y' - 1 \<le> local_days ?t" "local_days ?t \<le> days_before_year y' + 700"
    using assms(5,6) k by (simp_all add: x_def)
  have "days_before_year 1999 \<le> days_before_year y'" "days_before_year y' \<le> days_before_year 2277"
    using y' by (intro days_before_year_mono; simp)+
  then have "0 < local_days ?t" "local_days ?t < 3652059"
    using n by (simp_all add: days_before_year_def)
  moreover obtain z yd where z: "year_yday (local_days ?t) = (z, yd)" by fastforce
  moreover note year_yday_correct [OF z]
  moreover have "\<not> z < 0"
    using calculation days_before_year_mono [of "z + 1" 1] days_before_year_next [of z] by (auto simp: days_before_year_def)
  moreover have "\<not> 10000 \<le> z"
    using calculation days_before_year_mono [of 10000 z] by (auto simp: days_before_year_def)
  ultimately show ?thesis by (simp add: Year_def civil_of_days_def split_def Let_def)
qed

lemma uint_byte_le: "uint (b :: byte) \<le> 255"
  using uint_bounded [of b] by simp

lemma bcd_value_bounds: "0 \<le> bcd_value b" "bcd_value b \<le> 255"
proof -
  have "uint (drop_bit 4 b) = uint b div 16" by (simp add: drop_bit_eq_div uint_div)
  moreover have "uint (b AND 0x0F) \<le> 15" using word_and_le1 [of b "0x0F"] by (simp add: word_le_def)
  ultimately show "0 \<le> bcd_value b" "bcd_value b \<le> 255"
    using uint_byte_le [of b] uint_ge_0 [of b] uint_ge_0 [of "b AND 0x0F"]
    by (simp_all add: bcd_value_def pos_imp_zdiv_nonneg_iff del: uint_ge_0)
qed

lemma decodeTime6_encodable: "decodeTime6 d b = Some t \<Longrightarrow> encodable_time t"
proof -
  assume t: "decodeTime6 d b = Some t"
  have "utc_second t"
    using t by (auto simp: decodeTime6_def parseBinaryTime6_def parseBCDTime6_def Date_def Let_def utc_second_def
        split: if_splits bind_splits)
  moreover have "0 \<le> Year t \<and> Year t \<le> 9999"
    using t uint_byte_le bcd_value_bounds
    by (auto simp: decodeTime6_def parseBinaryTime6_def parseBCDTime6_def split: if_splits bind_splits
        intro!: Date_year_bounds [THEN conjunct1] Date_year_bounds [THEN conjunct2])
  ultimately show ?thesis by (simp add: encodable_time_def)
qed

section \<open>The messages of the server\<close>

text \<open>The type that the connection gives to a message, and the messages it can forward.\<close>

fun msg_type :: "fwd_data \<Rightarrow> string" where
  "msg_type (FLogin d) = ''login''"
| "msg_type (FLogout d) = ''logout''"
| "msg_type (FRealtime m) = ''realtime''"
| "msg_type (FReissue m) = ''reissue''"

definition server_msg :: "ForwardMsg \<Rightarrow> bool" where
  "server_msg m \<longleftrightarrow> FType m = msg_type (FData m) \<and> list_all encodable_time (msg_times (FData m))"

fun msg_ascii :: "fwd_data \<Rightarrow> bool" where
  "msg_ascii (FLogin d) = ascii (ICCID d)"
| "msg_ascii _ = True"

lemma server_msg_Marshal: "server_msg m \<Longrightarrow> \<exists>body. Marshal m = Inr body"
proof -
  assume "server_msg m"
  then have "\<not> isl (Marshal m)"
    by (auto simp: Marshal_fails_iff server_msg_def list_all_iff MarshalJSON_encodable)
  then show ?thesis by (cases "Marshal m") simp_all
qed

lemma realtime_loop_InfoTime: "realtime_loop data p msg = Some (m, q) \<Longrightarrow> InfoTime m = InfoTime msg"
proof (induction data p msg rule: realtime_loop.induct)
  case (1 data p msg)
  have sw: "InfoTime (realtime_switch f v msg) = InfoTime msg" for f v
    by (simp add: realtime_switch_def split: decoded.split)
  from 1 show ?case
    by (subst (asm) (3) realtime_loop.simps) (auto split: if_splits bind_splits sum.splits simp: sw)
qed

lemma reissue_loop_times:
  assumes "reissue_loop d data n i p items = Some its" "list_all (\<lambda>m. encodable_time (InfoTime m)) items"
  shows "list_all (\<lambda>m. encodable_time (InfoTime m)) its"
  using assms
proof (induction d data n i p items rule: reissue_loop.induct)
  case (1 d data n i p items)
  have item: "encodable_time (InfoTime m)" if "decodeRealtimeItem d rest = Some (Inr (m, c))" for rest m c
    using that realtime_loop_InfoTime decodeTime6_encodable
    by (fastforce simp: decodeRealtimeItem_def item_loop_eq emptyMessage_def split: if_splits bind_splits)
  show ?case
  proof (cases "i < n \<and> p < length data")
    case True
    obtain rest r where r: "slice data p (length data) = Some rest" "decodeRealtimeItem d rest = Some r"
      using "1.prems"(1) True by (subst (asm) reissue_loop.simps) (auto split: bind_splits)
    show ?thesis
    proof (cases r)
      case (Inl err)
      then show ?thesis using "1.prems" True r by (subst (asm) reissue_loop.simps) simp
    next
      case (Inr mc)
      obtain m c where mc: "mc = (m, c)" by fastforce
      have "reissue_loop d data n (i + 1) (p + c) (items @ [m]) = Some its"
        using "1.prems"(1) True r Inr mc by (subst (asm) reissue_loop.simps) simp
      then show ?thesis
        using "1.IH" [OF True r Inr mc [symmetric]] "1.prems"(2) item [of rest m c] r Inr mc by simp
    qed
  next
    case False
    then show ?thesis using "1.prems" by (subst (asm) reissue_loop.simps) auto
  qed
qed

text \<open>Whatever is decoded from a payload has times that can be encoded.\<close>

lemma decoded_times:
  "Decoder_DecodeLoginData d data = Some (Inr ld) \<Longrightarrow> encodable_time (LoginTime ld)"
  "Decoder_DecodeLogoutData d data = Some (Inr lo) \<Longrightarrow> encodable_time (LogoutTime lo)"
  "Decoder_DecodeRealtimeData d data = Some (Inr rm) \<Longrightarrow> encodable_time (InfoTime rm)"
  "Decoder_DecodeReissueData d data = Some (Inr ri) \<Longrightarrow> list_all encodable_time (ReissueTime ri # map InfoTime (DataItems ri))"
proof -
  show "Decoder_DecodeLoginData d data = Some (Inr ld) \<Longrightarrow> encodable_time (LoginTime ld)"
    "Decoder_DecodeLogoutData d data = Some (Inr lo) \<Longrightarrow> encodable_time (LogoutTime lo)"
    by (auto simp: Decoder_DecodeLoginData_def Decoder_DecodeLogoutData_def Let_def dest: decodeTime6_encodable
        split: if_splits bind_splits)
  show "Decoder_DecodeRealtimeData d data = Some (Inr rm) \<Longrightarrow> encodable_time (InfoTime rm)"
    by (fastforce simp: Decoder_DecodeRealtimeData_def emptyMessage_def dest: decodeTime6_encodable realtime_loop_InfoTime
        split: if_splits bind_splits)
  show "Decoder_DecodeReissueData d data = Some (Inr ri) \<Longrightarrow> list_all encodable_time (ReissueTime ri # map InfoTime (DataItems ri))"
    by (auto simp: Decoder_DecodeReissueData_def list.pred_map comp_def dest: decodeTime6_encodable reissue_loop_times
        split: if_splits bind_splits)
qed

lemma tree_VehicleLoginData:
  assumes "encodable_time (LoginTime d)" "encodable_time (LoginTime d')" "ascii (ICCID d)" "ascii (ICCID d')"
  shows "tree_of (json_VehicleLoginData d) = tree_of (json_VehicleLoginData d') \<longleftrightarrow> d = d'"
  using assms by (cases d; cases d')
    (auto simp: json_VehicleLoginData_def tree_simps tree_time tree_ascii tree_jslice tree_struct simp del: tree_of.simps(5))

lemma tree_VehicleLogoutData:
  assumes "encodable_time (LogoutTime d)" "encodable_time (LogoutTime d')"
  shows "tree_of (json_VehicleLogoutData d) = tree_of (json_VehicleLogoutData d') \<longleftrightarrow> d = d'"
  using assms by (cases d; cases d')
    (auto simp: json_VehicleLogoutData_def tree_simps tree_time simp del: tree_of.simps(5))

lemma ascii_msg_type: "ascii (str (msg_type x))"
  by (cases x) (simp_all add: ascii_def str_def)

lemma str_msg_type: "str (msg_type x) = str (msg_type y) \<longleftrightarrow> msg_type x = msg_type y"
  by (cases x; cases y) (simp_all add: str_def)

section \<open>Properties\<close>



end
