(* ===== verification/Json_Reader.thy ===== *)
theory Json_Reader
  imports Json_Lossless
begin

text \<open>
  The consumer of the published bodies: a reader that takes a message out of a JSON tree, field by
  field under the names that the declarations of \<^verbatim>\<open>packet.go\<close> give them (the name of the field, or its
  tag), in whatever order the members stand. It is written from those declarations and does not
  use the encoder. Reading the body of a message gives the message.
\<close>

section \<open>A reader of messages\<close>

text \<open>The member of an object, read by \<open>rd\<close>.\<close>

definition member :: "string \<Rightarrow> jtree \<Rightarrow> (jtree \<Rightarrow> 'a option) \<Rightarrow> 'a option" where
  "member k v rd =
     (case v of
        TObj ms \<Rightarrow> (case map_of ms (map of_char k) of None \<Rightarrow> None | Some x \<Rightarrow> rd x)
      | _ \<Rightarrow> None)"

text \<open>
  Numbers have to fit the width of the field; strings are ASCII; byte slices are base64; times are of
  the form 2006-01-02T15:04:05Z; null is a nil pointer or a nil slice.
\<close>

definition read_num :: "jtree \<Rightarrow> 'w :: len word option" where
  "read_num v = (case v of TNum n \<Rightarrow> if n < 2 ^ LENGTH('w) then Some (word_of_nat n) else None | _ \<Rightarrow> None)"

definition read_ascii :: "jtree \<Rightarrow> gostring option" where
  "read_ascii v = (case v of TStr cs \<Rightarrow> if list_all (\<lambda>c. c < 128) cs then Some (map word_of_nat cs) else None | _ \<Rightarrow> None)"

definition read_bytes :: "jtree \<Rightarrow> bytes option" where
  "read_bytes v = map_option unbase64 (read_ascii v)"

definition read_time :: "jtree \<Rightarrow> Time option" where
  "read_time v =
     (case v of
        TStr cs \<Rightarrow>
          if length cs = 20 \<and> map ((!) cs) [4, 7, 10, 13, 16, 19] = map of_char ''--T::Z'' then
            let num = (\<lambda>i n. int (digits_value (take n (drop i cs))))
            in Some (Date (num 0 4) (num 5 2) (num 8 2) (num 11 2) (num 14 2) (num 17 2))
          else None
      | _ \<Rightarrow> None)"

definition read_pointer :: "(jtree \<Rightarrow> 'a option) \<Rightarrow> jtree \<Rightarrow> 'a option option" where
  "read_pointer rd v = (if v = TNull then Some None else map_option Some (rd v))"

definition read_list :: "(jtree \<Rightarrow> 'a option) \<Rightarrow> jtree \<Rightarrow> 'a list option" where
  "read_list rd v = (case v of TNull \<Rightarrow> Some [] | TArr vs \<Rightarrow> those (map rd vs) | _ \<Rightarrow> None)"

definition read_VehicleBaseInfo :: "jtree \<Rightarrow> VehicleBaseInfo option" where
  "read_VehicleBaseInfo v = do {
     x1 \<leftarrow> member ''VehicleStatus'' v read_num;
     x2 \<leftarrow> member ''ChargingStatus'' v read_num;
     x3 \<leftarrow> member ''RunMode'' v read_num;
     x4 \<leftarrow> member ''Speed'' v read_num;
     x5 \<leftarrow> member ''Odometer'' v read_num;
     x6 \<leftarrow> member ''TotalVoltage'' v read_num;
     x7 \<leftarrow> member ''TotalCurrent'' v read_num;
     x8 \<leftarrow> member ''SOC'' v read_num;
     x9 \<leftarrow> member ''DCStatus'' v read_num;
     x10 \<leftarrow> member ''Gear'' v read_num;
     x11 \<leftarrow> member ''InsulationRes'' v read_num;
     Some \<lparr>VehicleStatus = x1, ChargingStatus = x2, RunMode = x3, Speed = x4, Odometer = x5,
       TotalVoltage = x6, TotalCurrent = x7, SOC = x8, DCStatus = x9, Gear = x10,
       InsulationRes = x11\<rparr>
   }"

definition read_MotorInfo :: "jtree \<Rightarrow> MotorInfo option" where
  "read_MotorInfo v = do {
     x1 \<leftarrow> member ''MotorSeq'' v read_num;
     x2 \<leftarrow> member ''MotorStatus'' v read_num;
     x3 \<leftarrow> member ''ControllerTemp'' v read_num;
     x4 \<leftarrow> member ''MotorSpeed'' v read_num;
     x5 \<leftarrow> member ''MotorTorque'' v read_num;
     x6 \<leftarrow> member ''MotorTemp'' v read_num;
     x7 \<leftarrow> member ''MotorVoltage'' v read_num;
     x8 \<leftarrow> member ''MotorCurrent'' v read_num;
     Some \<lparr>MotorSeq = x1, MotorStatus = x2, ControllerTemp = x3, MotorSpeed = x4, MotorTorque = x5,
       MotorTemp = x6, MotorVoltage = x7, MotorCurrent = x8\<rparr>
   }"

definition read_FuelCellInfo :: "jtree \<Rightarrow> FuelCellInfo option" where
  "read_FuelCellInfo v = do {
     x1 \<leftarrow> member ''CellVoltage'' v read_num;
     x2 \<leftarrow> member ''CellCurrent'' v read_num;
     x3 \<leftarrow> member ''FuelConsumption'' v read_num;
     x4 \<leftarrow> member ''ProbeCount'' v read_num;
     x5 \<leftarrow> member ''ProbeTemps'' v read_bytes;
     x6 \<leftarrow> member ''H2MaxTemp'' v read_num;
     x7 \<leftarrow> member ''H2MaxTempProbe'' v read_num;
     x8 \<leftarrow> member ''H2MaxConcentration'' v read_num;
     x9 \<leftarrow> member ''H2MaxConcentrationSensor'' v read_num;
     x10 \<leftarrow> member ''H2PressureMax'' v read_num;
     x11 \<leftarrow> member ''H2PressureMaxSensor'' v read_num;
     x12 \<leftarrow> member ''H2PressureMin'' v read_num;
     x13 \<leftarrow> member ''H2PressureMinSensor'' v read_num;
     x14 \<leftarrow> member ''DCDCStatus'' v read_num;
     Some \<lparr>CellVoltage = x1, CellCurrent = x2, FuelConsumption = x3, ProbeCount = x4,
       ProbeTemps = x5, H2MaxTemp = x6, H2MaxTempProbe = x7, H2MaxConcentration = x8,
       H2MaxConcentrationSensor = x9, H2PressureMax = x10, H2PressureMaxSensor = x11, H2PressureMin = x12,
       H2PressureMinSensor = x13, DCDCStatus = x14\<rparr>
   }"

definition read_EngineInfo :: "jtree \<Rightarrow> EngineInfo option" where
  "read_EngineInfo v = do {
     x1 \<leftarrow> member ''EngineStatus'' v read_num;
     x2 \<leftarrow> member ''CrankSpeed'' v read_num;
     x3 \<leftarrow> member ''FuelRate'' v read_num;
     Some \<lparr>EngineStatus = x1, CrankSpeed = x2, FuelRate = x3\<rparr>
   }"

definition read_PositionInfo :: "jtree \<Rightarrow> PositionInfo option" where
  "read_PositionInfo v = do {
     x1 \<leftarrow> member ''Longitude'' v read_num;
     x2 \<leftarrow> member ''Latitude'' v read_num;
     Some \<lparr>Longitude = x1, Latitude = x2\<rparr>
   }"

definition read_ExtremeInfo :: "jtree \<Rightarrow> ExtremeInfo option" where
  "read_ExtremeInfo v = do {
     x1 \<leftarrow> member ''MaxBatteryVoltage'' v read_num;
     x2 \<leftarrow> member ''MaxBatteryVoltageCode'' v read_num;
     x3 \<leftarrow> member ''MinBatteryVoltage'' v read_num;
     x4 \<leftarrow> member ''MinBatteryVoltageCode'' v read_num;
     x5 \<leftarrow> member ''MaxTemp'' v read_num;
     x6 \<leftarrow> member ''MaxTempCode'' v read_num;
     x7 \<leftarrow> member ''MinTemp'' v read_num;
     x8 \<leftarrow> member ''MinTempCode'' v read_num;
     Some \<lparr>MaxBatteryVoltage = x1, MaxBatteryVoltageCode = x2, MinBatteryVoltage = x3,
       MinBatteryVoltageCode = x4, MaxTemp = x5, MaxTempCode = x6, MinTemp = x7, MinTempCode = x8\<rparr>
   }"

definition read_AlarmInfo :: "jtree \<Rightarrow> AlarmInfo option" where
  "read_AlarmInfo v = do {
     x1 \<leftarrow> member ''MaxLevel'' v read_num;
     x2 \<leftarrow> member ''AlarmByteLen'' v read_num;
     x3 \<leftarrow> member ''AlarmBytes'' v read_bytes;
     Some \<lparr>MaxLevel = x1, AlarmByteLen = x2, AlarmBytes = x3\<rparr>
   }"

definition read_CellInfo :: "jtree \<Rightarrow> CellInfo option" where
  "read_CellInfo v = do {
     x1 \<leftarrow> member ''Voltage'' v read_num;
     x2 \<leftarrow> member ''Temp'' v read_num;
     Some \<lparr>CellInfoVoltage = x1, CellInfoTemp = x2\<rparr>
   }"

definition read_CellVoltage :: "jtree \<Rightarrow> CellVoltageItem option" where
  "read_CellVoltage v = do {
     x1 \<leftarrow> member ''CellNo'' v read_num;
     x2 \<leftarrow> member ''CellInfo'' v read_CellInfo;
     Some \<lparr>CellNo = x1, CellInfo_of = x2\<rparr>
   }"

definition read_SubsystemVoltage :: "jtree \<Rightarrow> SubsystemVoltage option" where
  "read_SubsystemVoltage v = do {
     x1 \<leftarrow> member ''SubsysNo'' v read_num;
     x2 \<leftarrow> member ''Voltage'' v read_num;
     x3 \<leftarrow> member ''Current'' v read_num;
     x4 \<leftarrow> member ''CellCount'' v read_num;
     x5 \<leftarrow> member ''Cells'' v (read_list read_CellVoltage);
     Some \<lparr>SubsysNo = x1, Voltage = x2, Current = x3, CellCount = x4, Cells = x5\<rparr>
   }"

definition read_VoltageInfo :: "jtree \<Rightarrow> VoltageInfo option" where
  "read_VoltageInfo v = do {
     x1 \<leftarrow> member ''SubsysCount'' v read_num;
     x2 \<leftarrow> member ''SubsystemVoltages'' v (read_list read_SubsystemVoltage);
     Some \<lparr>SubsysCount = x1, SubsystemVoltages = x2\<rparr>
   }"

definition read_ConfigField :: "jtree \<Rightarrow> ConfigField option" where
  "read_ConfigField v = do {
     x1 \<leftarrow> member ''ID'' v read_num;
     x2 \<leftarrow> member ''Length'' v read_num;
     x3 \<leftarrow> member ''Value'' v read_bytes;
     Some \<lparr>ConfigID = x1, ConfigLength = x2, ConfigValue = x3\<rparr>
   }"

definition read_VehicleLoginData :: "jtree \<Rightarrow> VehicleLoginData option" where
  "read_VehicleLoginData v = do {
     x1 \<leftarrow> member ''LoginTime'' v read_time;
     x2 \<leftarrow> member ''Sequence'' v read_num;
     x3 \<leftarrow> member ''ICCID'' v read_ascii;
     x4 \<leftarrow> member ''ConfigDataCnt'' v read_num;
     x5 \<leftarrow> member ''ConfigData'' v (read_list read_ConfigField);
     Some \<lparr>LoginTime = x1, Sequence = x2, ICCID = x3, ConfigDataCnt = x4, ConfigData = x5\<rparr>
   }"

definition read_VehicleLogoutData :: "jtree \<Rightarrow> VehicleLogoutData option" where
  "read_VehicleLogoutData v = do {
     x1 \<leftarrow> member ''LogoutTime'' v read_time;
     x2 \<leftarrow> member ''Sequence'' v read_num;
     Some \<lparr>LogoutTime = x1, LogoutSequence = x2\<rparr>
   }"

definition read_RealtimeMessage :: "jtree \<Rightarrow> RealtimeMessage option" where
  "read_RealtimeMessage v = do {
     x1 \<leftarrow> member ''InfoTime'' v read_time;
     x2 \<leftarrow> member ''VehicleData'' v (read_pointer read_VehicleBaseInfo);
     x3 \<leftarrow> member ''MotorData'' v (read_list read_MotorInfo);
     x4 \<leftarrow> member ''FuelCellData'' v (read_pointer read_FuelCellInfo);
     x5 \<leftarrow> member ''EngineData'' v (read_pointer read_EngineInfo);
     x6 \<leftarrow> member ''PositionData'' v (read_pointer read_PositionInfo);
     x7 \<leftarrow> member ''ExtremeData'' v (read_pointer read_ExtremeInfo);
     x8 \<leftarrow> member ''AlarmData'' v (read_pointer read_AlarmInfo);
     x9 \<leftarrow> member ''VoltageData'' v (read_pointer read_VoltageInfo);
     Some \<lparr>InfoTime = x1, VehicleData = x2, MotorData = x3, FuelCellData = x4, EngineData = x5,
       PositionData = x6, ExtremeData = x7, AlarmData = x8, VoltageData = x9\<rparr>
   }"

definition read_ReissueMessage :: "jtree \<Rightarrow> ReissueMessage option" where
  "read_ReissueMessage v = do {
     x1 \<leftarrow> member ''InfoTime'' v read_time;
     x2 \<leftarrow> member ''DataItems'' v (read_list read_RealtimeMessage);
     Some \<lparr>ReissueTime = x1, DataItems = x2\<rparr>
   }"

definition read_data :: "string \<Rightarrow> jtree \<Rightarrow> fwd_data option" where
  "read_data ty v =
     (if ty = ''login'' then map_option FLogin (read_VehicleLoginData v)
      else if ty = ''logout'' then map_option FLogout (read_VehicleLogoutData v)
      else if ty = ''realtime'' then map_option FRealtime (read_RealtimeMessage v)
      else if ty = ''reissue'' then map_option FReissue (read_ReissueMessage v)
      else None)"

definition read_ForwardMsg :: "jtree \<Rightarrow> ForwardMsg option" where
  "read_ForwardMsg v = do {
     ty \<leftarrow> member ''type'' v read_ascii;
     let ty = map (char_of \<circ> unat) ty;
     vin \<leftarrow> member ''vin'' v read_ascii;
     data \<leftarrow> member ''data'' v (read_data ty);
     Some \<lparr>FType = ty, FVIN = vin, FData = data\<rparr>
   }"

definition Unmarshal :: "bytes \<Rightarrow> ForwardMsg option" where
  "Unmarshal body = Option.bind (json_read body) read_ForwardMsg"

section \<open>Leaves\<close>

definition ascii_key :: "string \<Rightarrow> bool" where
  "ascii_key k \<longleftrightarrow> list_all (\<lambda>c. of_char c < (128 :: nat)) k"

lemma byte_of_char: "word_of_nat (of_char c) = (of_char c :: byte)"
  by (cases c) (simp add: of_char_def)

lemma unat_of_char: "unat (of_char c :: byte) = of_char c"
  using unat_of_nat_byte [of "of_char c"] byte_of_char [of c] by simp

lemma runes_key: "ascii_key k \<Longrightarrow> range_runes (str k) = map of_char k"
proof -
  assume "ascii_key k"
  then have "ascii (str k)"
    by (simp add: ascii_key_def ascii_def str_def list_all_iff word_less_nat_alt unat_of_char)
  then show ?thesis by (simp add: range_runes_ascii str_def comp_def unat_of_char)
qed

lemma map_of_char_inject: "map (of_char :: char \<Rightarrow> nat) k = map of_char k' \<longleftrightarrow> k = k'"
  by (simp add: inj_map_eq_map inj_on_def)

lemma member_object:
  assumes "list_all (\<lambda>f. ascii_key (fst f)) fs"
  shows "member k (tree_of (JObject fs)) rd = (case map_of fs k of None \<Rightarrow> None | Some v \<Rightarrow> rd (tree_of v))"
proof -
  have "map_of (map (\<lambda>(k, v). (range_runes (str k), tree_of v)) fs) (map of_char k) = map_option tree_of (map_of fs k)"
    using assms by (induction fs) (auto simp: runes_key map_of_char_inject)
  then show ?thesis by (simp add: member_def split: option.splits)
qed

lemma of_nat_unat_byte: "map word_of_nat (map unat xs) = (xs :: bytes)"
  by (induction xs) simp_all

lemma read_plain: "list_all plain_char xs \<Longrightarrow> read_ascii (TStr (map unat xs)) = Some xs"
  using of_nat_unat_byte [of xs]
  by (auto simp: read_ascii_def list_all_iff plain_char_def word_less_nat_alt)

lemma read_leaf:
  "read_num (tree_of (JUint (unat (x :: 'w :: len word)))) = Some x"
  "read_bytes (tree_of (JBytes bs)) = Some bs"
  "ascii s \<Longrightarrow> read_ascii (tree_of (JString s)) = Some s"
proof -
  show "read_num (tree_of (JUint (unat x))) = Some x" by (simp add: read_num_def)
  show "read_bytes (tree_of (JBytes bs)) = Some bs"
    using read_plain [OF plain_base64, of bs] by (simp add: read_bytes_def unbase64_base64)
  show "read_ascii (tree_of (JString s)) = Some s" if "ascii s"
    using that of_nat_unat_byte [of s]
    by (simp add: range_runes_ascii read_ascii_def ascii_def list_all_iff word_less_nat_alt)
qed

lemma read_time_tree:
  assumes "encodable_time t"
  shows "read_time (tree_of (JTime t)) = Some t"
proof -
  have l4: "length (pad_decimal 4 (Year t)) = 4"
    using assms by (intro length_pad_decimal) (simp_all add: encodable_time_def)
  have l2: "length (pad_decimal 2 (Month t)) = 2" "length (pad_decimal 2 (Day t)) = 2" "length (pad_decimal 2 (Hour t)) = 2"
    "length (pad_decimal 2 (Minute t)) = 2" "length (pad_decimal 2 (Second t)) = 2"
    using accessor_ranges [of t] by (simp_all add: length_pad_decimal)
  define a where "a = map (unat :: byte \<Rightarrow> nat) (pad_decimal 4 (Year t))"
  define b where "b = map (unat :: byte \<Rightarrow> nat) (pad_decimal 2 (Month t))"
  define c where "c = map (unat :: byte \<Rightarrow> nat) (pad_decimal 2 (Day t))"
  define d where "d = map (unat :: byte \<Rightarrow> nat) (pad_decimal 2 (Hour t))"
  define e where "e = map (unat :: byte \<Rightarrow> nat) (pad_decimal 2 (Minute t))"
  define f where "f = map (unat :: byte \<Rightarrow> nat) (pad_decimal 2 (Second t))"
  note defs = a_def b_def c_def d_def e_def f_def
  have l: "length a = 4" "length b = 2" "length c = 2" "length d = 2" "length e = 2" "length f = 2"
    using l4 l2 by (simp_all add: defs)
  have v: "int (digits_value a) = Year t" "int (digits_value b) = Month t" "int (digits_value c) = Day t"
    "int (digits_value d) = Hour t" "int (digits_value e) = Minute t" "int (digits_value f) = Second t"
    using assms accessor_ranges [of t] unfolding defs digits_value_pad by (simp_all add: encodable_time_def)
  have "tree_of (JTime t) = TStr (a @ [45] @ b @ [45] @ c @ [84] @ d @ [58] @ e @ [58] @ f @ [90])"
    using assms by (simp add: defs format_RFC3339Nano_def format_fraction_def format_zone_def encodable_time_def utc_second_def str_def)
  moreover have "read_time (TStr (a @ [45] @ b @ [45] @ c @ [84] @ d @ [58] @ e @ [58] @ f @ [90])) =
      Some (Date (Year t) (Month t) (Day t) (Hour t) (Minute t) (Second t))"
    using l by (simp add: read_time_def nth_append Let_def v)
  moreover have "Date (Year t) (Month t) (Day t) (Hour t) (Minute t) (Second t) = t"
    using assms by (intro Date_accessors) (simp_all add: encodable_time_def utc_second_def)
  ultimately show ?thesis by simp
qed

lemma read_pointer_tree:
  assumes "\<And>x. rd (tree_of (f x)) = Some x" "\<And>x. \<exists>fs. f x = JObject fs"
  shows "read_pointer rd (tree_of (jpointer f p)) = Some p"
proof (cases p)
  case (Some x)
  moreover obtain fs where "f x = JObject fs" using assms(2) by blast
  ultimately show ?thesis using assms(1) [of x] by (simp add: read_pointer_def jpointer_def)
qed (simp add: read_pointer_def jpointer_def)

lemma those_map: "(\<And>x. x \<in> set xs \<Longrightarrow> g x = Some x) \<Longrightarrow> those (map g xs) = Some xs"
  by (induction xs) simp_all

lemma read_list_tree:
  "(\<And>x. x \<in> set xs \<Longrightarrow> rd (tree_of (f x)) = Some x) \<Longrightarrow> read_list rd (tree_of (JArray (map f xs))) = Some xs"
  "(\<And>x. x \<in> set xs \<Longrightarrow> rd (tree_of (f x)) = Some x) \<Longrightarrow> read_list rd (tree_of (jslice f xs)) = Some xs"
  by (simp_all add: read_list_def jslice_def comp_def those_map)

section \<open>Structures\<close>

text \<open>The tree of a structure reads back as the structure. Trees stay folded, so that members are found by name.\<close>

declare tree_of.simps [simp del]

lemmas read_simps = member_object ascii_key_def read_leaf

lemma read_struct:
  "read_VehicleBaseInfo (tree_of (json_VehicleBaseInfo v)) = Some v"
  "read_MotorInfo (tree_of (json_MotorInfo m)) = Some m"
  "read_FuelCellInfo (tree_of (json_FuelCellInfo f)) = Some f"
  "read_EngineInfo (tree_of (json_EngineInfo e)) = Some e"
  "read_PositionInfo (tree_of (json_PositionInfo p)) = Some p"
  "read_ExtremeInfo (tree_of (json_ExtremeInfo x)) = Some x"
  "read_AlarmInfo (tree_of (json_AlarmInfo a)) = Some a"
  "read_CellInfo (tree_of (json_CellInfo ci)) = Some ci"
  "read_ConfigField (tree_of (json_ConfigField cf)) = Some cf"
proof -
  show "read_VehicleBaseInfo (tree_of (json_VehicleBaseInfo v)) = Some v"
    by (simp add: read_VehicleBaseInfo_def json_VehicleBaseInfo_def read_simps)
  show "read_MotorInfo (tree_of (json_MotorInfo m)) = Some m"
    by (simp add: read_MotorInfo_def json_MotorInfo_def read_simps)
  show "read_FuelCellInfo (tree_of (json_FuelCellInfo f)) = Some f"
    by (simp add: read_FuelCellInfo_def json_FuelCellInfo_def read_simps)
  show "read_EngineInfo (tree_of (json_EngineInfo e)) = Some e"
    by (simp add: read_EngineInfo_def json_EngineInfo_def read_simps)
  show "read_PositionInfo (tree_of (json_PositionInfo p)) = Some p"
    by (simp add: read_PositionInfo_def json_PositionInfo_def read_simps)
  show "read_ExtremeInfo (tree_of (json_ExtremeInfo x)) = Some x"
    by (simp add: read_ExtremeInfo_def json_ExtremeInfo_def read_simps)
  show "read_AlarmInfo (tree_of (json_AlarmInfo a)) = Some a"
    by (simp add: read_AlarmInfo_def json_AlarmInfo_def read_simps)
  show "read_CellInfo (tree_of (json_CellInfo ci)) = Some ci"
    by (simp add: read_CellInfo_def json_CellInfo_def read_simps)
  show "read_ConfigField (tree_of (json_ConfigField cf)) = Some cf"
    by (simp add: read_ConfigField_def json_ConfigField_def read_simps)
qed

lemma read_CellVoltage_tree: "read_CellVoltage (tree_of (json_CellVoltage c)) = Some c"
  by (simp add: read_CellVoltage_def json_CellVoltage_def read_simps read_struct)

lemma read_SubsystemVoltage_tree: "read_SubsystemVoltage (tree_of (json_SubsystemVoltage s)) = Some s"
  by (simp add: read_SubsystemVoltage_def json_SubsystemVoltage_def read_simps read_list_tree read_CellVoltage_tree)

lemma read_VoltageInfo_tree: "read_VoltageInfo (tree_of (json_VoltageInfo v)) = Some v"
  by (simp add: read_VoltageInfo_def json_VoltageInfo_def read_simps read_list_tree read_SubsystemVoltage_tree)

lemma read_RealtimeMessage_tree:
  "encodable_time (InfoTime m) \<Longrightarrow> read_RealtimeMessage (tree_of (json_RealtimeMessage m)) = Some m"
  by (simp add: read_RealtimeMessage_def json_RealtimeMessage_def read_simps read_time_tree read_list_tree
      read_pointer_tree read_struct read_VoltageInfo_tree json_struct_object)

lemma read_ReissueMessage_tree:
  "encodable_time (ReissueTime m) \<Longrightarrow> list_all (\<lambda>i. encodable_time (InfoTime i)) (DataItems m) \<Longrightarrow>
   read_ReissueMessage (tree_of (json_ReissueMessage m)) = Some m"
  by (simp add: read_ReissueMessage_def json_ReissueMessage_def read_simps read_time_tree read_list_tree
      read_RealtimeMessage_tree list_all_iff)

lemma read_VehicleLoginData_tree:
  "encodable_time (LoginTime d) \<Longrightarrow> ascii (ICCID d) \<Longrightarrow>
   read_VehicleLoginData (tree_of (json_VehicleLoginData d)) = Some d"
  by (simp add: read_VehicleLoginData_def json_VehicleLoginData_def read_simps read_time_tree read_list_tree read_struct)

lemma read_VehicleLogoutData_tree:
  "encodable_time (LogoutTime d) \<Longrightarrow> read_VehicleLogoutData (tree_of (json_VehicleLogoutData d)) = Some d"
  by (simp add: read_VehicleLogoutData_def json_VehicleLogoutData_def read_simps read_time_tree)

lemma read_data_tree:
  assumes "list_all encodable_time (msg_times x)" "msg_ascii x"
  shows "read_data (msg_type x) (tree_of (json_fwd_data x)) = Some x"
  using assms
  by (cases x)
    (simp_all add: read_data_def read_VehicleLoginData_tree read_VehicleLogoutData_tree read_RealtimeMessage_tree
      read_ReissueMessage_tree list.pred_map comp_def)

lemma read_type: "map (char_of \<circ> unat) (str (msg_type x)) = msg_type x"
  by (simp add: str_def comp_def unat_of_char)

lemma Unmarshal_body:
  assumes "server_msg m" "ascii (FVIN m)" "msg_ascii (FData m)" "Marshal m = Inr body"
  shows "Unmarshal body = Some m"
proof -
  have "json_read body = Some (tree_of (json_ForwardMsg m))"
    using json_read_encode assms(4) by (simp add: Marshal_def)
  moreover have "FType m = msg_type (FData m)" using assms(1) by (simp add: server_msg_def)
  moreover have "read_data (msg_type (FData m)) (tree_of (json_fwd_data (FData m))) = Some (FData m)"
    using assms(1,3) by (intro read_data_tree) (simp_all add: server_msg_def)
  ultimately show ?thesis
    using assms(2) by (simp add: Unmarshal_def read_ForwardMsg_def json_ForwardMsg_def read_simps ascii_msg_type read_type)
qed

section \<open>Property\<close>

text \<open>
  C8: the body of a message can be read back. Every message of the server (the type that belongs to its
  data, times that its decoders can return) whose VIN and ICCID are ASCII is encoded without an
  error, as a JSON text in valid UTF-8, and a reader that takes every field of every structure from
  the member of its name, numbers at their width, gets exactly the message back.
\<close>

theorem Marshal_reads_back:
  assumes "server_msg m" and "ascii (FVIN m)" and "msg_ascii (FData m)"
  shows "\<exists>body. Marshal m = Inr body \<and> Unmarshal body = Some m"
  using server_msg_Marshal [OF assms(1)] Unmarshal_body [OF assms] by blast

theorem Marshal_reads_back_witness:
  \<open>Unmarshal (str ''{"type":"logout","vin":"A'' @ [92] @ str ''u003c1","data":{"LogoutTime":"2026-06-15T18:48:30Z","Sequence":7}}'') =
     Some (sample_msg (str ''A<1''))\<close>
proof -
  have "server_msg (sample_msg v)" "msg_ascii (FData (sample_msg v))" "FVIN (sample_msg v) = v" for v
    using accessors_Date(1) [of 2026 6 15 18 48 30]
    by (simp_all add: server_msg_def sample_msg_def newForwardMsg_def encodable_time_def utc_second_def valid_civil_def
        month_lengths_def, simp add: Date_def)
  moreover have "ascii (str ''A<1'')" by (simp add: ascii_def str_def)
  ultimately show ?thesis using Marshal_reads_back [of "sample_msg (str ''A<1'')"] sample_body by simp
qed

end
