(* ===== verification/Forward_Props.thy ===== *)
theory Forward_Props
  imports Forwarders Json_Reader Server_Props "HOL-Library.Multiset" "HOL-Library.Sublist"
begin

text \<open>
  From the server to the outside: the goroutines that \<^verbatim>\<open>forward\<close> starts and the end of \<^verbatim>\<open>Stop\<close>
  interleaved with the server, what a server forwards in any run, which calls of the client
  libraries come of it, and what a subscriber reads in their bodies.
\<close>

section \<open>Everything forwarded was decoded\<close>

sublocale limited \<subseteq> fwd: step_invariant s "\<lambda>w. \<forall>x\<in>set (forwarded w). decoded_msg (snd x)"
  by unfold_locales
    (auto simp: lim_callbacks forward_def NewWorld_def Start_turn_def newConnection_def logged_in_def Let_def
      split: if_splits)

context limited
begin

lemma reachable_decoded: "reachable s y \<Longrightarrow> x \<in> set (forwarded (world y)) \<Longrightarrow> decoded_msg (snd x)"
  using fwd.reachable_keeps by blast

end

lemma decoded_server_msg: "decoded_msg m \<Longrightarrow> server_msg m"
  by (induction rule: decoded_msg.induct)
    (auto simp: server_msg_def newForwardMsg_def DecodeLoginData_def DecodeLogoutData_def DecodeRealtimeData_def
      DecodeReissueData_def dest: decoded_times)

lemma reachable_server_msg:
  assumes "callbacks_ok s" "reachable s y" "x \<in> set (forwarded (world y))"
  shows "server_msg (snd x)"
proof -
  have "limited s" by unfold_locales (rule assms(1))
  from limited.reachable_decoded [OF this assms(2,3)] show ?thesis by (rule decoded_server_msg)
qed

section \<open>The forwarding goroutines and Stop\<close>

text \<open>
  Besides the server there are the goroutines that \<^verbatim>\<open>forward\<close> started, by their index in \<open>forwarded\<close>, of which those in
  \<open>ran\<close> have ended, and the last loop of \<^verbatim>\<open>Stop\<close>, which has closed the first \<open>closed\<close> forwarders. \<^verbatim>\<open>Stop\<close> waits
  for the goroutines of the connections before it closes the forwarders, but not for the forwarding
  goroutines, which are in no wait group. \<open>F\<close> gives the code of each forwarder, \<open>outside\<close> is
  what they act on; a call of a client library is one step.
\<close>

record ('a, 'e) Out =
  osys :: "'a Sys"
  ran :: "nat set"
  closed :: nat
  outside :: 'e

inductive out_step :: "'a Server \<Rightarrow> (nat \<Rightarrow> 'e Forwarder) \<Rightarrow> ('a, 'e) Out \<Rightarrow> ('a, 'e) Out \<Rightarrow> bool" for s F where
  out_server: "step s (osys x) y \<Longrightarrow> out_step s F x (x\<lparr>osys := y\<rparr>)"
| out_forward: "j < length (forwarded (world (osys x))) \<Longrightarrow> j \<notin> ran x \<Longrightarrow> forwarded (world (osys x)) ! j = (f, m) \<Longrightarrow>
    out_step s F x (x\<lparr>ran := insert j (ran x), outside := forward_goroutine (F f) m (outside x)\<rparr>)"
| out_close: "server_done (world (osys x)) \<Longrightarrow> all_finished (osys x) \<Longrightarrow> closed x < length (forwarders s) \<Longrightarrow>
    out_step s F x (x\<lparr>closed := Suc (closed x), outside := fst (Forwarder_Close (F (forwarders s ! closed x)) (outside x))\<rparr>)"

inductive out_reachable :: "'a Server \<Rightarrow> (nat \<Rightarrow> 'e Forwarder) \<Rightarrow> 'e \<Rightarrow> ('a, 'e) Out \<Rightarrow> bool" for s F e where
  out_init: "out_reachable s F e \<lparr>osys = \<lparr>world = NewWorld t a, decoder_of = (\<lambda>_. NewDecoder), phase_of = (\<lambda>_. Finished),
    probing = {}\<rparr>, ran = {}, closed = 0, outside = e\<rparr>"
| out_next: "out_reachable s F e x \<Longrightarrow> out_step s F x z \<Longrightarrow> out_reachable s F e z"

text \<open>A forwarder of either kind, and the calls of its library.\<close>

datatype ('e, 'p, 'c) backend =
    On_Kafka "('e, 'p) sarama" "'p KafkaForwarder"
  | On_MQTT "('e, 'c) paho" "'c MQTTForwarder"

primrec forwarder_of :: "('e, 'p, 'c) backend \<Rightarrow> 'e Forwarder" where
  "forwarder_of (On_Kafka lib k) = Kafka lib k"
| "forwarder_of (On_MQTT lib m) = MQTT lib m"

primrec publish_call :: "('e, 'p, 'c) backend \<Rightarrow> bytes \<Rightarrow> 'e \<Rightarrow> 'e" where
  "publish_call (On_Kafka lib k) = (\<lambda>body e. fst (SendMessage lib (producer k) (kafka_topic k) body e))"
| "publish_call (On_MQTT lib m) = (\<lambda>body e. fst (Publish lib (client m) (mqtt_topic m) 1 False body (5 * second_ns) e))"

primrec close_call :: "('e, 'p, 'c) backend \<Rightarrow> 'e \<Rightarrow> 'e" where
  "close_call (On_Kafka lib k) = (\<lambda>e. fst (Producer_Close lib (producer k) e))"
| "close_call (On_MQTT lib m) = Disconnect lib (client m) 500"

lemma publisher_backend: "publisher (forwarder_of b) (publish_call b) (close_call b)"
proof (cases b)
  case (On_Kafka lib k)
  then show ?thesis using kafka.publisher_axioms [of lib k] by simp
next
  case (On_MQTT lib m)
  then show ?thesis using mqtt.publisher_axioms [of lib m] by simp
qed

datatype lib_call = Published nat bytes | Closed nat

primrec happens :: "(nat \<Rightarrow> ('e, 'p, 'c) backend) \<Rightarrow> lib_call \<Rightarrow> 'e \<Rightarrow> 'e" where
  "happens B (Published f body) = publish_call (B f) body"
| "happens B (Closed f) = close_call (B f)"

definition call_of :: "'a World \<Rightarrow> nat \<Rightarrow> lib_call" where
  "call_of w j = (case forwarded w ! j of (f, m) \<Rightarrow> Published f (projr (Marshal m)))"

section \<open>The calls of the libraries\<close>

sublocale limited \<subseteq> pre: step_closed s "\<lambda>w. prefix sofar (forwarded w)"
  by unfold_locales
    (auto simp: lim_callbacks forward_def Start_turn_def newConnection_def logged_in_def Let_def
      split: if_splits)

context limited
begin

lemma step_forwarded:
  assumes "reachable s y" "step s y z"
  shows "prefix (forwarded (world y)) (forwarded (world z))"
  using pre.step_keeps [OF assms(2), of "forwarded (world y)"] fwd.reachable_keeps [OF assms(1)] by blast

end

text \<open>What has happened to the outside: the calls of the goroutines that ran and of \<^verbatim>\<open>Stop\<close>, in some order.\<close>

definition calls_made :: "'a Server \<Rightarrow> (nat \<Rightarrow> ('e, 'p, 'c) backend) \<Rightarrow> 'e \<Rightarrow> ('a, 'e) Out \<Rightarrow> lib_call list \<Rightarrow> bool" where
  "calls_made s B e x cs \<longleftrightarrow> outside x = fold (happens B) cs e \<and>
     mset cs = image_mset (call_of (world (osys x))) (mset_set (ran x)) + mset (map Closed (take (closed x) (forwarders s)))"

lemma out_step_calls:
  assumes "out_step s (\<lambda>f. forwarder_of (B f)) x z" "callbacks_ok s" "reachable s (osys x)"
    "ran x \<subseteq> {..<length (forwarded (world (osys x)))}" "calls_made s B e x cs"
  shows "reachable s (osys z) \<and> ran z \<subseteq> {..<length (forwarded (world (osys z)))} \<and> (\<exists>cs. calls_made s B e z cs)"
  using assms(1)
proof cases
  case (out_server y)
  have "limited s" by unfold_locales (rule assms(2))
  from limited.step_forwarded [OF this assms(3) out_server(2)]
  obtain ys where ys: "forwarded (world y) = forwarded (world (osys x)) @ ys" by (auto simp: prefix_def)
  then have "call_of (world y) j = call_of (world (osys x)) j" if "j \<in> ran x" for j
    using that assms(4) by (auto simp: call_of_def nth_append)
  then have "image_mset (call_of (world y)) (mset_set (ran x)) = image_mset (call_of (world (osys x))) (mset_set (ran x))"
    using finite_subset [OF assms(4)] by (intro image_mset_cong) simp
  then show ?thesis
    using out_server assms(3-5) ys by (auto simp: calls_made_def intro: reach_step)
next
  case (out_forward j f m)
  then have "(f, m) \<in> set (forwarded (world (osys x)))" by (metis nth_mem)
  then obtain body where b: "Marshal m = Inr body"
    using reachable_server_msg [OF assms(2,3)] server_msg_Marshal by fastforce
  have "finite (ran x)" using assms(4) finite_subset by blast
  then have "calls_made s B e z (cs @ [call_of (world (osys x)) j])"
    using out_forward assms(5) publisher.goroutine_publishes [OF publisher_backend [of "B f"] b]
    by (simp add: calls_made_def call_of_def b)
  then show ?thesis using out_forward(1,2) assms(3,4) by auto
next
  case out_close
  then have "calls_made s B e z (cs @ [Closed (forwarders s ! closed x)])"
    using assms(5) publisher.close_call [OF publisher_backend [of "B (forwarders s ! closed x)"]]
    by (simp add: calls_made_def take_Suc_conv_app_nth)
  then show ?thesis using out_close(1) assms(3,4) by auto
qed

lemma out_reachable_calls:
  assumes "out_reachable s (\<lambda>f. forwarder_of (B f)) e x" "callbacks_ok s"
  shows "reachable s (osys x) \<and> ran x \<subseteq> {..<length (forwarded (world (osys x)))} \<and> (\<exists>cs. calls_made s B e x cs)"
  using assms(1)
proof (induction rule: out_reachable.induct)
  case (out_init t a)
  have "calls_made s B e \<lparr>osys = y, ran = {}, closed = 0, outside = e\<rparr> []" for y by (simp add: calls_made_def)
  then have "\<exists>cs. calls_made s B e \<lparr>osys = y, ran = {}, closed = 0, outside = e\<rparr> cs" for y by blast
  then show ?case using reach_init [of s t a] by simp
next
  case (out_next x z)
  then obtain cs where "calls_made s B e x cs" by blast
  with out_next show ?case by (intro out_step_calls [OF out_next.hyps(2) assms(2)]) simp_all
qed

lemma reachable_out: "reachable s y \<Longrightarrow> out_reachable s F e \<lparr>osys = y, ran = {}, closed = 0, outside = e\<rparr>"
proof (induction rule: reachable.induct)
  case (reach_step y z)
  then show ?case using out_next [OF _ out_server] by fastforce
qed (rule out_init)

section \<open>Property\<close>

text \<open>
  C6: what leaves the server. A server has Kafka and MQTT forwarders, in any mix, over client
  libraries of which nothing is assumed, and its goroutines, the forwarding goroutines and the closing of the
  forwarders at the end of \<^verbatim>\<open>Stop\<close> run in any interleaving. Every message that was handed to a
  forwarder can be encoded, and where its strings are ASCII the body reads back as that message;
  the outside is in the state that results from calls of the client libraries in
  some order, with one publish call (to the configured topic, with the message's body) for each
  forwarding goroutine that has run and one close call for each forwarder that \<^verbatim>\<open>Stop\<close> has closed; and
  a forwarding goroutine that has not run yet can still run, even when its forwarder is closed.
\<close>

theorem forwarded_published:
  assumes "callbacks_ok s" and "out_reachable s (\<lambda>f. forwarder_of (B f)) e x"
  shows "(\<forall>(f, m) \<in> set (forwarded (world (osys x))). \<exists>body. Marshal m = Inr body \<and>
      (ascii (FVIN m) \<and> msg_ascii (FData m) \<longrightarrow> Unmarshal body = Some m)) \<and>
    (\<exists>calls. outside x = fold (happens B) calls e \<and>
      mset calls = image_mset (call_of (world (osys x))) (mset_set (ran x)) +
        mset (map Closed (take (closed x) (forwarders s)))) \<and>
    (\<forall>j < length (forwarded (world (osys x))). j \<notin> ran x \<longrightarrow>
      (\<exists>z. out_step s (\<lambda>f. forwarder_of (B f)) x z \<and> ran z = insert j (ran x)))"
proof (intro conjI)
  note r = out_reachable_calls [OF assms(2,1)]
  have "\<exists>body. Marshal m = Inr body \<and> (ascii (FVIN m) \<and> msg_ascii (FData m) \<longrightarrow> Unmarshal body = Some m)"
    if "(f, m) \<in> set (forwarded (world (osys x)))" for f m
  proof -
    have m: "server_msg m" using reachable_server_msg [OF assms(1)] r that by fastforce
    then show ?thesis using server_msg_Marshal Unmarshal_body by blast
  qed
  then show "\<forall>(f, m) \<in> set (forwarded (world (osys x))). \<exists>body. Marshal m = Inr body \<and>
      (ascii (FVIN m) \<and> msg_ascii (FData m) \<longrightarrow> Unmarshal body = Some m)" by blast
  show "\<exists>calls. outside x = fold (happens B) calls e \<and>
      mset calls = image_mset (call_of (world (osys x))) (mset_set (ran x)) +
        mset (map Closed (take (closed x) (forwarders s)))"
    using r unfolding calls_made_def by blast
  have "\<exists>z. out_step s (\<lambda>f. forwarder_of (B f)) x z \<and> ran z = insert j (ran x)"
    if "j < length (forwarded (world (osys x)))" "j \<notin> ran x" for j
    using out_forward [OF that] by (cases "forwarded (world (osys x)) ! j") fastforce
  then show "\<forall>j < length (forwarded (world (osys x))). j \<notin> ran x \<longrightarrow>
      (\<exists>z. out_step s (\<lambda>f. forwarder_of (B f)) x z \<and> ran z = insert j (ran x))" by blast
qed

text \<open>An outside that records the bodies it is given and \<open>None\<close> for a close.\<close>

definition logging_sarama :: "(bytes option list, unit) sarama" where
  "logging_sarama = \<lparr>NewSyncProducer = (\<lambda>bs cfg e. (e, Inr ())), SendMessage = (\<lambda>p t body e. (e @ [Some body], None)),
     Producer_Close = (\<lambda>p e. (e @ [None], None))\<rparr>"

theorem forwarded_published_witness:
  "\<exists>(x :: (nat, bytes option list) Out) m body.
    out_reachable (WithForwarder [5] (whitelist_server open_sockets [sample_vin]))
      (\<lambda>f. forwarder_of (On_Kafka logging_sarama \<lparr>producer = (), kafka_topic = str ''t''\<rparr> :: (_, _, unit) backend)) [] x \<and>
    forwarded (world (osys x)) = [(5, m)] \<and> outside x = [None, Some body] \<and> Unmarshal body = Some m"
proof -
  let ?s = "WithForwarder [5] (whitelist_server open_sockets [sample_vin]) :: nat Server"
  let ?B = "\<lambda>_ :: nat. On_Kafka logging_sarama \<lparr>producer = (), kafka_topic = str ''t''\<rparr> :: (_, _, unit) backend"
  let ?F = "\<lambda>f. forwarder_of (?B f)"
  obtain ld where ld: "DecodeLoginData login_bytes = Some (Inr ld)" and iccid: "ICCID ld = []" using login_bytes_decode by blast
  let ?m = "newForwardMsg ''login'' sample_vin (FLogin ld)"
  obtain y where y: "reachable ?s y" "length (heap (world y)) = 1" "phase_of y 0 = Reading" "forwarded (world y) = [(5, ?m)]"
    using sample_run_forwarding [OF ld, where fs = "[5]"] by auto
  define y1 where "y1 = y\<lparr>world := Stop_close [] (world y)\<rparr>"
  define y2 where "y2 = y1\<lparr>world := Close 0 (world y1), phase_of := (phase_of y1)(0 := Finished)\<rparr>"
  have "step ?s y y1" unfolding y1_def by (rule Shutdown)
  moreover have "step ?s y1 y2" unfolding y2_def using y(2,3) by (intro Finish) (simp_all add: y1_def Stop_close_def)
  ultimately have y2: "reachable ?s y2" using y(1) reach_step by meson
  have w: "server_done (world y2)" "all_finished y2" "forwarded (world y2) = [(5, ?m)]" "forwarders ?s = [5]"
    using y(2,4) by (simp_all add: y2_def y1_def Stop_close_def all_finished_def WithForwarder_def whitelist_server_def example_defs Close_def)
  let ?x = "\<lparr>osys = y2, ran = {}, closed = 0, outside = []\<rparr> :: (nat, bytes option list) Out"
  let ?x1 = "?x\<lparr>closed := 1, outside := [None]\<rparr>"
  have x1: "out_reachable ?s ?F [] ?x1"
    using out_next [OF reachable_out [OF y2, of ?F "[]"] out_close] w
    by (simp add: Kafka_def Kafka_Close_def logging_sarama_def)
  have cb: "callbacks_ok ?s"
    by (auto simp: callbacks_ok_def whitelist_server_def example_defs Let_def api_refl)
  from forwarded_published [OF cb x1] w(3) obtain body where b: "Marshal ?m = Inr body"
    "ascii (FVIN ?m) \<and> msg_ascii (FData ?m) \<longrightarrow> Unmarshal body = Some ?m" by auto
  have "out_reachable ?s ?F [] (?x1\<lparr>ran := {0}, outside := [None, Some body]\<rparr>)"
    using out_next [OF x1 out_forward [of 0 ?x1 5 ?m ?s ?F]] w(3) b(1)
    by (simp add: forward_goroutine_def Kafka_def Kafka_Forward_def logging_sarama_def)
  moreover have "ascii (FVIN ?m) \<and> msg_ascii (FData ?m)"
    using iccid by (simp add: newForwardMsg_def ascii_def sample_vin_def str_def)
  ultimately show ?thesis using w(3) b(2) by fastforce
qed

end
