(* ===== verification/Buffers.thy ===== *)
theory Buffers
  imports Server_Props
begin

text \<open>
  The pool of read buffers (\<^verbatim>\<open>buffer.go\<close>) and its use in the receive loop of a connection.
  Buffers live in a store, a list indexed by addresses; a \<^verbatim>\<open>*[]byte\<close> is an address, so that a buffer
  written through one pointer is seen through every other. The pool holds addresses.
  The system with buffers splits the step \<open>Read\<close> of \<open>Server_Steps\<close>, in which a chunk goes from
  the socket to the decoder at once, into what the code does: read into the buffer, and later
  feed the decoder from it, while other goroutines get, fill and return buffers.
\<close>

section \<open>The pool\<close>

definition readBufSize :: nat where
  "readBufSize = 4096"

record Bufs =
  store :: "bytes list"
  pool :: "nat list"

text \<open>
  \<^verbatim>\<open>sync.Pool.Get\<close> takes out some item of the pool, or calls \<^verbatim>\<open>New\<close> (also if the pool is not empty); the
  choice is its first argument. The pool may also drop items at any time, which is taking one out
  and forgetting it.
\<close>

definition getBuffer :: "nat option \<Rightarrow> Bufs \<Rightarrow> (nat \<times> Bufs) option" where
  "getBuffer choice b =
     (case choice of
        Some i \<Rightarrow>
          if i < length (pool b)
          then Some (pool b ! i, b\<lparr>pool := take i (pool b) @ drop (i + 1) (pool b)\<rparr>)
          else None
      | None \<Rightarrow> Some (length (store b), b\<lparr>store := store b @ [replicate readBufSize 0]\<rparr>))"

definition putBuffer :: "nat \<Rightarrow> Bufs \<Rightarrow> Bufs" where
  "putBuffer a b = b\<lparr>pool := a # pool b\<rparr>"

text \<open>
  \<^verbatim>\<open>Read(buf)\<close> delivers the bytes \<open>bs\<close> at the start of the buffer; an \<^verbatim>\<open>io.Reader\<close> may use the rest of
  the buffer as scratch space.
\<close>

definition read_into :: "nat \<Rightarrow> bytes \<Rightarrow> bytes \<Rightarrow> Bufs \<Rightarrow> Bufs option" where
  "read_into a bs scratch b =
     (if a < length (store b) \<and> length bs + length scratch = length (store b ! a)
      then Some (b\<lparr>store := (store b)[a := bs @ scratch]\<rparr>) else None)"

section \<open>The server with buffers\<close>

text \<open>
  The goroutine of a connection before it has a buffer, with its buffer, with a chunk \<open>bs\<close> delivered
  to its buffer that the decoder has not got yet, and after it has returned the buffer.
\<close>

datatype reader = NoBuffer | Holding nat | Filled nat bytes | Returned

fun buffer_of :: "reader \<Rightarrow> nat option" where
  "buffer_of (Holding a) = Some a"
| "buffer_of (Filled a bs) = Some a"
| "buffer_of _ = None"

record 'a Pooled =
  sys :: "'a Sys"
  bufs :: Bufs
  reader_of :: "nat \<Rightarrow> reader"

text \<open>
  \<open>Other\<close> is every step of the server that is no read: no goroutine goes from reading to processing.
\<close>

inductive pstep :: "'a Server \<Rightarrow> 'a Pooled \<Rightarrow> 'a Pooled \<Rightarrow> bool" for s where
  Other: "step s (sys y) z \<Longrightarrow> (\<And>c. phase_of (sys y) c = Reading \<Longrightarrow> phase_of z c \<noteq> Processing) \<Longrightarrow>
    pstep s y (y\<lparr>sys := z\<rparr>)"
| Get: "reader_of y c = NoBuffer \<Longrightarrow> phase_of (sys y) c = Reading \<Longrightarrow> getBuffer choice (bufs y) = Some (a, b) \<Longrightarrow>
    pstep s y (y\<lparr>bufs := b, reader_of := (reader_of y)(c := Holding a)\<rparr>)"
| Fill: "reader_of y c = Holding a \<Longrightarrow> phase_of (sys y) c = Reading \<Longrightarrow> bs \<noteq> [] \<Longrightarrow>
    read_into a bs scratch (bufs y) = Some b \<Longrightarrow>
    pstep s y (y\<lparr>bufs := b, reader_of := (reader_of y)(c := Filled a bs)\<rparr>)"
| FeedBuffer: "reader_of y c = Filled a bs \<Longrightarrow> c < length (heap (world (sys y))) \<Longrightarrow> phase_of (sys y) c = Reading \<Longrightarrow>
    slice (store (bufs y) ! a) 0 (length bs) = Some data \<Longrightarrow> Feed (decoder_of (sys y) c) data = Some d \<Longrightarrow>
    pstep s y (y\<lparr>sys := (sys y)\<lparr>world := modc c (\<lambda>cn. cn\<lparr>lastSeen := Unix (now (world (sys y)))\<rparr>) (world (sys y)),
        decoder_of := (decoder_of (sys y))(c := d), phase_of := (phase_of (sys y))(c := Processing)\<rparr>,
      reader_of := (reader_of y)(c := Holding a)\<rparr>)"
| Put: "reader_of y c = Holding a \<Longrightarrow>
    pstep s y (y\<lparr>bufs := putBuffer a (bufs y), reader_of := (reader_of y)(c := Returned)\<rparr>)"
| DropItem: "getBuffer (Some i) (bufs y) = Some (a, b) \<Longrightarrow> pstep s y (y\<lparr>bufs := b\<rparr>)"

inductive preachable :: "'a Server \<Rightarrow> 'a Pooled \<Rightarrow> bool" for s where
  p_init: "preachable s
    \<lparr>sys = \<lparr>world = NewWorld t a, decoder_of = (\<lambda>_. NewDecoder), phase_of = (\<lambda>_. Finished), probing = {}\<rparr>,
     bufs = \<lparr>store = [], pool = []\<rparr>, reader_of = (\<lambda>_. NoBuffer)\<rparr>"
| p_step: "preachable s y \<Longrightarrow> pstep s y z \<Longrightarrow> preachable s z"

section \<open>Exclusive use\<close>

text \<open>
  A buffer is in the pool once or with one goroutine, never both; buffers keep their size; a chunk
  that was delivered stays in the buffer until it is fed.
\<close>

definition pool_inv :: "'a Pooled \<Rightarrow> bool" where
  "pool_inv y \<longleftrightarrow>
     distinct (pool (bufs y)) \<and> (\<forall>a\<in>set (pool (bufs y)). a < length (store (bufs y))) \<and>
     (\<forall>x\<in>set (store (bufs y)). length x = readBufSize) \<and>
     (\<forall>c a. buffer_of (reader_of y c) = Some a \<longrightarrow> a < length (store (bufs y)) \<and> a \<notin> set (pool (bufs y))) \<and>
     (\<forall>c c' a. buffer_of (reader_of y c) = Some a \<longrightarrow> buffer_of (reader_of y c') = Some a \<longrightarrow> c = c') \<and>
     (\<forall>c a bs. reader_of y c = Filled a bs \<longrightarrow> bs \<noteq> [] \<and> length bs \<le> readBufSize \<and> take (length bs) (store (bufs y) ! a) = bs)"

lemma getBuffer_cases:
  assumes "getBuffer choice b = Some (a, b')"
  obtains (pooled) us vs where "pool b = us @ a # vs" "b' = b\<lparr>pool := us @ vs\<rparr>"
    | (new) "choice = None" "a = length (store b)" "b' = b\<lparr>store := store b @ [replicate readBufSize 0]\<rparr>"
proof (cases choice)
  case (Some i)
  then have "pool b = take i (pool b) @ a # drop (i + 1) (pool b)"
    "b' = b\<lparr>pool := take i (pool b) @ drop (i + 1) (pool b)\<rparr>"
    using assms by (auto simp: getBuffer_def id_take_nth_drop split: if_splits)
  then show thesis by (rule pooled)
qed (use assms new in \<open>simp add: getBuffer_def\<close>)

lemma filled_lt: "pool_inv y \<Longrightarrow> reader_of y c = Filled a bs \<Longrightarrow> a < length (store (bufs y))"
  unfolding pool_inv_def by (metis buffer_of.simps(2))

lemma set_update_memD: "x \<in> set (xs[i := y]) \<Longrightarrow> x = y \<or> x \<in> set xs"
  using set_update_subset_insert [of xs i y] by blast

lemma held_buffer:
  assumes "pool_inv y" "buffer_of (reader_of y c) = Some a"
  shows "a < length (store (bufs y))" "a \<notin> set (pool (bufs y))" "buffer_of (reader_of y c') = Some a \<Longrightarrow> c' = c"
  using assms unfolding pool_inv_def by blast+

lemma pstep_inv:
  assumes "pstep s y z" "pool_inv y"
  shows "pool_inv z"
  using assms(1)
proof (cases rule: pstep.cases)
  case (Other z')
  then show ?thesis using assms(2) by (simp add: pool_inv_def)
next
  case (Get c choice a b)
  from Get(4) show ?thesis
  proof (cases rule: getBuffer_cases)
    case (pooled us vs)
    then show ?thesis using Get assms(2) by (auto simp: pool_inv_def split: if_splits)
  next
    case new
    then show ?thesis
      using Get assms(2) filled_lt [OF assms(2)]
      by (auto simp: pool_inv_def nth_append less_Suc_eq split: if_splits)
  qed
next
  case (Fill c a bs scratch b)
  then have "buffer_of (reader_of y c') = Some a \<Longrightarrow> c' = c" "a \<notin> set (pool (bufs y))" for c'
    using held_buffer [OF assms(2), of c a] by simp_all
  moreover have "length x = readBufSize" if "x \<in> set (store b)" for x
    using that Fill assms(2) by (auto simp: pool_inv_def read_into_def split: if_splits dest!: set_update_memD)
  ultimately show ?thesis
    using Fill assms(2) by (auto simp: pool_inv_def read_into_def nth_list_update split: if_splits)
next
  case (FeedBuffer c a bs data d)
  then show ?thesis using assms(2) held_buffer [OF assms(2), of c a] by (auto simp: pool_inv_def split: if_splits)
next
  case (Put c a)
  then show ?thesis using assms(2) held_buffer [OF assms(2), of c a] by (auto simp: pool_inv_def putBuffer_def split: if_splits)
next
  case (DropItem i a b)
  from DropItem(2) show ?thesis
    by (cases rule: getBuffer_cases) (use DropItem assms(2) in \<open>auto simp: pool_inv_def\<close>)
qed

text \<open>Every step of the server with buffers is a step of the server, or changes only buffers.\<close>

lemma filled_chunk:
  assumes "pool_inv y" "reader_of y c = Filled a bs"
  shows "slice (store (bufs y) ! a) 0 (length bs) = Some bs" "bs \<noteq> []"
proof -
  have "length (store (bufs y) ! a) = readBufSize"
    using assms filled_lt [OF assms] by (simp add: pool_inv_def)
  moreover have "take (length bs) (store (bufs y) ! a) = bs" "length bs \<le> readBufSize" "bs \<noteq> []"
    using assms by (auto simp: pool_inv_def)
  ultimately show "slice (store (bufs y) ! a) 0 (length bs) = Some bs" "bs \<noteq> []" by (simp_all add: slice_def)
qed

lemma pstep_simulates:
  assumes "pstep s y z" "pool_inv y"
  shows "sys z = sys y \<or> step s (sys y) (sys z)"
  using assms(1)
proof (cases rule: pstep.cases)
  case (FeedBuffer c a bs data d)
  then have "data = bs" "bs \<noteq> []" using filled_chunk [OF assms(2), of c a bs] by simp_all
  then show ?thesis using FeedBuffer Read [of c "sys y" bs d s] by simp
qed simp_all

lemma preachable_inv: "preachable s y \<Longrightarrow> pool_inv y \<and> reachable s (sys y)"
proof (induction rule: preachable.induct)
  case (p_init t a)
  then show ?case by (simp add: pool_inv_def reach_init)
next
  case (p_step y z)
  then show ?case using pstep_inv pstep_simulates reach_step by metis
qed

section \<open>Properties\<close>

text \<open>
  C7: pooled buffers are invisible. Whatever the interleaving of reads, feeds, returned buffers and
  garbage collection, no two goroutines hold one buffer and none holds a buffer that is in the
  pool; what a goroutine feeds its decoder is the chunk that its own \<^verbatim>\<open>Read\<close> delivered; and the
  server with buffers refines the server in which chunks go directly to the decoder, so that
  every invariant of the latter is one of the former.
\<close>

theorem pooled_refines:
  assumes "preachable s y"
  shows "reachable s (sys y) \<and>
    (reader_of y c = Filled a bs \<longrightarrow> slice (store (bufs y) ! a) 0 (length bs) = Some bs) \<and>
    (buffer_of (reader_of y c) = Some a \<longrightarrow> a \<notin> set (pool (bufs y)) \<and>
      (\<forall>c'. c' \<noteq> c \<longrightarrow> buffer_of (reader_of y c') \<noteq> Some a))"
  using preachable_inv [OF assms] held_buffer filled_chunk(1) by blast

theorem pooled_refines_witness:
  "\<exists>y :: nat Pooled. preachable (example_server open_sockets) y \<and> reader_of y 0 = Filled 0 [35, 35] \<and>
    slice (store (bufs y) ! 0) 0 2 = Some [35, 35]"
proof -
  let ?s = "example_server open_sockets :: nat Server"
  let ?y = "\<lparr>world = NewWorld (Date 2026 6 15 18 48 30) 0, decoder_of = (\<lambda>_. NewDecoder),
    phase_of = (\<lambda>_. Finished), probing = {}\<rparr> :: nat Sys"
  obtain d w where "Start_turn ?s (Inr (str ''id'')) (world ?y) = (True, Some (0, d), w)"
    by (simp add: Start_turn_def newConnection_def NewWorld_def example_defs Let_def)
  then obtain z where z: "step ?s ?y z" "phase_of z = (phase_of ?y)(0 := Reading)"
    using Accept [of ?s "str ''id''" ?y 0 d w] by (auto simp: NewWorld_def)
  let ?p0 = "\<lparr>sys = ?y, bufs = \<lparr>store = [], pool = []\<rparr>, reader_of = (\<lambda>_. NoBuffer)\<rparr>"
  let ?p1 = "?p0\<lparr>sys := z\<rparr>"
  let ?p2 = "?p1\<lparr>bufs := \<lparr>store = [replicate readBufSize 0], pool = []\<rparr>, reader_of := (reader_of ?p1)(0 := Holding 0)\<rparr>"
  let ?p3 = "?p2\<lparr>bufs := \<lparr>store = [[35, 35] @ replicate (readBufSize - 2) 1], pool = []\<rparr>, reader_of := (reader_of ?p2)(0 := Filled 0 [35, 35])\<rparr>"
  have "preachable ?s ?p0" by (rule p_init)
  moreover have "pstep ?s ?p0 ?p1" using z by (intro Other) auto
  moreover have "pstep ?s ?p1 ?p2" using z(2) by (intro Get [where choice = None]) (simp_all add: getBuffer_def)
  moreover have "pstep ?s ?p2 ?p3"
    using z(2) by (intro Fill [where scratch = "replicate (readBufSize - 2) 1"]) (simp_all add: read_into_def readBufSize_def)
  ultimately have "preachable ?s ?p3" by (meson p_step)
  with pooled_refines [OF this, of 0 0 "[35, 35]"] show ?thesis by (intro exI [of _ ?p3]) (simp add: numeral_2_eq_2)
qed

end
