(* ===== verification/Workers.thy ===== *)
theory Workers
  imports Clients
begin

text \<open>
  The load generator as a concurrent program (\<^verbatim>\<open>main\<close> of \<^verbatim>\<open>cmd/stresstest\<close>): a loop that starts one
  goroutine per client, a channel as semaphore that bounds how many run at a time, a wait group, and
  counters to which all clients add atomically. The interleaving is a step relation; one step is one
  atomic action. It is related to \<open>stress_main\<close>, which runs the clients one after the other.
\<close>

section \<open>A client as a sequence of atomic additions\<close>

datatype counter =
    Conned | Failed | Authed | Realdata | Heartbeats | BytesSent | BytesRecv | TotalLatency | LatencyCount

fun apply_add :: "counter \<times> int \<Rightarrow> stats \<Rightarrow> stats" where
  "apply_add (Conned, n) s = s\<lparr>conned := conned s + n\<rparr>"
| "apply_add (Failed, n) s = s\<lparr>failed := failed s + n\<rparr>"
| "apply_add (Authed, n) s = s\<lparr>authed := authed s + n\<rparr>"
| "apply_add (Realdata, n) s = s\<lparr>realdata := realdata s + n\<rparr>"
| "apply_add (Heartbeats, n) s = s\<lparr>heartbeats := heartbeats s + n\<rparr>"
| "apply_add (BytesSent, n) s = s\<lparr>bytesSent := bytesSent s + n\<rparr>"
| "apply_add (BytesRecv, n) s = s\<lparr>bytesRecv := bytesRecv s + n\<rparr>"
| "apply_add (TotalLatency, n) s = s\<lparr>totalLatency := totalLatency s + n\<rparr>"
| "apply_add (LatencyCount, n) s = s\<lparr>latencyCount := latencyCount s + n\<rparr>"

text \<open>The additions of a write, in the order of the code, and what follows if it succeeded.\<close>

definition write_adds :: "int \<times> bool \<Rightarrow> (counter \<times> int) list \<Rightarrow> (counter \<times> int) list" where
  "write_adds wr rest = (if snd wr then [] else (BytesSent, fst wr) # rest)"

definition session_adds :: "net_run \<Rightarrow> (counter \<times> int) list" where
  "session_adds net =
     [(TotalLatency, latency net), (LatencyCount, 1), (Authed, 1)] @
     write_adds (writes net 1) ((Realdata, 1) #
     write_adds (writes net 2) ((Realdata, 1) #
     write_adds (writes net 3) ((Heartbeats, 1) #
     write_adds (writes net 4) [])))"

definition client_adds :: "net_run \<Rightarrow> (counter \<times> int) list" where
  "client_adds net =
     (if dial_err net then [(Failed, 1)]
      else (Conned, 1) #
        (if snd (writes net 0) then [(Failed, 1)]
         else (BytesSent, fst (writes net 0)) #
           (case read_resp net of
              (n, True) \<Rightarrow> if n > 0 then session_adds net else [(Failed, 1)]
            | (n, False) \<Rightarrow> (BytesRecv, n) # session_adds net)))"

lemma sendOnly_adds:
  "sendOnly cmd vin data wr (out, s) = (if snd wr then (False, out, s)
     else (True, out @ [stress_buildPacket cmd vin data], apply_add (BytesSent, fst wr) s))"
  by (simp add: sendOnly_def split_def)

lemma sendAndRecv_adds:
  "sendAndRecv cmd vin data wr rd (out, s) = (if snd wr then (False, out, s)
     else let s = apply_add (BytesSent, fst wr) s; out = out @ [stress_buildPacket cmd vin data]
       in if snd rd then (fst rd > 0, out, s) else (True, out, apply_add (BytesRecv, fst rd) s))"
  by (simp add: sendAndRecv_def split_def Let_def)

text \<open>Everything after a login that succeeded.\<close>

lemma session_tail_adds:
  "snd (let (ok, out, s) = client_loop i vin net 0 (out, s)
        in if \<not> ok then (out, s)
        else let (ok, out, s) = sendOnly CmdHeartbeat vin [] (writes net 3) (out, s)
          in if \<not> ok then (out, s)
          else snd (sendOnly CmdLogout vin stress_logoutData (writes net 4) (out, s\<lparr>heartbeats := heartbeats s + 1\<rparr>))) =
   fold apply_add (drop 3 (session_adds net)) s"
  by (cases "snd (writes net 1)"; cases "snd (writes net 2)"; cases "snd (writes net 3)"; cases "snd (writes net 4)")
    (simp_all add: client_loop_unroll sendOnly_adds session_adds_def write_adds_def)

lemma runClient_adds: "snd (runClient i net (out, s)) = fold apply_add (client_adds net) s"
proof -
  have "session_adds net = [(TotalLatency, latency net), (LatencyCount, 1), (Authed, 1)] @ drop 3 (session_adds net)"
    by (simp add: session_adds_def)
  then have fold_session: "fold apply_add (session_adds net) s = fold apply_add (drop 3 (session_adds net))
      (apply_add (Authed, 1) (apply_add (LatencyCount, 1) (apply_add (TotalLatency, latency net) s)))" for s
    by (metis append_Cons append_Nil fold_simps)
  show ?thesis
    unfolding runClient_def client_adds_def sendAndRecv_adds Let_def
    by (cases "dial_err net"; cases "snd (writes net 0)"; cases "read_resp net"; cases "snd (read_resp net)"; cases "fst (read_resp net) > 0")
      (simp_all add: session_tail_adds [unfolded Let_def] fold_session)
qed

section \<open>All goroutines\<close>

text \<open>
  A client goroutine: not started, with additions still to make, and then the three actions of its
  deferred function. The state of \<^verbatim>\<open>main\<close>: the loop variable, whether it has sent to the semaphore for
  this turn, how many values the semaphore holds, the wait group, the count of finished clients,
  and whether \<^verbatim>\<open>wg.Wait()\<close> has returned.
\<close>

datatype client_state = Waiting | Running "(counter \<times> int) list" | AtDone | AtCount | AtRelease | Gone

record Load =
  turn :: nat
  acquired :: bool
  sem :: nat
  wg :: nat
  done_count :: nat
  clients :: "nat \<Rightarrow> client_state"
  totals :: stats
  finished :: bool

definition load_init :: Load where
  "load_init = \<lparr>turn = 0, acquired = False, sem = 0, wg = 0, done_count = 0, clients = (\<lambda>_. Waiting),
     totals = zero_stats, finished = False\<rparr>"

inductive wstep :: "nat \<Rightarrow> nat \<Rightarrow> (nat \<Rightarrow> net_run) \<Rightarrow> Load \<Rightarrow> Load \<Rightarrow> bool" for conns workers nets where
  Acquire: "\<not> acquired y \<Longrightarrow> turn y < conns \<Longrightarrow> sem y < workers \<Longrightarrow>
    wstep conns workers nets y (y\<lparr>sem := sem y + 1, acquired := True\<rparr>)"
| Spawn: "acquired y \<Longrightarrow>
    wstep conns workers nets y (y\<lparr>wg := wg y + 1, turn := turn y + 1, acquired := False,
      clients := (clients y)(turn y := Running (client_adds (nets (turn y))))\<rparr>)"
| Add: "clients y i = Running (a # as) \<Longrightarrow>
    wstep conns workers nets y (y\<lparr>totals := apply_add a (totals y), clients := (clients y)(i := Running as)\<rparr>)"
| Return: "clients y i = Running [] \<Longrightarrow> wstep conns workers nets y (y\<lparr>clients := (clients y)(i := AtDone)\<rparr>)"
| Done: "clients y i = AtDone \<Longrightarrow> wstep conns workers nets y (y\<lparr>wg := wg y - 1, clients := (clients y)(i := AtCount)\<rparr>)"
| Count: "clients y i = AtCount \<Longrightarrow>
    wstep conns workers nets y (y\<lparr>done_count := done_count y + 1, clients := (clients y)(i := AtRelease)\<rparr>)"
| Release: "clients y i = AtRelease \<Longrightarrow>
    wstep conns workers nets y (y\<lparr>sem := sem y - 1, clients := (clients y)(i := Gone)\<rparr>)"
| WaitReturns: "\<not> acquired y \<Longrightarrow> turn y = conns \<Longrightarrow> wg y = 0 \<Longrightarrow> \<not> finished y \<Longrightarrow>
    wstep conns workers nets y (y\<lparr>finished := True\<rparr>)"

inductive wreachable :: "nat \<Rightarrow> nat \<Rightarrow> (nat \<Rightarrow> net_run) \<Rightarrow> Load \<Rightarrow> bool" for conns workers nets where
  w_init: "wreachable conns workers nets load_init"
| w_step: "wreachable conns workers nets y \<Longrightarrow> wstep conns workers nets y z \<Longrightarrow> wreachable conns workers nets z"

section \<open>The invariant\<close>

text \<open>What a goroutine contributes to the semaphore, the wait group and the count, and what it still adds.\<close>

definition sem_part :: "client_state \<Rightarrow> nat" where
  "sem_part c = (case c of Waiting \<Rightarrow> 0 | Gone \<Rightarrow> 0 | _ \<Rightarrow> 1)"

definition wg_part :: "client_state \<Rightarrow> nat" where
  "wg_part c = (case c of Running _ \<Rightarrow> 1 | AtDone \<Rightarrow> 1 | _ \<Rightarrow> 0)"

definition done_part :: "client_state \<Rightarrow> nat" where
  "done_part c = (case c of AtRelease \<Rightarrow> 1 | Gone \<Rightarrow> 1 | _ \<Rightarrow> 0)"

definition left_to_add :: "net_run \<Rightarrow> client_state \<Rightarrow> (counter \<times> int) list" where
  "left_to_add net c = (case c of Waiting \<Rightarrow> client_adds net | Running as \<Rightarrow> as | _ \<Rightarrow> [])"

fun reading :: "counter \<Rightarrow> stats \<Rightarrow> int" where
  "reading Conned s = conned s"
| "reading Failed s = failed s"
| "reading Authed s = authed s"
| "reading Realdata s = realdata s"
| "reading Heartbeats s = heartbeats s"
| "reading BytesSent s = bytesSent s"
| "reading BytesRecv s = bytesRecv s"
| "reading TotalLatency s = totalLatency s"
| "reading LatencyCount s = latencyCount s"

definition added :: "counter \<Rightarrow> (counter \<times> int) list \<Rightarrow> int" where
  "added k as = sum_list (map (\<lambda>(k', n). if k' = k then n else 0) as)"

lemma reading_add: "reading k (apply_add a s) = reading k s + added k [a]"
proof -
  obtain k' n where "a = (k', n)" by fastforce
  then show ?thesis by (cases k'; cases k) (simp_all add: added_def)
qed

lemma added_Cons: "added k (a # as) = added k [a] + added k as"
  by (simp add: added_def)

lemma reading_fold: "reading k (fold apply_add as s) = reading k s + added k as"
proof (induction as arbitrary: s)
  case (Cons a as)
  then show ?case by (simp add: reading_add added_Cons [of k a as])
qed (simp add: added_def)

lemma reading_inject: "(\<And>k. reading k s = reading k s') \<Longrightarrow> s = (s' :: stats)"
proof -
  assume eq: "reading k s = reading k s'" for k
  note eq [of Conned] eq [of Failed] eq [of Authed] eq [of Realdata] eq [of Heartbeats] eq [of BytesSent] eq [of BytesRecv]
    eq [of TotalLatency] eq [of LatencyCount]
  then show ?thesis by simp
qed

lemma reading_main: "reading k (stress_main conns nets) = (\<Sum>i<conns. added k (client_adds (nets i)))"
proof (induction conns)
  case 0
  then show ?case by (cases k) (simp_all add: stress_main_def zero_stats_def)
next
  case (Suc n)
  have "stress_main (Suc n) nets = fold apply_add (client_adds (nets n)) (stress_main n nets)"
    by (simp add: stress_main_def runClient_adds)
  then show ?case using Suc by (simp add: reading_fold)
qed

text \<open>A sum over all clients, when one of them changes its state.\<close>

lemma sum_change:
  fixes g :: "nat \<Rightarrow> client_state \<Rightarrow> 'b :: comm_monoid_add"
  assumes "i < n"
  shows "(\<Sum>j<n. g j ((f(i := c)) j)) + g i (f i) = (\<Sum>j<n. g j (f j)) + g i c"
proof -
  have *: "(\<Sum>j<n. h j) = h i + (\<Sum>j\<in>{..<n} - {i}. h j)" for h :: "nat \<Rightarrow> 'b"
    using assms by (intro sum.remove) simp_all
  have "(\<Sum>j\<in>{..<n} - {i}. g j ((f(i := c)) j)) = (\<Sum>j\<in>{..<n} - {i}. g j (f j))" by (intro sum.cong) simp_all
  then show ?thesis
    unfolding * [of "\<lambda>j. g j ((f(i := c)) j)"] * [of "\<lambda>j. g j (f j)"] by (simp add: ac_simps)
qed

definition load_inv :: "nat \<Rightarrow> nat \<Rightarrow> (nat \<Rightarrow> net_run) \<Rightarrow> Load \<Rightarrow> bool" where
  "load_inv conns workers nets y \<longleftrightarrow>
     turn y \<le> conns \<and> (acquired y \<longrightarrow> turn y < conns) \<and> (\<forall>i. clients y i = Waiting \<longleftrightarrow> turn y \<le> i) \<and>
     sem y = (\<Sum>i<conns. sem_part (clients y i)) + (if acquired y then 1 else 0) \<and> sem y \<le> workers \<and>
     wg y = (\<Sum>i<conns. wg_part (clients y i)) \<and> done_count y = (\<Sum>i<conns. done_part (clients y i)) \<and>
     (\<forall>k. reading k (totals y) + (\<Sum>i<conns. added k (left_to_add (nets i) (clients y i))) =
        reading k (stress_main conns nets)) \<and>
     (finished y \<longrightarrow> turn y = conns \<and> wg y = 0)"

lemma load_inv_init: "load_inv conns workers nets load_init"
proof -
  have "reading k zero_stats = 0" for k by (cases k) (simp_all add: zero_stats_def)
  then show ?thesis
    by (simp add: load_inv_def load_init_def sem_part_def wg_part_def done_part_def left_to_add_def reading_main)
qed

lemmas part_defs = sem_part_def wg_part_def done_part_def left_to_add_def

text \<open>The sums of the invariant when client \<open>i\<close> changes its state to \<open>c\<close>.\<close>

lemma parts_change:
  fixes f :: "nat \<Rightarrow> client_state" and i n :: nat
  assumes "i < n"
  shows "(\<Sum>j<n. sem_part ((f(i := c)) j)) + sem_part (f i) = (\<Sum>j<n. sem_part (f j)) + sem_part c"
    "(\<Sum>j<n. wg_part ((f(i := c)) j)) + wg_part (f i) = (\<Sum>j<n. wg_part (f j)) + wg_part c"
    "(\<Sum>j<n. done_part ((f(i := c)) j)) + done_part (f i) = (\<Sum>j<n. done_part (f j)) + done_part c"
    "(\<Sum>j<n. added k (left_to_add (nets j) ((f(i := c)) j))) + added k (left_to_add (nets i) (f i)) =
     (\<Sum>j<n. added k (left_to_add (nets j) (f j))) + added k (left_to_add (nets i) c)"
  using sum_change [OF assms, of "\<lambda>_. sem_part" f c] sum_change [OF assms, of "\<lambda>_. wg_part" f c]
    sum_change [OF assms, of "\<lambda>_. done_part" f c] sum_change [OF assms, of "\<lambda>j x. added k (left_to_add (nets j) x)" f c]
  by simp_all

lemma client_lt: "load_inv conns workers nets y \<Longrightarrow> clients y i \<noteq> Waiting \<Longrightarrow> i < conns"
  unfolding load_inv_def by (meson leI order.trans)

text \<open>One goroutine moves on: what it owes to the semaphore, the wait group and the counters moves with it.\<close>

lemma load_inv_client:
  assumes inv: "load_inv conns workers nets y" and i: "clients y i \<noteq> Waiting" and c: "c \<noteq> Waiting"
    and "turn z = turn y" "acquired z = acquired y" "finished z = finished y" "clients z = (clients y)(i := c)"
    and sem: "sem z + sem_part (clients y i) = sem y + sem_part c" "sem_part c \<le> sem_part (clients y i)"
    and wg: "wg z + wg_part (clients y i) = wg y + wg_part c" "wg_part c \<le> wg_part (clients y i)"
    and dn: "done_count z + done_part (clients y i) = done_count y + done_part c"
    and tot: "\<And>k. reading k (totals z) + added k (left_to_add (nets i) c) =
      reading k (totals y) + added k (left_to_add (nets i) (clients y i))"
  shows "load_inv conns workers nets z"
proof -
  have "i < conns" by (rule client_lt [OF inv i])
  note ch = parts_change [OF this, where f = "clients y" and c = c]
  have "sem z = (\<Sum>j<conns. sem_part (clients z j)) + (if acquired z then 1 else 0)" "sem z \<le> workers"
    using inv ch(1) sem assms(4-7) by (simp_all add: load_inv_def)
  moreover have "wg z = (\<Sum>j<conns. wg_part (clients z j))" "wg z \<le> wg y"
    using inv ch(2) wg assms(4-7) by (simp_all add: load_inv_def)
  moreover have "done_count z = (\<Sum>j<conns. done_part (clients z j))"
    using inv ch(3) dn assms(7) by (simp add: load_inv_def)
  moreover have "reading k (totals z) + (\<Sum>j<conns. added k (left_to_add (nets j) (clients z j))) = reading k (stress_main conns nets)" for k
  proof -
    have "reading k (totals y) + (\<Sum>j<conns. added k (left_to_add (nets j) (clients y j))) = reading k (stress_main conns nets)"
      using inv by (simp add: load_inv_def)
    then show ?thesis using ch(4) [where k = k and nets = nets] tot [of k] unfolding assms(7) by linarith
  qed
  moreover have "\<forall>j. clients z j = Waiting \<longleftrightarrow> turn z \<le> j" "turn z \<le> conns" "acquired z \<longrightarrow> turn z < conns"
    "finished z \<longrightarrow> turn z = conns \<and> wg y = 0"
    using inv i c assms(4-7) by (auto simp: load_inv_def)
  ultimately show ?thesis unfolding load_inv_def by auto
qed

lemma parts_le:
  assumes "load_inv conns workers nets y" "clients y i \<noteq> Waiting"
  shows "sem_part (clients y i) \<le> sem y" "wg_part (clients y i) \<le> wg y"
proof -
  have "g (clients y i) \<le> (\<Sum>j<conns. g (clients y j))" for g :: "client_state \<Rightarrow> nat"
    using client_lt [OF assms] by (intro member_le_sum) simp_all
  from this [of sem_part] this [of wg_part] show "sem_part (clients y i) \<le> sem y" "wg_part (clients y i) \<le> wg y"
    using assms(1) by (simp_all add: load_inv_def)
qed

lemma wstep_inv:
  assumes "wstep conns workers nets y z" "load_inv conns workers nets y"
  shows "load_inv conns workers nets z"
  using assms(1)
proof (cases rule: wstep.cases)
  case Acquire
  then show ?thesis using assms(2) by (simp add: load_inv_def)
next
  case Spawn
  let ?c = "Running (client_adds (nets (turn y)))"
  have t: "turn y < conns" "clients y (turn y) = Waiting" using assms(2) Spawn by (simp_all add: load_inv_def)
  note ch = parts_change [OF t(1), where f = "clients y" and c = ?c]
  have "(\<Sum>j<conns. sem_part (((clients y)(turn y := ?c)) j)) = (\<Sum>j<conns. sem_part (clients y j)) + 1"
    "(\<Sum>j<conns. wg_part (((clients y)(turn y := ?c)) j)) = (\<Sum>j<conns. wg_part (clients y j)) + 1"
    "(\<Sum>j<conns. done_part (((clients y)(turn y := ?c)) j)) = (\<Sum>j<conns. done_part (clients y j))"
    "(\<Sum>j<conns. added k (left_to_add (nets j) (((clients y)(turn y := ?c)) j))) =
     (\<Sum>j<conns. added k (left_to_add (nets j) (clients y j)))" for k
    using ch(1-3) ch(4) [where k = k and nets = nets] t(2) by (simp_all add: part_defs)
  then show ?thesis using assms(2) Spawn t unfolding load_inv_def by (auto simp: fun_upd_def)
next
  case (Add i a as)
  then show ?thesis
    by (intro load_inv_client [OF assms(2), of i "Running as"])
      (simp_all add: part_defs reading_add added_Cons [of _ a as])
next
  case (Return i)
  then show ?thesis
    by (intro load_inv_client [OF assms(2), of i AtDone]) (simp_all add: part_defs)
next
  case (Done i)
  have "1 \<le> wg y" using parts_le(2) [OF assms(2), of i] Done by (simp add: part_defs)
  then show ?thesis using Done
    by (intro load_inv_client [OF assms(2), of i AtCount]) (simp_all add: part_defs)
next
  case (Count i)
  then show ?thesis
    by (intro load_inv_client [OF assms(2), of i AtRelease]) (simp_all add: part_defs)
next
  case (Release i)
  have "1 \<le> sem y" using parts_le(1) [OF assms(2), of i] Release by (simp add: part_defs)
  then show ?thesis using Release
    by (intro load_inv_client [OF assms(2), of i Gone]) (simp_all add: part_defs)
next
  case WaitReturns
  then show ?thesis using assms(2) by (simp add: load_inv_def)
qed

lemma wreachable_inv: "wreachable conns workers nets y \<Longrightarrow> load_inv conns workers nets y"
  by (induction rule: wreachable.induct) (auto intro: load_inv_init wstep_inv)

section \<open>Termination and progress\<close>

text \<open>The number of steps that are left.\<close>

definition steps_left :: "net_run \<Rightarrow> client_state \<Rightarrow> nat" where
  "steps_left net c =
     (case c of Waiting \<Rightarrow> length (client_adds net) + 5 | Running as \<Rightarrow> length as + 4
      | AtDone \<Rightarrow> 3 | AtCount \<Rightarrow> 2 | AtRelease \<Rightarrow> 1 | Gone \<Rightarrow> 0)"

definition load_measure :: "nat \<Rightarrow> (nat \<Rightarrow> net_run) \<Rightarrow> Load \<Rightarrow> nat" where
  "load_measure conns nets y =
     (\<Sum>i<conns. steps_left (nets i) (clients y i)) + (conns - turn y) +
     (if acquired y then 0 else 1) + (if finished y then 0 else 1)"

lemma measure_client:
  assumes "i < conns" "steps_left (nets i) c < steps_left (nets i) (clients y i)"
  shows "(\<Sum>j<conns. steps_left (nets j) (((clients y)(i := c)) j)) < (\<Sum>j<conns. steps_left (nets j) (clients y j))"
  using sum_change [OF assms(1), of "\<lambda>j. steps_left (nets j)" "clients y" c] assms(2) by linarith

lemma wstep_measure:
  assumes "wstep conns workers nets y z" "load_inv conns workers nets y"
  shows "load_measure conns nets z < load_measure conns nets y"
  using assms(1)
proof (cases rule: wstep.cases)
  case Acquire
  then show ?thesis by (simp add: load_measure_def)
next
  case Spawn
  then have t: "turn y < conns" "clients y (turn y) = Waiting" using assms(2) by (simp_all add: load_inv_def)
  then show ?thesis
    using Spawn measure_client [OF t(1), of nets "Running (client_adds (nets (turn y)))" y]
    by (simp add: load_measure_def steps_left_def)
next
  case WaitReturns
  then show ?thesis by (simp add: load_measure_def)
next
  case (Add i a as)
  then show ?thesis
    using measure_client [OF client_lt [OF assms(2), of i], of nets "Running as" y] by (simp add: load_measure_def steps_left_def)
next
  case (Return i)
  then show ?thesis
    using measure_client [OF client_lt [OF assms(2), of i], of nets AtDone y] by (simp add: load_measure_def steps_left_def)
next
  case (Done i)
  then show ?thesis
    using measure_client [OF client_lt [OF assms(2), of i], of nets AtCount y] by (simp add: load_measure_def steps_left_def)
next
  case (Count i)
  then show ?thesis
    using measure_client [OF client_lt [OF assms(2), of i], of nets AtRelease y] by (simp add: load_measure_def steps_left_def)
next
  case (Release i)
  then show ?thesis
    using measure_client [OF client_lt [OF assms(2), of i], of nets Gone y] by (simp add: load_measure_def steps_left_def)
qed

text \<open>A goroutine that has been started and has not ended can always make its next step.\<close>

lemma client_progress:
  assumes "clients y i \<noteq> Waiting" "clients y i \<noteq> Gone"
  shows "\<exists>z. wstep conns workers nets y z"
proof (cases "clients y i")
  case (Running as)
  then show ?thesis by (cases as) (blast intro: Add Return)+
qed (use assms in \<open>blast intro: Done Count Release\<close>)+

lemma progress:
  assumes "load_inv conns workers nets y" "0 < workers \<or> conns = 0" "\<not> finished y"
  shows "\<exists>z. wstep conns workers nets y z"
proof (cases "\<exists>i. clients y i \<noteq> Waiting \<and> clients y i \<noteq> Gone")
  case True
  then show ?thesis using client_progress by blast
next
  case False
  then have "clients y i = Waiting \<or> clients y i = Gone" for i by blast
  moreover have "sem_part c = 0 \<and> wg_part c = 0" if "c = Waiting \<or> c = Gone" for c using that by (auto simp: part_defs)
  ultimately have "sem_part (clients y i) = 0" "wg_part (clients y i) = 0" for i by blast+
  then have "sem y = (if acquired y then 1 else 0)" "wg y = 0" "turn y \<le> conns" "acquired y \<longrightarrow> turn y < conns"
    using assms(1) by (simp_all add: load_inv_def)
  then show ?thesis
    using assms(2,3) Spawn [of y] Acquire [of y conns workers] WaitReturns [of y conns]
    by (cases "acquired y"; cases "turn y = conns") (simp_all, blast+)
qed

lemma finishes:
  assumes "load_inv conns workers nets y" "0 < workers \<or> conns = 0"
  shows "\<exists>z. (wstep conns workers nets)\<^sup>*\<^sup>* y z \<and> finished z"
  using assms(1)
proof (induction "load_measure conns nets y" arbitrary: y rule: less_induct)
  case less
  show ?case
  proof (cases "finished y")
    case False
    obtain z where z: "wstep conns workers nets y z" using progress [OF less.prems assms(2) False] by blast
    show ?thesis
      using less.hyps [OF wstep_measure [OF z less.prems] wstep_inv [OF z less.prems]] z
      by (meson converse_rtranclp_into_rtranclp)
  qed blast
qed

lemma no_infinite_run:
  assumes "load_inv conns workers nets (f 0)"
  shows "\<not> (\<forall>n. wstep conns workers nets (f n) (f (Suc n)))"
proof
  assume s: "\<forall>n. wstep conns workers nets (f n) (f (Suc n))"
  have "load_inv conns workers nets (f n)" for n
    by (induction n) (use assms s wstep_inv in blast)+
  then have "load_measure conns nets (f (Suc n)) < load_measure conns nets (f n)" for n
    using s wstep_measure by blast
  then show False using wf_no_infinite_down_chainE [OF wf_less, of "\<lambda>n. load_measure conns nets (f n)"] by auto
qed

section \<open>Properties\<close>

text \<open>
  With clients and no worker nothing ever happens: the channel has no capacity and no goroutine
  receives from it, so \<^verbatim>\<open>main\<close> blocks at its first send.
\<close>

lemma no_workers_stuck:
  assumes "0 < conns" "wreachable conns 0 nets y"
  shows "\<not> finished y" "\<not> wstep conns 0 nets y z"
proof -
  have stuck: "\<not> wstep conns 0 nets load_init z" for z
    using assms(1) by (auto simp: load_init_def elim!: wstep.cases)
  from assms(2) have "y = load_init" by (induction rule: wreachable.induct) (use stuck in auto)
  then show "\<not> finished y" "\<not> wstep conns 0 nets y z" using stuck by (simp_all add: load_init_def)
qed

lemma totals_finished:
  assumes "load_inv conns workers nets y" "finished y"
  shows "totals y = stress_main conns nets"
proof (rule reading_inject)
  fix k
  have "turn y = conns" and w: "(\<Sum>i<conns. wg_part (clients y i)) = 0" using assms by (auto simp: load_inv_def)
  then have "clients y i \<noteq> Waiting" "wg_part (clients y i) = 0" if "i < conns" for i
    using assms(1) that by (simp_all add: load_inv_def)
  then have "left_to_add (nets i) (clients y i) = []" if "i < conns" for i
    using that by (cases "clients y i") (force simp: part_defs)+
  then have "(\<Sum>i<conns. added k (left_to_add (nets i) (clients y i))) = 0" by (simp add: added_def)
  moreover have "reading k (totals y) + (\<Sum>i<conns. added k (left_to_add (nets i) (clients y i))) = reading k (stress_main conns nets)"
    using assms(1) by (simp add: load_inv_def)
  ultimately show "reading k (totals y) = reading k (stress_main conns nets)" by simp
qed

text \<open>
  C9: the load generator under every schedule, for every capacity of the semaphore that \<^verbatim>\<open>make\<close> accepts
  (it panics on a negative one) and every number of clients. In every reachable state at most
  \<open>workers\<close> client goroutines are alive; when \<^verbatim>\<open>wg.Wait()\<close> has returned, the counters are those of
  running the clients one after the other, whatever the interleaving of their additions; no run
  is infinite; and a run stops before \<^verbatim>\<open>wg.Wait()\<close> has returned exactly if there are clients and no
  worker, in which case it never gets there. So with at least one worker every run ends with the
  report.
\<close>

theorem workers_bounded_and_finish:
  assumes "wreachable conns workers nets y"
  shows "card {i. clients y i \<noteq> Waiting \<and> clients y i \<noteq> Gone} \<le> workers \<and>
    (finished y \<longrightarrow> totals y = stress_main conns nets) \<and>
    \<not> (\<exists>f. f 0 = y \<and> (\<forall>n. wstep conns workers nets (f n) (f (Suc n)))) \<and>
    (\<not> finished y \<and> (\<nexists>z. wstep conns workers nets y z) \<longleftrightarrow> workers = 0 \<and> 0 < conns) \<and>
    ((\<exists>z. (wstep conns workers nets)\<^sup>*\<^sup>* y z \<and> finished z) \<longleftrightarrow> 0 < workers \<or> conns = 0)"
proof -
  note inv = wreachable_inv [OF assms]
  let ?alive = "{i. clients y i \<noteq> Waiting \<and> clients y i \<noteq> Gone}"
  have fin: "?alive \<subseteq> {..<conns}" using client_lt [OF inv] by auto
  have "sem_part c = 1" if "c \<noteq> Waiting" "c \<noteq> Gone" for c using that by (cases c) (simp_all add: sem_part_def)
  then have "card ?alive = (\<Sum>i\<in>?alive. sem_part (clients y i))" by simp
  also have "\<dots> \<le> (\<Sum>i<conns. sem_part (clients y i))" using fin by (intro sum_mono2) simp_all
  also have "\<dots> \<le> workers" using inv by (simp add: load_inv_def)
  finally have 1: "card ?alive \<le> workers" .
  have 2: "\<not> finished y \<and> (\<nexists>z. wstep conns workers nets y z) \<longleftrightarrow> workers = 0 \<and> 0 < conns"
    using progress [OF inv] no_workers_stuck [of conns nets y] assms by (cases "workers = 0 \<and> 0 < conns") auto
  have "\<not> (\<exists>z. (wstep conns workers nets)\<^sup>*\<^sup>* y z \<and> finished z)" if "workers = 0 \<and> 0 < conns"
    using 2 that by (metis converse_rtranclpE)
  then have 3: "(\<exists>z. (wstep conns workers nets)\<^sup>*\<^sup>* y z \<and> finished z) \<longleftrightarrow> 0 < workers \<or> conns = 0"
    using finishes [OF inv] by (cases "workers = 0 \<and> 0 < conns") auto
  have 4: "\<not> (\<exists>f. f 0 = y \<and> (\<forall>n. wstep conns workers nets (f n) (f (Suc n))))"
    using no_infinite_run inv by blast
  show ?thesis by (intro conjI impI 1 2 3 4 totals_finished [OF inv])
qed

theorem workers_bounded_and_finish_witness:
  "(\<exists>z. (wstep 3 2 (\<lambda>_. \<lparr>dial_err = True, writes = \<lambda>_. (0, False), read_resp = (0, False), latency = 0\<rparr>))\<^sup>*\<^sup>* load_init z \<and> finished z) \<and>
   (\<nexists>z. wstep 500 0 (\<lambda>_. \<lparr>dial_err = False, writes = \<lambda>_. (0, False), read_resp = (0, False), latency = 0\<rparr>) load_init z)"
  using workers_bounded_and_finish [OF w_init, of 2 3] workers_bounded_and_finish [OF w_init, of 0 500] by simp

end
