(* ===== verification/Spec2Isabelle.thy ===== *)
theory Spec2Isabelle
  imports Framing_Props Message_Props Payload_Props Crypto Conn_Props Server_Atomic Idle_Props Clients_Props Forward_Props Buffers Workers
begin

text \<open>
  Verification of a Go SDK for GB/T 32960, the protocol by which electric vehicles report to a
  platform over TCP. Paths below are relative to \<^verbatim>\<open>src/\<close>.

  \<^bold>\<open>The program.\<close> A server (\<^verbatim>\<open>server.go\<close>) accepts connections and runs one goroutine for each
  (\<^verbatim>\<open>conn.go\<close>). The goroutine reads bytes into a stream decoder (\<^verbatim>\<open>decoder.go\<close>), which finds frames
  by a two-byte marker, a length and a checksum, and resynchronises after garbage. Each packet is
  decrypted (\<^verbatim>\<open>crypto.go\<close>) if the session has a key and handled by its command: login (authenticated by
  \<^verbatim>\<open>auth/auth.go\<close> or the application, registered in \<^verbatim>\<open>vin_registry.go\<close>), logout, realtime and reissued
  data (\<^verbatim>\<open>message.go\<close>, \<^verbatim>\<open>codec/\<close>), heartbeat, time calibration, platform and parameter messages. Results
  go to the callbacks of the application (\<^verbatim>\<open>events.go\<close>, \<^verbatim>\<open>interfaces.go\<close>) and to forwarders
  (\<^verbatim>\<open>forward/\<close>). \<^verbatim>\<open>cmd/\<close> holds an example server, a simulated vehicle and a load generator.

  \<^bold>\<open>Conventions.\<close> A Go byte slice or string is a list of 8-bit words; fixed-width integers are words
  and wrap; \<^verbatim>\<open>int\<close> is \<open>nat\<close> or \<open>int\<close>. A run-time panic (index or slice out of range) is \<open>None\<close>, a
  returned error is \<open>Inl\<close> of \<open>go_error\<close>. Loops are recursive functions with termination proofs.
  Fuel is used only by \<open>json_read\<close>, a reader that serves as specification: twice the number of code
  points, which is proved to be enough for every text the encoder writes. Shared mutable state is passed explicitly; connections live in a heap and
  are referred to by index, as pointers are. Record fields and functions keep the names of the source
  where HOL allows it; a suffix \<open>_c\<close> marks the types of package \<^verbatim>\<open>codec\<close>.

  \<^bold>\<open>Theories.\<close>
  \<^item> \<open>Prelude\<close>: byte and string types, checked slice access, big-endian integers, with the
    collections \<open>wire\<close> and \<open>total\<close> that carry the decoding proofs, and the locale of counted loops.
  \<^item> \<open>Constants\<close>: \<^verbatim>\<open>constant/command.go\<close>.
  \<^item> \<open>Framing\<close>, \<open>Framing_Props\<close>: \<^verbatim>\<open>Decoder\<close> with \<^verbatim>\<open>Feed\<close>, \<^verbatim>\<open>Decode\<close>, \<^verbatim>\<open>verifyBCC\<close>, and \<^verbatim>\<open>EncodeResponse\<close>. The abstract
    specification is \<open>scan\<close> on the list of pending bytes; the decoder refines it. Round trip,
    independence of fragmentation, soundness, resynchronisation, bounded memory, rejection of damaged
    frames, and the two inputs on which the decoder panics or loses a frame.
  \<^item> \<open>GoTime\<close>: civil time of Go's \<^verbatim>\<open>time\<close> package as far as used, and the time codecs of \<^verbatim>\<open>decoder.go\<close>.
  \<^item> \<open>Codec\<close>, \<open>Codec_Props\<close>: the nine field decoders of \<^verbatim>\<open>codec/\<close>; a locale of fields with a layout,
    interpreted for each.
  \<^item> \<open>Messages\<close>, \<open>Message_Props\<close>: \<^verbatim>\<open>message.go\<close>. A locale of fields whose end \<^verbatim>\<open>findFieldEnd\<close> finds,
    interpreted for all but the alarm field; decoding of arbitrary lists of fields and of reissue items.
  \<^item> \<open>Payload\<close>, \<open>Payload_Props\<close>: login, logout, platform and parameter payloads of \<^verbatim>\<open>decoder.go\<close>.
  \<^item> \<open>AES\<close>, \<open>Crypto\<close>: AES-128 and CBC as Go's \<^verbatim>\<open>crypto\<close> packages provide them, proved invertible and
    evaluated on the FIPS-197 vector; \<^verbatim>\<open>crypto.go\<close> on top of them.
  \<^item> \<open>Registry\<close>: \<^verbatim>\<open>vin_registry.go\<close> against the contract \<open>vin_index\<close>, and \<^verbatim>\<open>auth/auth.go\<close>.
  \<^item> \<open>Server_State\<close>: connections, the world (the mutable part of the server with the clock and the
    application's state), callbacks, options (\<^verbatim>\<open>options.go\<close>), table operations of \<^verbatim>\<open>server.go\<close>.
  \<^item> \<open>Conn\<close>, \<open>Conn_Props\<close>: \<^verbatim>\<open>conn.go\<close>: sending (a write may fail after a part of the packet), closing,
    every case of \<^verbatim>\<open>handlePacket\<close>, the receive loop and \<^verbatim>\<open>run\<close>. What is sent is received if its length
    fits the length field; handling never panics; packets are handled in order, wherever
    the reads are cut, except for the cuts on which the decoder panics or loses a frame.
  \<^item> \<open>Server_Steps\<close>, \<open>Server_Props\<close>: accept loop, idle check and shutdown of \<^verbatim>\<open>server.go\<close>; all goroutines as
    the step relation \<open>step\<close> with one packet, read, probe or close per step. \<open>uses_api\<close> bounds what
    callbacks may do; \<open>api_invariant\<close> turns an invariant of the exported operations into one of every
    handler, \<open>step_closed\<close> into one of every step, \<open>step_invariant\<close> into one of every reachable state. Only authenticated vehicles are logged in, the counter respects its limit, bookkeeping is
    exact as long as no login is accepted on a closed connection and identifiers differ, shutdown closes what is registered, the idle check
    what is silent, and a connection accepted while the server stops is missed by the shutdown. The accept loop of
    the example server sets up exactly the sockets below its limit.
  \<^item> \<open>Idle_Props\<close>: the loop of the idle check closes every connection that stays silent.
  \<^item> \<open>Server_Runs\<close>: the function \<^verbatim>\<open>run\<close> is simulated by the step relation; \<^verbatim>\<open>Close\<close> and \<^verbatim>\<open>unregister\<close> split
    into their atomic operations, with the double count of two concurrent callers.
  \<^item> \<open>Server_Atomic\<close>: the accept loop and any number of closers, on any connections, interleaved between
    single atomic operations (\<^verbatim>\<open>Store\<close>, \<^verbatim>\<open>Delete\<close> and the two counts apart). Every run of \<open>step\<close> is a run of this
    relation; the invariant of table and counter holds between any two operations.
  \<^item> \<open>Buffers\<close>: \<^verbatim>\<open>buffer.go\<close>, a store of buffers and the pool of their addresses. The server that reads
    into pooled buffers, step by step, refines \<open>step\<close>; buffers are used exclusively.
  \<^item> \<open>Clients\<close>, \<open>Clients_Props\<close>: \<^verbatim>\<open>cmd/simclient\<close> and \<^verbatim>\<open>cmd/stresstest\<close> against the server of \<^verbatim>\<open>cmd/example\<close>.
  \<^item> \<open>Workers\<close>: the goroutines of \<^verbatim>\<open>cmd/stresstest\<close>, with semaphore, wait group and atomic counters, as a
    step relation: bounded concurrency, termination, agreement with the sequential run, and the
    deadlock without workers.
  \<^item> \<open>Json\<close>, \<open>Json_Props\<close>, \<open>Json_Lossless\<close>, \<open>Json_Reader\<close>: what \<^verbatim>\<open>json.Marshal\<close> makes of a forwarded message. The bodies
    are JSON; equal bodies come from equal messages; whatever the server's decoders return can be
    encoded; and a reader written for each structure from its field names (a specification, not
    code of the repository) gets back every field.
  \<^item> \<open>Forwarders\<close>, \<open>Forward_Props\<close>: \<^verbatim>\<open>forward/\<close>, with the Kafka and MQTT client libraries as arguments of which
    nothing is assumed; the server, its forwarding goroutines and the closing of the forwarders in
    \<^verbatim>\<open>Stop\<close> as one step relation, and the calls of the libraries that come of every run.
  \<^item> This theory: the path of an encrypted message through all layers.

  \<^bold>\<open>Assumptions.\<close> Sockets, random numbers, the clock, the callbacks of the application and the client
  libraries of the forwarders are arguments; what a theorem needs of them is among its hypotheses. A
  callback is taken not to panic. A step of \<open>step\<close> is atomic: interleavings inside the handling of one
  packet are not modelled, except for the accept loop and \<^verbatim>\<open>Close\<close> in \<open>Server_Atomic\<close>; a call of a client library is one step.
  Connection identifiers are arguments and may collide, as random numbers may; the properties that need
  different ones say so.

  \<^bold>\<open>Not modelled.\<close> Log output, socket deadlines and keep-alive settings, \<^verbatim>\<open>SetLogLevel\<close> and
  \<^verbatim>\<open>RemoteAddr\<close>, which have no effect on the modelled state; tickers, sleeps, the monitor and the printed
  report of the programs under \<^verbatim>\<open>cmd/\<close>; the RSA provider, which the source stores and never calls.
\<close>

section \<open>From the encrypted frame to the forwarders\<close>

text \<open>
  C4: an encrypted realtime message goes through all layers. On a connection that has a key, a frame
  whose data are the encryption of a time and any list of well-formed fields is found by the stream
  decoder, decrypted, decoded to exactly the message that the time and the fields describe, handed
  to the handler and then to every forwarder under the VIN of the frame; nothing stays pending.
\<close>

theorem encrypted_realtime_delivered:
  assumes "decoder_inv d" and "pending d = []" and "encryptKey (conn w c) = Some key" and "length key = 16"
    and "length vin = 17" and "2000 \<le> Year t" and "Year t < 2160"
    and "list_all framed xs" and "length (fields_wire xs) \<le> 65500"
  shows "\<exists>e d1 d2. EncryptAES128 (encodeBCDTime t @ fields_wire xs) key = Some (Inr e) \<and>
    EncodeResponse CmdRealtime vin EncAES128 e = Inr (wire_frame (response_packet CmdRealtime vin EncAES128 e)) \<and>
    Feed d (wire_frame (response_packet CmdRealtime vin EncAES128 e)) = Some d1 \<and>
    processPackets s c d1 w = Some (d2,
      forward s (newForwardMsg ''realtime'' vin (FRealtime (fields_message (wire_time t) xs)))
        (notify (handler s) OnRealtimeData c (fields_message (wire_time t) xs) w)) \<and>
    pending d2 = []"
proof -
  let ?data = "encodeBCDTime t @ fields_wire xs"
  have l: "length ?data \<le> 65506" using assms(9) by (simp add: encodeBCDTime_def)
  obtain e where e: "EncryptAES128 ?data key = Some (Inr e)" "length e = 16 * (length ?data div 16 + 1)"
    "DecryptAES128 e key = Some (Inr ?data)"
    using encrypt_decrypt [of key ?data] assms(4) by auto
  have "length ?data div 16 \<le> 65506 div 16" using l by (rule div_le_mono)
  then have "length e < 65536" using e(2) by simp
  then have wf: "list_all wf_packet [response_packet CmdRealtime vin EncAES128 e]"
    using assms(5) by (simp add: wf_response_packet)
  have "DecodeRealtimeData ?data = Some (Inr (fields_message (wire_time t) xs))"
    using realtime_wire [OF _ decodeTime6_default [OF assms(6,7)] assms(8)] by (simp add: encodeBCDTime_def)
  then have "handlePacket s c (response_packet CmdRealtime vin EncAES128 e) w = Some
      (forward s (newForwardMsg ''realtime'' vin (FRealtime (fields_message (wire_time t) xs)))
        (notify (handler s) OnRealtimeData c (fields_message (wire_time t) xs) w))"
    using assms(3) e(3)
    by (simp add: handlePacket_def dispatch_def handle_realtime_def response_packet_def)
  moreover have "EncodeResponse CmdRealtime vin EncAES128 e = Inr (wire_frame (response_packet CmdRealtime vin EncAES128 e))"
    using assms(5) by (simp add: EncodeResponse_wire_frame)
  ultimately show ?thesis
    using feed_process_frames [OF assms(1,2) wf, of s c w] e(1) by auto
qed

theorem encrypted_realtime_delivered_witness:
  "\<exists>e d1 d2 w'. Feed NewDecoder (wire_frame (response_packet CmdRealtime (str ''LTEST0000000000A1'') EncAES128 e)) = Some d1 \<and>
    processPackets (NewServer open_sockets [WithForwarder [3]]) 0 d1 (sample_world sample_conn) = Some (d2, w') \<and>
    forwarded w' = [(3, newForwardMsg ''realtime'' (str ''LTEST0000000000A1'')
      (FRealtime ((emptyMessage (Date 2026 6 15 18 48 30))\<lparr>PositionData := Some \<lparr>Longitude = 7, Latitude = 8\<rparr>\<rparr>)))]"
proof -
  let ?s = "NewServer open_sockets [WithForwarder [3]] :: nat Server"
  let ?xs = "[DPosition \<lparr>Longitude_c = 7, Latitude_c = 8\<rparr>]"
  have "fields_message (Date 2026 6 15 18 48 30) ?xs =
      (emptyMessage (Date 2026 6 15 18 48 30))\<lparr>PositionData := Some \<lparr>Longitude = 7, Latitude = 8\<rparr>\<rparr>"
    by (simp add: fields_message_def toPosition_def)
  moreover have "list_all framed ?xs" "length (fields_wire ?xs) \<le> 65500"
    by (simp_all add: framed_def position.length_layout)
  moreover have "handler ?s = None" "forwarders ?s = [3]" "forwarded (sample_world sample_conn) = []"
    by (simp_all add: NewServer_def WithForwarder_def sample_world_def NewWorld_def)
  ultimately show ?thesis
    using encrypted_realtime_delivered [OF NewDecoder_ok, of "sample_world sample_conn" 0 "replicate 16 7"
        "str ''LTEST0000000000A1''" "Date 2026 6 15 18 48 30" ?xs ?s] sample_time
    by (fastforce simp: sample_conn_def str_def notify_def forward_def)
qed

end
